(* ===== verification/Prelude.thy ===== *)
theory Prelude
  imports Main "HOL-Library.Code_Target_Nat"
begin

text \<open>
  Shared vocabulary of the development. Go values keep their shape: a string is the
  list of its bytes, a nil-able pointer is an \<open>option\<close>, an \<open>error\<close> result is an
  \<open>option\<close> whose \<open>None\<close> is Go's nil, and a map is an association list, so that the
  order in which \<open>range\<close> visits it stays visible. The generic lemmas on lists, options
  and association lists that more than one component needs are here.
\<close>

named_theorems go_defs \<open>unfolding rules of the model's non-recursive operations\<close>
named_theorems inv_intros \<open>preservation lemmas of component invariants\<close>

type_synonym 'e go_error = "'e option"
type_synonym ('k, 'v) go_map = "('k \<times> 'v) list"

section \<open>Sequencing of fallible checks\<close>

text \<open>
  \<open>if err := check(); err != nil { return wrap(err) }; rest\<close>
\<close>

definition guard_err :: "'e go_error \<Rightarrow> ('e \<Rightarrow> 'f) \<Rightarrow> 'f go_error \<Rightarrow> 'f go_error" where
  "guard_err chk wrap rest = (case chk of Some e \<Rightarrow> Some (wrap e) | None \<Rightarrow> rest)"

lemma guard_err_None [simp]: "guard_err chk w rest = None \<longleftrightarrow> chk = None \<and> rest = None"
  by (simp add: guard_err_def split: option.splits)

lemma guard_err_simps [simp]:
  "guard_err None w rest = rest"
  "guard_err (Some e) w rest = Some (w e)"
  by (simp_all add: guard_err_def)

text \<open>The first failing element of a list, with its index: a loop of checks.\<close>

fun first_err :: "nat \<Rightarrow> (nat \<Rightarrow> 'a \<Rightarrow> 'e go_error) \<Rightarrow> 'a list \<Rightarrow> 'e go_error" where
  "first_err i chk [] = None"
| "first_err i chk (x # xs) = (case chk i x of Some e \<Rightarrow> Some e | None \<Rightarrow> first_err (Suc i) chk xs)"

lemma first_err_None_iff:
  "first_err i chk xs = None \<longleftrightarrow> (\<forall>j < length xs. chk (i + j) (xs ! j) = None)"
proof (induction xs arbitrary: i)
  case Nil
  then show ?case by simp
next
  case (Cons x xs)
  have "(\<forall>j < length (x # xs). chk (i + j) ((x # xs) ! j) = None) \<longleftrightarrow>
        chk i x = None \<and> (\<forall>j < length xs. chk (Suc i + j) (xs ! j) = None)"
    by (auto simp: All_less_Suc2)
  with Cons.IH [of "Suc i"] show ?case
    by (auto split: option.splits)
qed

section \<open>Association lists as Go maps\<close>

text \<open>
  \<open>m[k]\<close> is \<open>map_of m k\<close>; \<open>m[k] = v\<close> overwrites in place or adds an entry;
  \<open>delete(m, k)\<close> removes the entry. Keys are distinct (\<open>map_ok\<close>).
\<close>

definition map_ok :: "('k, 'v) go_map \<Rightarrow> bool" where
  "map_ok m \<longleftrightarrow> distinct (map fst m)"

fun map_put :: "'k \<Rightarrow> 'v \<Rightarrow> ('k, 'v) go_map \<Rightarrow> ('k, 'v) go_map" where
  "map_put k v [] = [(k, v)]"
| "map_put k v ((k', v') # m) = (if k' = k then (k, v) # m else (k', v') # map_put k v m)"

definition map_del :: "'k \<Rightarrow> ('k, 'v) go_map \<Rightarrow> ('k, 'v) go_map" where
  "map_del k m = filter (\<lambda>p. fst p \<noteq> k) m"

lemma map_of_map_put [simp]: "map_of (map_put k v m) = (map_of m)(k \<mapsto> v)"
  by (induction m) (auto simp: fun_eq_iff)

lemma map_of_map_del [simp]: "map_of (map_del k m) = (map_of m)(k := None)"
  by (induction m) (auto simp: map_del_def fun_eq_iff)

lemma keys_map_put:
  "map fst (map_put k v m) = (if k \<in> set (map fst m) then map fst m else map fst m @ [k])"
proof (induction m)
  case (Cons p m)
  then show ?case by (cases p) simp
qed simp

lemma set_map_put_subset: "set (map_put k v m) \<subseteq> insert (k, v) (set m)"
  by (induction m) (auto split: if_splits)

lemma map_put_put [simp]: "map_put k v (map_put k w m) = map_put k v m"
  by (induction m) auto

lemma map_put_in: "(k, v) \<in> set (map_put k v m)"
  by (induction m) auto

lemma map_ok_Nil [simp]: "map_ok []"
  by (simp add: map_ok_def)

lemma map_ok_put [inv_intros]: "map_ok m \<Longrightarrow> map_ok (map_put k v m)"
  by (simp add: map_ok_def keys_map_put)

lemma map_ok_filter [inv_intros]: "map_ok m \<Longrightarrow> map_ok (filter P m)"
  by (simp add: map_ok_def distinct_map_filter)

lemma map_ok_del [inv_intros]: "map_ok m \<Longrightarrow> map_ok (map_del k m)"
  by (simp add: map_del_def map_ok_filter)

lemma length_map_put:
  "length (map_put k v m) = (if k \<in> set (map fst m) then length m else Suc (length m))"
  using arg_cong [OF keys_map_put [of k v m], of length] by (simp split: if_splits)

lemma keys_map_del: "map fst (map_del k m) = filter (\<lambda>k'. k' \<noteq> k) (map fst m)"
  by (induction m) (auto simp: map_del_def)

lemma map_ok_del_length:
  assumes "map_ok m" and "k \<in> set (map fst m)"
  shows "length (map_del k m) = length m - 1"
proof -
  have "length (map_del k m) = length (remove1 k (map fst m))"
    using arg_cong [OF keys_map_del [of k m], of length] assms
    by (simp add: map_ok_def distinct_remove1_removeAll removeAll_filter_not_eq)
       (metis (mono_tags, lifting) filter_cong)
  with assms(2) show ?thesis by (simp add: length_remove1)
qed

lemma map_ok_in_iff: "map_ok m \<Longrightarrow> map_of m k = Some v \<longleftrightarrow> (k, v) \<in> set m"
  by (simp add: map_ok_def)

text \<open>
  \<open>range\<close> visits the keys of a map in an order the language leaves open: an argument of the
  operations that depend on it, which is one of the possible orders.
\<close>

definition range_order :: "(('k, 'v) go_map \<Rightarrow> 'k list) \<Rightarrow> bool" where
  "range_order ord \<longleftrightarrow> (\<forall>m. map_ok m \<longrightarrow> set (ord m) = set (map fst m) \<and> distinct (ord m))"

lemma range_order_keys: "range_order (map fst)"
  by (simp add: range_order_def map_ok_def)

lemma map_del_shorter: "map_of m k = Some v \<Longrightarrow> length (map_del k m) < length m"
  unfolding map_del_def by (rule length_filter_less [of "(k, v)"]) (auto dest: map_of_SomeD)

lemma map_del_sub: "set (map_del k m) \<subseteq> set m"
  by (auto simp: map_del_def)

lemma map_del_absent [simp]: "k \<notin> set (map fst m) \<Longrightarrow> map_del k m = m"
  by (auto simp: map_del_def filter_id_conv)

lemma map_put_absent: "k \<notin> set (map fst m) \<Longrightarrow> map_put k v m = m @ [(k, v)]"
  by (induction m) auto

lemma map_ok_lookup_in: "map_of m k = Some v \<Longrightarrow> k \<in> set (map fst m)"
  by (force dest: map_of_SomeD)

section \<open>Lists\<close>

lemma takeWhile_drop_split: "xs = takeWhile P xs @ dropWhile P xs"
  by simp

lemma list_all_append_iff [simp]: "list_all P (xs @ ys) \<longleftrightarrow> list_all P xs \<and> list_all P ys"
  by (induction xs) auto

lemma list_all_takeI: "list_all P xs \<Longrightarrow> list_all P (take n xs)"
  by (metis append_take_drop_id list_all_append_iff)

lemma list_all_dropI: "list_all P xs \<Longrightarrow> list_all P (drop n xs)"
  by (metis append_take_drop_id list_all_append_iff)

section \<open>Runs of guarded operations\<close>

text \<open>
  A component whose operations have guards, executed in some order: a run stops at the first operation
  that is not possible.
\<close>

locale guarded_runs =
  fixes exec :: "'l \<Rightarrow> 's \<Rightarrow> 's option"
    and run :: "'l list \<Rightarrow> 's \<Rightarrow> 's option"
  assumes run_Nil: "run [] s = Some s"
    and run_Cons: "run (l # ls) s = (case exec l s of None \<Rightarrow> None | Some s' \<Rightarrow> run ls s')"
begin

lemma run_append: "run (ls @ ms) s = (case run ls s of None \<Rightarrow> None | Some s' \<Rightarrow> run ms s')"
  by (induction ls arbitrary: s) (auto simp: run_Nil run_Cons split: option.split)

lemma run_keeps:
  assumes "\<And>l s s'. l \<in> set ls \<Longrightarrow> I s \<Longrightarrow> exec l s = Some s' \<Longrightarrow> I s'" "I s" "run ls s = Some s'"
  shows "I s'"
  using assms by (induction ls arbitrary: s) (auto simp: run_Nil run_Cons split: option.splits)

end

end
