(* ===== verification/GoStrings.thy ===== *)
theory GoStrings
  imports Prelude
begin

text \<open>
  The part of Go's \<open>strings\<close>, \<open>strconv\<close>, \<open>unicode/utf8\<close> and \<open>net\<close> packages the
  modelled code uses. A Go string is the list of its bytes (a \<open>char\<close> is one byte); a
  \<open>range\<close> over a string visits the runes \<open>runes s\<close> of its UTF-8 decoding, with Go's
  rule that an invalid byte is the rune U+FFFD of width one.
\<close>

section \<open>Bytes and character classes\<close>

abbreviation byte_of :: "char \<Rightarrow> nat" where
  "byte_of c \<equiv> of_char c"

definition is_lower :: "char \<Rightarrow> bool" where
  "is_lower c \<longleftrightarrow> 97 \<le> byte_of c \<and> byte_of c \<le> 122"

definition is_upper :: "char \<Rightarrow> bool" where
  "is_upper c \<longleftrightarrow> 65 \<le> byte_of c \<and> byte_of c \<le> 90"

definition is_digit :: "char \<Rightarrow> bool" where
  "is_digit c \<longleftrightarrow> 48 \<le> byte_of c \<and> byte_of c \<le> 57"

definition is_alpha :: "char \<Rightarrow> bool" where
  "is_alpha c \<longleftrightarrow> is_lower c \<or> is_upper c"

definition is_alnum :: "char \<Rightarrow> bool" where
  "is_alnum c \<longleftrightarrow> is_alpha c \<or> is_digit c"

definition to_lower_byte :: "char \<Rightarrow> char" where
  "to_lower_byte c = (if is_upper c then char_of (byte_of c + 32) else c)"

lemmas char_class_defs = is_lower_def is_upper_def is_digit_def is_alpha_def is_alnum_def

lemma byte_of_inject: "byte_of c = byte_of d \<longleftrightarrow> c = d"
  by (rule of_char_eq_iff)

section \<open>Prefixes, suffixes, search\<close>

definition HasPrefix :: "string \<Rightarrow> string \<Rightarrow> bool" where
  "HasPrefix s p \<longleftrightarrow> take (length p) s = p"

definition HasSuffix :: "string \<Rightarrow> string \<Rightarrow> bool" where
  "HasSuffix s p \<longleftrightarrow> length p \<le> length s \<and> drop (length s - length p) s = p"

definition TrimSuffix :: "string \<Rightarrow> string \<Rightarrow> string" where
  "TrimSuffix s p = (if HasSuffix s p then take (length s - length p) s else s)"

definition TrimPrefix :: "string \<Rightarrow> string \<Rightarrow> string" where
  "TrimPrefix s p = (if HasPrefix s p then drop (length p) s else s)"

fun str_index :: "string \<Rightarrow> string \<Rightarrow> nat option" where
  "str_index [] p = (if p = [] then Some 0 else None)"
| "str_index (c # s) p = (if HasPrefix (c # s) p then Some 0 else map_option Suc (str_index s p))"

definition str_contains :: "string \<Rightarrow> string \<Rightarrow> bool" where
  "str_contains s p \<longleftrightarrow> str_index s p \<noteq> None"

definition ContainsAny :: "string \<Rightarrow> string \<Rightarrow> bool" where
  "ContainsAny s chars \<longleftrightarrow> list_ex (\<lambda>c. c \<in> set chars) s"

fun index_byte :: "char \<Rightarrow> string \<Rightarrow> nat option" where
  "index_byte b [] = None"
| "index_byte b (c # s) = (if c = b then Some 0 else map_option Suc (index_byte b s))"

fun last_index_byte :: "char \<Rightarrow> string \<Rightarrow> nat option" where
  "last_index_byte b [] = None"
| "last_index_byte b (c # s) =
     (case last_index_byte b s of Some i \<Rightarrow> Some (Suc i)
      | None \<Rightarrow> if c = b then Some 0 else None)"

fun split_on :: "char \<Rightarrow> string \<Rightarrow> string list" where
  "split_on b [] = [[]]"
| "split_on b (c # s) =
     (if c = b then [] # split_on b s
      else (case split_on b s of [] \<Rightarrow> [[c]] | p # ps \<Rightarrow> (c # p) # ps))"

definition trim_right :: "(char \<Rightarrow> bool) \<Rightarrow> string \<Rightarrow> string" where
  "trim_right P s = rev (dropWhile P (rev s))"

definition trim_both :: "(char \<Rightarrow> bool) \<Rightarrow> string \<Rightarrow> string" where
  "trim_both P s = trim_right P (dropWhile P s)"

lemma HasPrefix_iff: "HasPrefix s p \<longleftrightarrow> (\<exists>t. s = p @ t)"
  unfolding HasPrefix_def by (metis append_eq_conv_conj append_take_drop_id)

lemma HasSuffix_iff: "HasSuffix s p \<longleftrightarrow> (\<exists>t. s = t @ p)"
proof
  assume "HasSuffix s p"
  then have "s = take (length s - length p) s @ p"
    unfolding HasSuffix_def by (metis append_take_drop_id)
  then show "\<exists>t. s = t @ p" by blast
qed (auto simp: HasSuffix_def)

lemma HasPrefix_append [simp]: "HasPrefix (p @ t) p"
  by (auto simp: HasPrefix_iff)

lemma HasSuffix_append [simp]: "HasSuffix (t @ p) p"
  by (auto simp: HasSuffix_iff)

lemma TrimSuffix_append [simp]: "TrimSuffix (t @ p) p = t"
  by (simp add: TrimSuffix_def)

lemma HasPrefix_Nil [simp]: "HasPrefix s []"
  by (simp add: HasPrefix_def)

lemma HasPrefix_Cons: "HasPrefix (c # s) (d # p) \<longleftrightarrow> c = d \<and> HasPrefix s p"
  by (auto simp: HasPrefix_def)

lemma HasPrefix_Nil_Cons [simp]: "\<not> HasPrefix [] (d # p)"
  by (simp add: HasPrefix_def)

lemma str_index_Some:
  "str_index s p = Some i \<Longrightarrow> i + length p \<le> length s \<and> s = take i s @ p @ drop (i + length p) s"
proof (induction s arbitrary: i)
  case Nil
  then show ?case by (simp split: if_splits)
next
  case (Cons c s)
  show ?case
  proof (cases "HasPrefix (c # s) p")
    case True
    with Cons.prems have "i = 0" by simp
    moreover from True obtain t where "c # s = p @ t" by (auto simp: HasPrefix_iff)
    ultimately show ?thesis by simp
  next
    case False
    with Cons.prems obtain j where j: "str_index s p = Some j" "i = Suc j" by auto
    with Cons.IH show ?thesis by fastforce
  qed
qed

lemma str_index_append:
  "\<exists>i \<le> length u. str_index (u @ p @ v) p = Some i"
proof (induction u)
  case Nil
  show ?case
  proof (cases "p @ v")
    case Nil
    then show ?thesis by simp
  next
    case (Cons c s)
    then have "HasPrefix (c # s) p" by (metis HasPrefix_append)
    with Cons show ?thesis by simp
  qed
next
  case (Cons c u)
  then show ?case by auto
qed

lemma str_contains_iff: "str_contains s p \<longleftrightarrow> (\<exists>u v. s = u @ p @ v)"
proof
  assume "str_contains s p"
  then obtain i where "str_index s p = Some i" by (auto simp: str_contains_def)
  then show "\<exists>u v. s = u @ p @ v" using str_index_Some by blast
next
  assume "\<exists>u v. s = u @ p @ v"
  then obtain u v where "s = u @ p @ v" by blast
  with str_index_append [of u p v] show "str_contains s p" by (auto simp: str_contains_def)
qed

lemma str_contains_byte [simp]: "str_contains s [c] \<longleftrightarrow> c \<in> set s"
  by (auto simp: str_contains_iff dest: split_list)

lemma index_byte_None_iff: "index_byte b s = None \<longleftrightarrow> b \<notin> set s"
  by (induction s) auto

lemma index_byte_append: "b \<notin> set s \<Longrightarrow> index_byte b (s @ b # t) = Some (length s)"
  by (induction s) auto

lemma last_index_byte_None_iff: "last_index_byte b s = None \<longleftrightarrow> b \<notin> set s"
  by (induction s) (auto split: option.splits)

lemma last_index_byte_append: "b \<notin> set t \<Longrightarrow> last_index_byte b (s @ b # t) = Some (length s)"
proof (induction s)
  case Nil
  then have "last_index_byte b t = None" by (simp add: last_index_byte_None_iff)
  then show ?case by simp
qed simp

lemma split_on_Nil_iff [simp]: "split_on b s \<noteq> []"
  by (induction s) (auto split: list.splits)

lemma split_on_no_sep: "b \<notin> set s \<Longrightarrow> split_on b s = [s]"
  by (induction s) auto

lemma split_on_append: "b \<notin> set s \<Longrightarrow> split_on b (s @ b # t) = s # split_on b t"
  by (induction s) auto

lemma split_on_parts: "p \<in> set (split_on b s) \<Longrightarrow> b \<notin> set p"
  by (induction s arbitrary: p) (auto split: list.splits if_splits)

lemma trim_right_last:
  "trim_right P s \<noteq> [] \<Longrightarrow> \<not> P (last (trim_right P s))"
  unfolding trim_right_def
  by (metis hd_dropWhile last_rev rev_is_Nil_conv)

lemma trim_right_prefix: "\<exists>t. s = trim_right P s @ t \<and> (\<forall>c \<in> set t. P c)"
proof -
  have "s = rev (dropWhile P (rev s)) @ rev (takeWhile P (rev s))"
    by (metis rev_append rev_rev_ident takeWhile_dropWhile_id)
  moreover have "\<forall>c \<in> set (rev (takeWhile P (rev s))). P c"
    by (auto dest: set_takeWhileD)
  ultimately show ?thesis unfolding trim_right_def by blast
qed

section \<open>UTF-8\<close>

definition cont_byte :: "nat \<Rightarrow> bool" where
  "cont_byte b \<longleftrightarrow> 128 \<le> b \<and> b \<le> 191"

text \<open>\<open>utf8.DecodeRuneInString\<close> of a non-empty string: the rune and its width in bytes.\<close>

definition decode_rune :: "string \<Rightarrow> nat \<times> nat" where
  "decode_rune s =
     (case map byte_of (take 4 s) of
        [] \<Rightarrow> (65533, 0)
      | b0 # rest \<Rightarrow>
          if b0 < 128 then (b0, 1)
          else if 194 \<le> b0 \<and> b0 \<le> 223 then
            (case rest of b1 # _ \<Rightarrow> if cont_byte b1 then ((b0 - 192) * 64 + (b1 - 128), 2) else (65533, 1)
             | [] \<Rightarrow> (65533, 1))
          else if 224 \<le> b0 \<and> b0 \<le> 239 then
            (case rest of b1 # b2 # _ \<Rightarrow>
               if (if b0 = 224 then 160 else 128) \<le> b1 \<and> b1 \<le> (if b0 = 237 then 159 else 191) \<and> cont_byte b2
               then ((b0 - 224) * 4096 + (b1 - 128) * 64 + (b2 - 128), 3) else (65533, 1)
             | _ \<Rightarrow> (65533, 1))
          else if 240 \<le> b0 \<and> b0 \<le> 244 then
            (case rest of b1 # b2 # b3 # _ \<Rightarrow>
               if (if b0 = 240 then 144 else 128) \<le> b1 \<and> b1 \<le> (if b0 = 244 then 143 else 191)
                  \<and> cont_byte b2 \<and> cont_byte b3
               then ((b0 - 240) * 262144 + (b1 - 128) * 4096 + (b2 - 128) * 64 + (b3 - 128), 4)
               else (65533, 1)
             | _ \<Rightarrow> (65533, 1))
          else (65533, 1))"

lemma decode_rune_width: "s \<noteq> [] \<Longrightarrow> 0 < snd (decode_rune s)"
  by (cases s) (auto simp: decode_rune_def split: list.splits)

text \<open>The string cut into its runes, each with the bytes it was read from.\<close>

function rune_chunks :: "string \<Rightarrow> (nat \<times> string) list" where
  "rune_chunks s = (if s = [] then []
     else (fst (decode_rune s), take (snd (decode_rune s)) s) # rune_chunks (drop (snd (decode_rune s)) s))"
  by pat_completeness auto
termination
  by (relation "measure length") (auto simp: decode_rune_width)

declare rune_chunks.simps [simp del]

definition runes :: "string \<Rightarrow> nat list" where
  "runes s = map fst (rune_chunks s)"

definition ascii :: "string \<Rightarrow> bool" where
  "ascii s \<longleftrightarrow> list_all (\<lambda>c. byte_of c < 128) s"

lemma rune_chunks_ne:
  "s \<noteq> [] \<Longrightarrow> rune_chunks s = (fst (decode_rune s), take (snd (decode_rune s)) s)
     # rune_chunks (drop (snd (decode_rune s)) s)"
  by (subst rune_chunks.simps) simp

lemma rune_chunks_concat: "concat (map snd (rune_chunks s)) = s"
  by (induction s rule: rune_chunks.induct) (subst rune_chunks.simps, simp)

lemma rune_chunks_ascii: "ascii s \<Longrightarrow> rune_chunks s = map (\<lambda>c. (byte_of c, [c])) s"
proof (induction s)
  case Nil
  then show ?case by (simp add: rune_chunks.simps)
next
  case (Cons c s)
  then have "decode_rune (c # s) = (byte_of c, 1)"
    by (simp add: decode_rune_def ascii_def)
  with Cons show ?case by (simp add: rune_chunks.simps [of "c # s"] ascii_def)
qed

lemma runes_ascii: "ascii s \<Longrightarrow> runes s = map byte_of s"
  by (simp add: runes_def rune_chunks_ascii o_def)

text \<open>A byte below 128 is always a rune of its own.\<close>

lemma decode_rune_high:
  assumes "128 \<le> byte_of a"
  shows "\<forall>c \<in> set (take (snd (decode_rune (a # t))) (a # t)). 128 \<le> byte_of c"
proof -
  have one: "\<forall>c \<in> set (take 1 (a # t)). 128 \<le> byte_of c" using assms by simp
  have cont: "cont_byte b \<Longrightarrow> 128 \<le> b" for b by (simp add: cont_byte_def)
  consider "t = []" | b where "t = [b]" | b d where "t = [b, d]" | b d e u where "t = b # d # e # u"
    by (cases t; cases "tl t"; cases "tl (tl t)") auto
  then show ?thesis
    by cases (use assms one in \<open>auto simp: decode_rune_def cont split: if_split_asm\<close>)
qed

lemma decode_rune_low_byte:
  assumes "c \<in> set (take (snd (decode_rune s)) s)" and "byte_of c < 128"
  shows "fst (decode_rune s) = byte_of c"
proof (cases s)
  case (Cons a t)
  show ?thesis
  proof (cases "byte_of a < 128")
    case True
    then have "decode_rune s = (byte_of a, 1)" by (simp add: Cons decode_rune_def)
    with assms(1) Cons show ?thesis by simp
  next
    case False
    with decode_rune_high [of a t] assms Cons show ?thesis by force
  qed
qed (use assms in simp)

lemma rune_chunk_low_byte:
  "(r, bs) \<in> set (rune_chunks s) \<Longrightarrow> c \<in> set bs \<Longrightarrow> byte_of c < 128 \<Longrightarrow> r = byte_of c"
proof (induction s rule: rune_chunks.induct)
  case (1 s)
  show ?case
  proof (cases "s = []")
    case True
    with "1.prems"(1) show ?thesis by (simp add: rune_chunks.simps)
  next
    case False
    then have "rune_chunks s = (fst (decode_rune s), take (snd (decode_rune s)) s)
        # rune_chunks (drop (snd (decode_rune s)) s)"
      by (intro rune_chunks_ne) auto
    with "1.prems"(1) consider "r = fst (decode_rune s)" "bs = take (snd (decode_rune s)) s"
      | "(r, bs) \<in> set (rune_chunks (drop (snd (decode_rune s)) s))"
      by auto
    then show ?thesis
    proof cases
      case 1
      with "1.prems"(2,3) show ?thesis by (blast intro: decode_rune_low_byte)
    next
      case 2
      with "1.IH" [OF False] "1.prems"(2,3) show ?thesis by blast
    qed
  qed
qed

text \<open>A rune below 128 is read from its own byte only.\<close>

lemma decode_rune_value_high: "128 \<le> byte_of a \<Longrightarrow> 128 \<le> fst (decode_rune (a # t))"
proof -
  assume a: "128 \<le> byte_of a"
  have two: "128 \<le> (b - 192) * 64 + d" if "194 \<le> b" for b d :: nat
    using that by (simp add: trans_le_add1)
  have three: "128 \<le> (b - 224) * 4096 + (d - 128) * 64 + e"
    if "224 \<le> b" "(if b = 224 then 160 else 128) \<le> d" for b d e :: nat
    using that by (cases "b = 224") auto
  have four: "128 \<le> (b - 240) * 262144 + (d - 128) * 4096 + e * 64 + f"
    if "240 \<le> b" "(if b = 240 then 144 else 128) \<le> d" for b d e f :: nat
    using that by (cases "b = 240") auto
  consider "t = []" | b where "t = [b]" | b d where "t = [b, d]" | b d e u where "t = b # d # e # u"
    by (cases t; cases "tl t"; cases "tl (tl t)") auto
  then show ?thesis
    by cases (simp_all add: a decode_rune_def two three four)
qed

lemma rune_chunk_high:
  "(r, bs) \<in> set (rune_chunks s) \<Longrightarrow> c \<in> set bs \<Longrightarrow> r < 128 \<Longrightarrow> byte_of c < 128"
proof (induction s rule: rune_chunks.induct)
  case (1 s)
  show ?case
  proof (cases s)
    case Nil
    with "1.prems"(1) show ?thesis by (simp add: rune_chunks.simps)
  next
    case (Cons a t)
    then have "rune_chunks s = (fst (decode_rune s), take (snd (decode_rune s)) s)
        # rune_chunks (drop (snd (decode_rune s)) s)"
      by (intro rune_chunks_ne) auto
    with "1.prems"(1) consider "r = fst (decode_rune s)" "bs = take (snd (decode_rune s)) s"
      | "(r, bs) \<in> set (rune_chunks (drop (snd (decode_rune s)) s))"
      by auto
    then show ?thesis
    proof cases
      case 1
      with "1.prems"(3) Cons have "byte_of a < 128"
        using decode_rune_value_high [of a t] by force
      moreover from this have "decode_rune s = (byte_of a, 1)" by (simp add: Cons decode_rune_def)
      ultimately show ?thesis using 1 "1.prems"(2) Cons by simp
    next
      case 2
      with "1.IH" Cons "1.prems"(2,3) show ?thesis by blast
    qed
  qed
qed

lemma rune_chunk_of_byte: "c \<in> set s \<Longrightarrow> \<exists>r bs. (r, bs) \<in> set (rune_chunks s) \<and> c \<in> set bs"
  using rune_chunks_concat [of s] by (metis (no_types, lifting) UN_E list.set_map imageE prod.collapse set_concat)

lemma runes_low_byte: "c \<in> set s \<Longrightarrow> byte_of c < 128 \<Longrightarrow> byte_of c \<in> set (runes s)"
proof -
  assume c: "c \<in> set s" "byte_of c < 128"
  then obtain r bs where rb: "(r, bs) \<in> set (rune_chunks s)" "c \<in> set bs"
    using rune_chunk_of_byte by blast
  with c have "r = byte_of c" by (blast dest: rune_chunk_low_byte)
  with rb show ?thesis by (force simp: runes_def)
qed

text \<open>\<open>unicode.IsControl\<close> and \<open>unicode.IsSpace\<close>.\<close>

definition rune_is_control :: "nat \<Rightarrow> bool" where
  "rune_is_control r \<longleftrightarrow> r < 32 \<or> (127 \<le> r \<and> r \<le> 159)"

definition rune_is_space :: "nat \<Rightarrow> bool" where
  "rune_is_space r \<longleftrightarrow> (9 \<le> r \<and> r \<le> 13) \<or> r \<in> {32, 133, 160, 5760, 8232, 8233, 8239, 8287, 12288}
     \<or> (8192 \<le> r \<and> r \<le> 8202)"

definition TrimSpace :: "string \<Rightarrow> string" where
  "TrimSpace s = (let cs = dropWhile (\<lambda>c. rune_is_space (fst c)) (rune_chunks s)
     in concat (map snd (rev (dropWhile (\<lambda>c. rune_is_space (fst c)) (rev cs)))))"

lemma dropWhile_ends:
  "x \<in> set xs \<Longrightarrow> x \<in> set (rev (dropWhile P (rev (dropWhile P xs)))) \<or> P x"
proof -
  have d: "x \<in> set ys \<Longrightarrow> x \<in> set (dropWhile P ys) \<or> P x" for ys
    by (induction ys) auto
  assume "x \<in> set xs"
  with d [of xs] d [of "rev (dropWhile P xs)"] show ?thesis by auto
qed

lemma TrimSpace_low_byte:
  assumes "c \<in> set s" and "byte_of c < 128" and "\<not> rune_is_space (byte_of c)"
  shows "c \<in> set (TrimSpace s)"
proof -
  obtain r bs where rb: "(r, bs) \<in> set (rune_chunks s)" "c \<in> set bs"
    using rune_chunk_of_byte [OF assms(1)] by blast
  with assms have "\<not> rune_is_space r" by (metis rune_chunk_low_byte)
  with dropWhile_ends [OF rb(1), of "\<lambda>c. rune_is_space (fst c)"] rb(2) show ?thesis
    by (force simp: TrimSpace_def Let_def)
qed

text \<open>
  \<open>unicode.ToLower\<close> as far as the code observes it: it only ever compares the result
  with ASCII, and the two runes outside ASCII whose lower case is an ASCII letter are
  U+0130 and U+212A. Any other rune from U+0080 on stays outside ASCII.
\<close>

definition to_lower_rune :: "nat \<Rightarrow> nat" where
  "to_lower_rune r =
     (if 65 \<le> r \<and> r \<le> 90 then r + 32 else if r = 304 then 105 else if r = 8490 then 107 else r)"

definition lower_runes :: "string \<Rightarrow> nat list" where
  "lower_runes s = map to_lower_rune (runes s)"

section \<open>Decimal numbers\<close>

fun show_nat :: "nat \<Rightarrow> string" where
  "show_nat n = (if n < 10 then [char_of (48 + n)] else show_nat (n div 10) @ [char_of (48 + n mod 10)])"

declare show_nat.simps [simp del]

definition itoa :: "int \<Rightarrow> string" where
  "itoa i = (if i < 0 then CHR ''-'' # show_nat (nat (- i)) else show_nat (nat i))"

definition read_nat :: "string \<Rightarrow> nat" where
  "read_nat s = foldl (\<lambda>a c. a * 10 + (byte_of c - 48)) 0 s"

text \<open>\<open>strconv.Atoi\<close>: an optional sign, decimal digits, the range of a 64-bit int.\<close>

definition atoi :: "string \<Rightarrow> int option" where
  "atoi s =
     (let neg = (case s of c # _ \<Rightarrow> c = CHR ''-'' | [] \<Rightarrow> False);
          ds = (case s of c # t \<Rightarrow> if c = CHR ''-'' \<or> c = CHR ''+'' then t else s | [] \<Rightarrow> []);
          v = (if neg then - int (read_nat ds) else int (read_nat ds))
      in if ds = [] \<or> \<not> list_all is_digit ds then None
         else if v < - (2 ^ 63) \<or> v > 2 ^ 63 - 1 then None else Some v)"

lemma is_digit_digit: "(d::nat) < 10 \<Longrightarrow> is_digit (char_of (48 + d))"
  by (simp add: is_digit_def)

lemma show_nat_digits: "list_all is_digit (show_nat n) \<and> show_nat n \<noteq> []"
  by (induction n rule: show_nat.induct) (subst (1 2) show_nat.simps, simp add: is_digit_digit)

lemma read_nat_snoc: "read_nat (s @ [c]) = read_nat s * 10 + (byte_of c - 48)"
  by (simp add: read_nat_def)

lemma read_show_nat [simp]: "read_nat (show_nat n) = n"
proof (induction n rule: show_nat.induct)
  case (1 n)
  show ?case
  proof (cases "n < 10")
    case True
    then show ?thesis by (simp add: show_nat.simps [of n] read_nat_def)
  next
    case False
    with "1" show ?thesis by (simp add: show_nat.simps [of n] read_nat_snoc)
  qed
qed

lemma show_nat_inject: "show_nat m = show_nat n \<longleftrightarrow> m = n"
  by (metis read_show_nat)

lemma show_nat_set: "c \<in> set (show_nat n) \<Longrightarrow> is_digit c"
  using show_nat_digits [of n] by (simp add: list_all_iff)

lemma show_nat_Cons: "show_nat n = c # t \<Longrightarrow> is_digit c"
  using show_nat_set [of c n] by simp

lemma atoi_itoa:
  assumes "- (2 ^ 63) \<le> i" and "i \<le> 2 ^ 63 - 1"
  shows "atoi (itoa i) = Some i"
proof (cases "i < 0")
  case True
  with assms show ?thesis
    by (simp add: itoa_def atoi_def Let_def show_nat_digits)
next
  case False
  obtain c t where ct: "show_nat (nat i) = c # t"
    using show_nat_digits [of "nat i"] by (cases "show_nat (nat i)") auto
  then have "c \<noteq> CHR ''-''" "c \<noteq> CHR ''+''"
    using show_nat_Cons [OF ct] by (auto simp: is_digit_def)
  moreover have "read_nat (c # t) = nat i" "list_all is_digit (c # t)"
    using ct read_show_nat show_nat_digits by metis+
  ultimately show ?thesis
    using False assms ct by (simp add: itoa_def atoi_def Let_def)
qed

lemma itoa_no_byte: "\<not> is_digit c \<Longrightarrow> c \<noteq> CHR ''-'' \<Longrightarrow> c \<notin> set (itoa i)"
  by (auto simp: itoa_def dest: show_nat_set)

section \<open>\<open>net.SplitHostPort\<close> and \<open>net.JoinHostPort\<close>\<close>

text \<open>\<open>None\<close> is the error result; the code never looks at which error it was.\<close>

definition SplitHostPort :: "string \<Rightarrow> (string \<times> string) option" where
  "SplitHostPort hp =
     (case last_index_byte (CHR '':'') hp of
        None \<Rightarrow> None
      | Some i \<Rightarrow>
          if HasPrefix hp ''['' then
            (case index_byte (CHR '']'') hp of
               None \<Rightarrow> None
             | Some e \<Rightarrow>
                 if e + 1 \<noteq> i then None
                 else if CHR ''['' \<in> set (drop 1 hp) \<or> CHR '']'' \<in> set (drop (e + 1) hp) then None
                 else Some (take (e - 1) (drop 1 hp), drop (i + 1) hp))
          else if CHR '':'' \<in> set (take i hp) then None
          else if CHR ''['' \<in> set hp \<or> CHR '']'' \<in> set hp then None
          else Some (take i hp, drop (i + 1) hp))"

definition JoinHostPort :: "string \<Rightarrow> string \<Rightarrow> string" where
  "JoinHostPort host port =
     (if CHR '':'' \<in> set host then ''['' @ host @ '']:'' @ port else host @ '':'' @ port)"

lemma SplitHostPort_no_colon: "CHR '':'' \<notin> set s \<Longrightarrow> SplitHostPort s = None"
  by (simp add: SplitHostPort_def last_index_byte_None_iff [symmetric])

end
