(* ===== verification/Base64.thy ===== *)
theory Base64
  imports GoStrings
begin

text \<open>
  \<open>base64.StdEncoding\<close>: the encoder, and the decoder as Go runs it (carriage returns and
  line feeds skipped, padding required, nothing after the padding, unused low bits of the
  last quantum not checked).
\<close>

definition b64_alphabet :: string where
  "b64_alphabet = ''ABCDEFGHIJKLMNOPQRSTUVWXYZabcdefghijklmnopqrstuvwxyz0123456789+/''"

definition b64_char :: "nat \<Rightarrow> char" where
  "b64_char i = (if i < 26 then char_of (65 + i) else if i < 52 then char_of (71 + i)
     else if i < 62 then char_of (i - 4) else if i = 62 then CHR ''+'' else CHR ''/'')"

definition b64_val :: "char \<Rightarrow> nat option" where
  "b64_val c = (if is_upper c then Some (byte_of c - 65) else if is_lower c then Some (byte_of c - 71)
     else if is_digit c then Some (byte_of c + 4) else if c = CHR ''+'' then Some 62
     else if c = CHR ''/'' then Some 63 else None)"

fun b64_quanta :: "nat list \<Rightarrow> string" where
  "b64_quanta [] = []"
| "b64_quanta [a] = [b64_char (a div 4), b64_char ((a mod 4) * 16), CHR ''='', CHR ''='']"
| "b64_quanta [a, b] = [b64_char (a div 4), b64_char ((a mod 4) * 16 + b div 16),
     b64_char ((b mod 16) * 4), CHR ''='']"
| "b64_quanta (a # b # c # r) = b64_char (a div 4) # b64_char ((a mod 4) * 16 + b div 16)
     # b64_char ((b mod 16) * 4 + c div 64) # b64_char (c mod 64) # b64_quanta r"

definition b64_encode :: "string \<Rightarrow> string" where
  "b64_encode s = b64_quanta (map byte_of s)"

fun b64_dequanta :: "string \<Rightarrow> nat list option" where
  "b64_dequanta [] = Some []"
| "b64_dequanta (c1 # c2 # c3 # c4 # r) =
     (case (b64_val c1, b64_val c2) of
        (Some v1, Some v2) \<Rightarrow>
          (case b64_val c3 of
             Some v3 \<Rightarrow>
               (case b64_val c4 of
                  Some v4 \<Rightarrow> map_option (\<lambda>bs. (v1 * 4 + v2 div 16) # ((v2 mod 16) * 16 + v3 div 4)
                    # ((v3 mod 4) * 64 + v4) # bs) (b64_dequanta r)
                | None \<Rightarrow> if c4 = CHR ''='' \<and> r = []
                    then Some [v1 * 4 + v2 div 16, (v2 mod 16) * 16 + v3 div 4] else None)
           | None \<Rightarrow> if c3 = CHR ''='' \<and> c4 = CHR ''='' \<and> r = []
               then Some [v1 * 4 + v2 div 16] else None)
      | _ \<Rightarrow> None)"
| "b64_dequanta _ = None"

definition b64_decode :: "string \<Rightarrow> string option" where
  "b64_decode s = map_option (map char_of)
     (b64_dequanta (filter (\<lambda>c. byte_of c \<noteq> 13 \<and> byte_of c \<noteq> 10) s))"

lemma b64_char_alphabet: "i < 64 \<Longrightarrow> b64_char i = b64_alphabet ! i"
proof -
  assume "i < 64"
  then have "i \<in> set [0..<64]" by simp
  moreover have "list_all (\<lambda>i. b64_char i = b64_alphabet ! i) [0..<64]" by code_simp
  ultimately show ?thesis unfolding list_all_iff by blast
qed

lemma b64_val_char [simp]: "i < 64 \<Longrightarrow> b64_val (b64_char i) = Some i"
  by (auto simp: b64_val_def b64_char_def char_class_defs)

lemma b64_char_newline:
  "i < 64 \<Longrightarrow> byte_of (b64_char i) \<noteq> 13 \<and> byte_of (b64_char i) \<noteq> 10"
  by (auto simp: b64_char_def)

lemma b64_val_eq [simp]: "b64_val (CHR ''='') = None"
  by code_simp

lemma split16: "(b::nat) < 256 \<Longrightarrow> b div 16 mod 16 * 16 + b mod 16 = b"
  by (simp add: less_mult_imp_div_less)

lemma div16_16: "(b::nat) < 256 \<Longrightarrow> b div 16 div 16 = 0"
  by (simp add: div_mult2_eq [symmetric])

lemma div64_4: "(b::nat) < 256 \<Longrightarrow> b div 64 div 4 = 0"
  by (simp add: div_mult2_eq [symmetric])

lemma mod64: "(c::nat) < 256 \<Longrightarrow> c div 64 mod 4 * 64 + c mod 64 = c"
  by (simp add: less_mult_imp_div_less)

lemma b64_dequanta_quanta:
  "list_all (\<lambda>b. b < 256) bs \<Longrightarrow> b64_dequanta (b64_quanta bs) = Some bs"
proof (induction bs rule: b64_quanta.induct)
  case (2 a)
  then have "a div 4 < 64" "(a mod 4) * 16 < 64" by auto
  then show ?case by simp
next
  case (3 a b)
  then have "a div 4 < 64" "(a mod 4) * 16 + b div 16 < 64" "(b mod 16) * 4 < 64" by auto
  moreover have "((a mod 4) * 16 + b div 16) mod 16 * 16 + (b mod 16) * 4 div 4 = b"
    using 3 split16 [of b] by simp
  moreover have "(a div 4) * 4 + ((a mod 4) * 16 + b div 16) div 16 = a" using 3 by (simp add: div16_16)
  ultimately show ?case by simp
next
  case (4 a b c r)
  then have "a div 4 < 64" "(a mod 4) * 16 + b div 16 < 64" "(b mod 16) * 4 + c div 64 < 64"
    "c mod 64 < 64" by auto
  moreover have "((a mod 4) * 16 + b div 16) mod 16 * 16 + ((b mod 16) * 4 + c div 64) div 4 = b"
    using 4 split16 [of b] by (simp add: div64_4)
  moreover have "(a div 4) * 4 + ((a mod 4) * 16 + b div 16) div 16 = a" using 4 by (simp add: div16_16)
  moreover have "((b mod 16) * 4 + c div 64) mod 4 * 64 + c mod 64 = c" using 4 mod64 [of c] by simp
  ultimately show ?case using 4 by simp
qed simp

lemma b64_quanta_no_newline:
  "list_all (\<lambda>b. b < 256) bs \<Longrightarrow> \<forall>c \<in> set (b64_quanta bs). byte_of c \<noteq> 13 \<and> byte_of c \<noteq> 10"
proof (induction bs rule: b64_quanta.induct)
  case (2 a)
  then have "a div 4 < 64" "(a mod 4) * 16 < 64" by auto
  then show ?case by (simp add: b64_char_newline)
next
  case (3 a b)
  then have "a div 4 < 64" "(a mod 4) * 16 + b div 16 < 64" "(b mod 16) * 4 < 64" by auto
  then show ?case by (simp add: b64_char_newline)
next
  case (4 a b c r)
  then have "a div 4 < 64" "(a mod 4) * 16 + b div 16 < 64" "(b mod 16) * 4 + c div 64 < 64"
    "c mod 64 < 64" by auto
  with 4 show ?case by (simp add: b64_char_newline)
qed simp

lemma b64_decode_encode [simp]: "b64_decode (b64_encode s) = Some s"
proof -
  have lt: "list_all (\<lambda>b. b < 256) (map byte_of s)" by (simp add: list_all_iff)
  have "filter (\<lambda>c. byte_of c \<noteq> 13 \<and> byte_of c \<noteq> 10) (b64_quanta (map byte_of s)) = b64_quanta (map byte_of s)"
    using b64_quanta_no_newline [OF lt] by (simp add: filter_id_conv)
  with b64_dequanta_quanta [OF lt] show ?thesis
    by (simp add: b64_decode_def b64_encode_def o_def)
qed

lemma b64_char_plain: "i < 64 \<Longrightarrow> 33 \<le> byte_of (b64_char i) \<and> byte_of (b64_char i) \<le> 122"
  by (auto simp: b64_char_def)

lemma b64_quanta_plain:
  "list_all (\<lambda>b. b < 256) bs \<Longrightarrow> list_all (\<lambda>c. 33 \<le> byte_of c \<and> byte_of c \<le> 122) (b64_quanta bs)"
proof (induction bs rule: b64_quanta.induct)
  case (2 a)
  then have "a div 4 < 64" "(a mod 4) * 16 < 64" by auto
  then show ?case by (simp add: b64_char_plain)
next
  case (3 a b)
  then have "a div 4 < 64" "(a mod 4) * 16 + b div 16 < 64" "(b mod 16) * 4 < 64" by auto
  then show ?case by (simp add: b64_char_plain)
next
  case (4 a b c r)
  then have "a div 4 < 64" "(a mod 4) * 16 + b div 16 < 64" "(b mod 16) * 4 + c div 64 < 64"
    "c mod 64 < 64" by auto
  with 4 show ?case by (simp add: b64_char_plain)
qed simp

lemma b64_encode_plain: "list_all (\<lambda>c. 33 \<le> byte_of c \<and> byte_of c \<le> 122) (b64_encode s)"
  unfolding b64_encode_def by (rule b64_quanta_plain) (simp add: list_all_iff)

end
