(* ===== verification/Services.thy ===== *)
theory Services
  imports Base64
begin

text \<open>
  The data model of \<open>internal/broker/broker.go\<close>: services, auth configurations and
  substitutions, their validation, the credential keys they reference and the resolution
  of an auth configuration into HTTP headers.
\<close>

section \<open>Types\<close>

record auth =
  auth_type :: string
  auth_token :: string
  auth_username :: string
  auth_password :: string
  auth_key :: string
  auth_header :: string
  auth_prefix :: string
  auth_headers :: "(string, string) go_map"

record substitution =
  sub_key :: string
  sub_placeholder :: string
  sub_in :: "string list"

record service =
  svc_name :: string
  svc_host :: string
  svc_path :: string
  svc_port :: "int option"
  svc_enabled :: "bool option"
  svc_auth :: auth
  svc_substitutions :: "substitution list"
  svc_fixed_query :: "(string, string) go_map option"

text \<open>The simplest service, for the examples: it allowlists a host and injects nothing.\<close>

definition no_auth :: auth where
  "no_auth = \<lparr>auth_type = ''passthrough'', auth_token = [], auth_username = [], auth_password = [],
     auth_key = [], auth_header = [], auth_prefix = [], auth_headers = []\<rparr>"

definition plain_service :: "string \<Rightarrow> string \<Rightarrow> service" where
  "plain_service name host = \<lparr>svc_name = name, svc_host = host, svc_path = [], svc_port = None,
     svc_enabled = None, svc_auth = no_auth, svc_substitutions = [], svc_fixed_query = None\<rparr>"

text \<open>One constructor per message of \<open>Auth.Validate\<close>.\<close>

datatype auth_error =
    TypeRequired
  | FieldRequired string string
  | UnexpectedField string string "string list"
  | BadCredentialKey string string
  | BadHeaderName string
  | BadHeaderKey string string
  | UnsupportedType string

datatype sub_error =
    SubKeyRequired
  | SubKey auth_error
  | PlaceholderRequired
  | PlaceholderTooShort string
  | PlaceholderChar string char
  | PlaceholderNoAlnum string
  | PlaceholderNoDelimiter string
  | PlaceholderDuplicate string nat
  | BadSurface string
  | DuplicateSurface string

definition IsEnabled :: "service \<Rightarrow> bool" where
  "IsEnabled s \<longleftrightarrow> (case svc_enabled s of None \<Rightarrow> True | Some b \<Rightarrow> b)"

definition MatcherPattern :: "service \<Rightarrow> string" where
  "MatcherPattern s =
     (let host = (case svc_port s of Some p \<Rightarrow> JoinHostPort (svc_host s) (itoa p) | None \<Rightarrow> svc_host s)
      in if svc_path s = [] then host else host @ svc_path s)"

definition SupportedAuthTypes :: "string list" where
  "SupportedAuthTypes = [''bearer'', ''basic'', ''api-key'', ''custom'', ''passthrough'']"

definition SubstitutionSurfaces :: "string list" where
  "SubstitutionSurfaces = [''path'', ''query'', ''header'', ''body'', ''websocket'']"

definition DefaultSubstitutionSurfaces :: "string list" where
  "DefaultSubstitutionSurfaces = [''path'', ''query'']"

section \<open>Credential keys and references\<close>

text \<open>The regular expression \<open>^[A-Z][A-Z0-9_]*$\<close>.\<close>

definition CredentialKeyPattern :: "string \<Rightarrow> bool" where
  "CredentialKeyPattern k \<longleftrightarrow>
     (case k of [] \<Rightarrow> False
      | c # t \<Rightarrow> is_upper c \<and> list_all (\<lambda>d. is_upper d \<or> is_digit d \<or> d = CHR ''_'') t)"

definition re_space :: "char \<Rightarrow> bool" where
  "re_space c \<longleftrightarrow> byte_of c \<in> {9, 10, 12, 13, 32}"

definition re_word :: "char \<Rightarrow> bool" where
  "re_word c \<longleftrightarrow> is_alnum c \<or> c = CHR ''_''"

text \<open>
  The regular expression \<open>\{\{\s*(\w+)\s*\}\}\<close> anchored at the start of the string:
  its capture and the text after the match. Blanks, word characters and braces are
  disjoint, so the greedy scan is the only possible match.
\<close>

definition ref_at :: "string \<Rightarrow> (string \<times> string) option" where
  "ref_at s =
     (if HasPrefix s ''{{'' then
        (let t = dropWhile re_space (drop 2 s); k = takeWhile re_word t;
             u = dropWhile re_space (dropWhile re_word t)
         in if k \<noteq> [] \<and> HasPrefix u ''}}'' then Some (k, drop 2 u) else None)
      else None)"

lemma ref_at_shorter: "ref_at s = Some (k, r) \<Longrightarrow> length r < length s"
proof -
  assume "ref_at s = Some (k, r)"
  then have p: "HasPrefix s ''{{''"
    and r: "r = drop 2 (dropWhile re_space (dropWhile re_word (dropWhile re_space (drop 2 s))))"
    by (auto simp: ref_at_def Let_def split: if_splits)
  have "length (dropWhile re_space (dropWhile re_word (dropWhile re_space (drop 2 s)))) \<le> length (drop 2 s)"
    by (meson length_dropWhile_le le_trans)
  then have "length r \<le> length s - 2" unfolding r by simp
  moreover from p have "2 \<le> length s" by (auto simp: HasPrefix_iff)
  ultimately show ?thesis by simp
qed

text \<open>A template value cut into literal bytes (\<open>Inl\<close>) and references (\<open>Inr\<close>), leftmost first.\<close>

function cred_segments :: "string \<Rightarrow> (char + string) list" where
  "cred_segments s =
     (case s of [] \<Rightarrow> []
      | c # t \<Rightarrow> (case ref_at s of Some (k, r) \<Rightarrow> Inr k # cred_segments r
                  | None \<Rightarrow> Inl c # cred_segments t))"
  by pat_completeness auto
termination
  by (relation "measure length") (auto dest: ref_at_shorter)

declare cred_segments.simps [simp del]

text \<open>\<open>CredentialRef.FindAllStringSubmatch(v, -1)\<close>: the captured names in order.\<close>

definition ref_keys :: "string \<Rightarrow> string list" where
  "ref_keys v = [k. Inr k \<leftarrow> cred_segments v]"

section \<open>\<open>Auth.Validate\<close>\<close>

definition validateCredentialKey :: "string \<Rightarrow> string \<Rightarrow> auth_error go_error" where
  "validateCredentialKey field key =
     (if \<not> CredentialKeyPattern key then Some (BadCredentialKey field key) else None)"

definition auth_field_checks :: "auth \<Rightarrow> (string \<times> bool) list" where
  "auth_field_checks a =
     [(''token'', auth_token a \<noteq> []), (''username'', auth_username a \<noteq> []),
      (''password'', auth_password a \<noteq> []), (''key'', auth_key a \<noteq> []),
      (''header'', auth_header a \<noteq> []), (''prefix'', auth_prefix a \<noteq> []),
      (''headers'', auth_headers a \<noteq> [])]"

definition checkUnexpectedFields :: "auth \<Rightarrow> string \<Rightarrow> string list \<Rightarrow> auth_error go_error" where
  "checkUnexpectedFields a authType allowed =
     (case filter (\<lambda>(n, set). set \<and> n \<notin> List.set allowed) (auth_field_checks a) of
        [] \<Rightarrow> None | (n, _) # _ \<Rightarrow> Some (UnexpectedField n authType allowed))"

text \<open>The header-name pattern \<open>^[a-zA-Z0-9-]+$\<close>.\<close>

definition headerNamePattern :: "string \<Rightarrow> bool" where
  "headerNamePattern n \<longleftrightarrow> n \<noteq> [] \<and> list_all (\<lambda>c. is_alnum c \<or> c = CHR ''-'') n"

fun validateHeaders :: "(string, string) go_map \<Rightarrow> auth_error go_error" where
  "validateHeaders [] = None"
| "validateHeaders ((name, val) # hs) =
     (if \<not> headerNamePattern name then Some (BadHeaderName name)
      else (case filter (\<lambda>k. \<not> CredentialKeyPattern k) (ref_keys val) of
              k # _ \<Rightarrow> Some (BadHeaderKey k name)
            | [] \<Rightarrow> validateHeaders hs))"

definition auth_Validate :: "auth \<Rightarrow> auth_error go_error" where
  "auth_Validate a =
     (if auth_type a = [] then Some TypeRequired
      else if auth_type a = ''bearer'' then
        (if auth_token a = [] then Some (FieldRequired ''token'' ''bearer'')
         else guard_err (checkUnexpectedFields a ''bearer'' [''token'']) id
                (validateCredentialKey ''token'' (auth_token a)))
      else if auth_type a = ''basic'' then
        (if auth_username a = [] then Some (FieldRequired ''username'' ''basic'')
         else guard_err (checkUnexpectedFields a ''basic'' [''username'', ''password'']) id
               (guard_err (validateCredentialKey ''username'' (auth_username a)) id
                 (if auth_password a \<noteq> [] then validateCredentialKey ''password'' (auth_password a)
                  else None)))
      else if auth_type a = ''api-key'' then
        (if auth_key a = [] then Some (FieldRequired ''key'' ''api-key'')
         else guard_err (checkUnexpectedFields a ''api-key'' [''key'', ''header'', ''prefix'']) id
                (validateCredentialKey ''key'' (auth_key a)))
      else if auth_type a = ''custom'' then
        (if auth_headers a = [] then Some (FieldRequired ''headers'' ''custom'')
         else guard_err (checkUnexpectedFields a ''custom'' [''headers'']) id
                (validateHeaders (auth_headers a)))
      else if auth_type a = ''passthrough'' then checkUnexpectedFields a ''passthrough'' []
      else Some (UnsupportedType (auth_type a)))"

section \<open>Credential keys of an auth configuration and of a service\<close>

text \<open>Appending the names not seen yet: the \<open>seen\<close> map of the loops is the list itself.\<close>

fun add_new :: "string list \<Rightarrow> string list \<Rightarrow> string list" where
  "add_new keys [] = keys"
| "add_new keys (k # ks) = (if k \<in> set keys then add_new keys ks else add_new (keys @ [k]) ks)"

definition credentialKeysFromHeaders :: "(string, string) go_map \<Rightarrow> string list" where
  "credentialKeysFromHeaders hs = foldl (\<lambda>keys h. add_new keys (ref_keys (snd h))) [] hs"

definition auth_CredentialKeys :: "auth \<Rightarrow> string list" where
  "auth_CredentialKeys a =
     (if auth_type a = ''bearer'' then [auth_token a]
      else if auth_type a = ''basic'' then
        [auth_username a] @ (if auth_password a \<noteq> [] then [auth_password a] else [])
      else if auth_type a = ''api-key'' then [auth_key a]
      else if auth_type a = ''custom'' then credentialKeysFromHeaders (auth_headers a)
      else [])"

definition svc_CredentialKeys :: "service \<Rightarrow> string list" where
  "svc_CredentialKeys s =
     (if svc_substitutions s = [] then auth_CredentialKeys (svc_auth s)
      else add_new (add_new [] (auth_CredentialKeys (svc_auth s))) (map sub_key (svc_substitutions s)))"

section \<open>\<open>Auth.Resolve\<close>\<close>

datatype 'e resolve_error = CredErr 'e | UnsupportedAuth string

fun render_segments :: "(string \<Rightarrow> 'e + string) \<Rightarrow> (char + string) list \<Rightarrow> 'e + string" where
  "render_segments g [] = Inr []"
| "render_segments g (Inl c # segs) =
     (case render_segments g segs of Inl e \<Rightarrow> Inl e | Inr out \<Rightarrow> Inr (c # out))"
| "render_segments g (Inr k # segs) =
     (case g k of Inl e \<Rightarrow> Inl e
      | Inr v \<Rightarrow> (case render_segments g segs of Inl e \<Rightarrow> Inl e | Inr out \<Rightarrow> Inr (v @ out)))"

fun resolveHeaders :: "(string, string) go_map \<Rightarrow> (string \<Rightarrow> 'e + string) \<Rightarrow> 'e + (string, string) go_map" where
  "resolveHeaders [] g = Inr []"
| "resolveHeaders ((k, v) # hs) g =
     (case render_segments g (cred_segments v) of Inl e \<Rightarrow> Inl e
      | Inr out \<Rightarrow> (case resolveHeaders hs g of Inl e \<Rightarrow> Inl e | Inr m \<Rightarrow> Inr ((k, out) # m)))"

definition auth_Resolve :: "auth \<Rightarrow> (string \<Rightarrow> 'e + string) \<Rightarrow> 'e resolve_error + (string, string) go_map" where
  "auth_Resolve a g =
     (if auth_type a = ''bearer'' then
        (case g (auth_token a) of Inl e \<Rightarrow> Inl (CredErr e)
         | Inr val \<Rightarrow> Inr [(''Authorization'', ''Bearer '' @ val)])
      else if auth_type a = ''basic'' then
        (case g (auth_username a) of Inl e \<Rightarrow> Inl (CredErr e)
         | Inr user \<Rightarrow>
             (case (if auth_password a \<noteq> [] then g (auth_password a) else Inr []) of
                Inl e \<Rightarrow> Inl (CredErr e)
              | Inr pass \<Rightarrow> Inr [(''Authorization'', ''Basic '' @ b64_encode (user @ '':'' @ pass))]))
      else if auth_type a = ''api-key'' then
        (case g (auth_key a) of Inl e \<Rightarrow> Inl (CredErr e)
         | Inr val \<Rightarrow> Inr [(if auth_header a = [] then ''Authorization'' else auth_header a,
                             auth_prefix a @ val)])
      else if auth_type a = ''custom'' then
        (case resolveHeaders (auth_headers a) g of Inl e \<Rightarrow> Inl (CredErr e) | Inr m \<Rightarrow> Inr m)
      else if auth_type a = ''passthrough'' then Inr []
      else Inl (UnsupportedAuth (auth_type a)))"

section \<open>Substitutions\<close>

definition placeholderWordChar :: "char \<Rightarrow> bool" where
  "placeholderWordChar c \<longleftrightarrow> is_alnum c \<or> c = CHR ''_''"

definition placeholderCharAllowed :: "char \<Rightarrow> bool" where
  "placeholderCharAllowed c \<longleftrightarrow>
     placeholderWordChar c \<or> c = CHR ''-'' \<or> c = CHR ''.'' \<or> c = CHR ''~''"

text \<open>The scan of \<open>validatePlaceholder\<close>, with its two flags.\<close>

fun placeholder_scan :: "string \<Rightarrow> string \<Rightarrow> bool \<Rightarrow> bool \<Rightarrow> sub_error go_error" where
  "placeholder_scan p [] hasBoundary hasAlnum =
     (if \<not> hasAlnum then Some (PlaceholderNoAlnum p)
      else if \<not> hasBoundary then Some (PlaceholderNoDelimiter p) else None)"
| "placeholder_scan p (c # rest) hasBoundary hasAlnum =
     (if \<not> placeholderCharAllowed c then Some (PlaceholderChar p c)
      else placeholder_scan p rest
             (hasBoundary \<or> \<not> placeholderWordChar c \<or> (c = CHR ''_'' \<and> HasPrefix rest ''_''))
             (hasAlnum \<or> is_alnum c))"

definition validatePlaceholder :: "string \<Rightarrow> sub_error go_error" where
  "validatePlaceholder p =
     (if p = [] then Some PlaceholderRequired
      else if length p < 4 then Some (PlaceholderTooShort p)
      else placeholder_scan p p False False)"

fun surfaces_loop :: "string list \<Rightarrow> string list \<Rightarrow> sub_error go_error" where
  "surfaces_loop seen [] = None"
| "surfaces_loop seen (s # ss) =
     (if s \<notin> set SubstitutionSurfaces then Some (BadSurface s)
      else if s \<in> set seen then Some (DuplicateSurface s)
      else surfaces_loop (s # seen) ss)"

definition validateSubstitutionSurfaces :: "string list \<Rightarrow> sub_error go_error" where
  "validateSubstitutionSurfaces ins = surfaces_loop [] ins"

definition NormalizedIn :: "substitution \<Rightarrow> string list" where
  "NormalizedIn s = (if sub_in s = [] then DefaultSubstitutionSurfaces else sub_in s)"

text \<open>The loop of \<open>ValidateSubstitutions\<close>; \<open>seen\<close> maps a placeholder to its index.\<close>

fun subs_loop :: "nat \<Rightarrow> (string, nat) go_map \<Rightarrow> substitution list \<Rightarrow> (nat \<times> sub_error) go_error" where
  "subs_loop i seen [] = None"
| "subs_loop i seen (s # ss) =
     (if sub_key s = [] then Some (i, SubKeyRequired)
      else guard_err (validateCredentialKey ''key'' (sub_key s)) (\<lambda>e. (i, SubKey e))
       (guard_err (validatePlaceholder (sub_placeholder s)) (Pair i)
         (case map_of seen (sub_placeholder s) of
            Some prev \<Rightarrow> Some (i, PlaceholderDuplicate (sub_placeholder s) prev)
          | None \<Rightarrow>
              guard_err (validateSubstitutionSurfaces (sub_in s)) (Pair i)
                (subs_loop (Suc i) ((sub_placeholder s, i) # seen) ss))))"

definition ValidateSubstitutions :: "substitution list \<Rightarrow> (nat \<times> sub_error) go_error" where
  "ValidateSubstitutions subs = subs_loop 0 [] subs"

section \<open>Lemmas\<close>

lemma set_add_new [simp]: "set (add_new keys ks) = set keys \<union> set ks"
  by (induction keys ks rule: add_new.induct) auto

lemma distinct_add_new: "distinct keys \<Longrightarrow> distinct (add_new keys ks)"
  by (induction keys ks rule: add_new.induct) auto

lemma set_foldl_add_new:
  "set (foldl (\<lambda>keys h. add_new keys (f h)) acc hs) = set acc \<union> (\<Union>h \<in> set hs. set (f h))"
  by (induction hs arbitrary: acc) auto

lemma set_credentialKeysFromHeaders:
  "set (credentialKeysFromHeaders hs) = (\<Union>h \<in> set hs. set (ref_keys (snd h)))"
  by (simp add: credentialKeysFromHeaders_def set_foldl_add_new)

lemma set_svc_CredentialKeys:
  "set (svc_CredentialKeys s) = set (auth_CredentialKeys (svc_auth s)) \<union> sub_key ` set (svc_substitutions s)"
  by (auto simp: svc_CredentialKeys_def)

lemma ref_keys_Inr: "Inr k \<in> set (cred_segments v) \<Longrightarrow> k \<in> set (ref_keys v)"
  by (force simp: ref_keys_def)

lemma render_segments_cong:
  "(\<And>k. Inr k \<in> set segs \<Longrightarrow> g k = g' k) \<Longrightarrow> render_segments g segs = render_segments g' segs"
  by (induction g segs rule: render_segments.induct) (auto split: sum.splits)

lemma render_segments_total:
  "(\<And>k. Inr k \<in> set segs \<Longrightarrow> \<exists>v. g k = Inr v) \<Longrightarrow> \<exists>out. render_segments g segs = Inr out"
  by (induction g segs rule: render_segments.induct) (fastforce split: sum.splits)+

lemma resolveHeaders_cong:
  "(\<And>k. k \<in> set (credentialKeysFromHeaders hs) \<Longrightarrow> g k = g' k) \<Longrightarrow> resolveHeaders hs g = resolveHeaders hs g'"
proof (induction hs g rule: resolveHeaders.induct)
  case (2 k v hs g)
  then have "render_segments g (cred_segments v) = render_segments g' (cred_segments v)"
    by (intro render_segments_cong) (auto simp: set_credentialKeysFromHeaders dest: ref_keys_Inr)
  with 2 show ?case by (auto simp: set_credentialKeysFromHeaders split: sum.splits)
qed simp

lemma resolveHeaders_total:
  "(\<And>k. k \<in> set (credentialKeysFromHeaders hs) \<Longrightarrow> \<exists>v. g k = Inr v) \<Longrightarrow> \<exists>m. resolveHeaders hs g = Inr m"
proof (induction hs g rule: resolveHeaders.induct)
  case (2 k v hs g)
  then have "\<And>k'. Inr k' \<in> set (cred_segments v) \<Longrightarrow> \<exists>u. g k' = Inr u"
    by (auto simp: set_credentialKeysFromHeaders dest: ref_keys_Inr)
  then obtain out where out: "render_segments g (cred_segments v) = Inr out"
    using render_segments_total by metis
  from 2 out obtain m where "resolveHeaders hs g = Inr m"
    by (auto simp: set_credentialKeysFromHeaders)
  with out show ?case by simp
qed simp

lemma auth_Validate_types: "auth_Validate a = None \<Longrightarrow> auth_type a \<in> set SupportedAuthTypes"
  by (auto simp: auth_Validate_def SupportedAuthTypes_def split: if_splits)

lemma auth_Resolve_cong:
  "(\<And>k. k \<in> set (auth_CredentialKeys a) \<Longrightarrow> g k = g' k) \<Longrightarrow> auth_Resolve a g = auth_Resolve a g'"
  using resolveHeaders_cong [of "auth_headers a" g g']
  by (auto simp: auth_Resolve_def auth_CredentialKeys_def split: sum.splits if_splits)

lemma auth_Resolve_total:
  assumes "auth_Validate a = None" and "\<And>k. k \<in> set (auth_CredentialKeys a) \<Longrightarrow> \<exists>v. g k = Inr v"
  shows "\<exists>h. auth_Resolve a g = Inr h"
proof -
  from assms(1) consider "auth_type a = ''bearer''" | "auth_type a = ''basic''"
    | "auth_type a = ''api-key''" | "auth_type a = ''custom''" | "auth_type a = ''passthrough''"
    using auth_Validate_types [OF assms(1)] by (auto simp: SupportedAuthTypes_def)
  then show ?thesis
  proof cases
    case 2
    with assms(2) obtain u where "g (auth_username a) = Inr u" by (auto simp: auth_CredentialKeys_def)
    moreover have "\<exists>p. (if auth_password a \<noteq> [] then g (auth_password a) else Inr []) = Inr p"
      using 2 assms(2) by (auto simp: auth_CredentialKeys_def)
    ultimately show ?thesis using 2 by (auto simp: auth_Resolve_def)
  next
    case 4
    with assms(2) resolveHeaders_total [of "auth_headers a" g] show ?thesis
      by (auto simp: auth_Resolve_def auth_CredentialKeys_def)
  qed (use assms(2) in \<open>auto simp: auth_Resolve_def auth_CredentialKeys_def\<close>)
qed

text \<open>A configuration that validates names only upper-snake-case credentials.\<close>

lemma validateHeaders_keys:
  "validateHeaders hs = None \<Longrightarrow> h \<in> set hs \<Longrightarrow> k \<in> set (ref_keys (snd h)) \<Longrightarrow> CredentialKeyPattern k"
proof (induction hs rule: validateHeaders.induct)
  case (2 name val hs)
  then have "filter (\<lambda>k. \<not> CredentialKeyPattern k) (ref_keys val) = []" and "validateHeaders hs = None"
    by (auto split: if_splits list.splits)
  with 2 show ?case by (auto simp: filter_empty_conv split: if_splits)
qed simp

lemma auth_Validate_keys:
  assumes "auth_Validate a = None" and "k \<in> set (auth_CredentialKeys a)"
  shows "CredentialKeyPattern k"
  using assms
  by (auto simp: auth_Validate_def auth_CredentialKeys_def validateCredentialKey_def
      set_credentialKeysFromHeaders split: if_splits dest: validateHeaders_keys)

lemma subs_loop_ok:
  assumes "subs_loop i seen subs = None" and "s \<in> set subs"
  shows "CredentialKeyPattern (sub_key s) \<and> validatePlaceholder (sub_placeholder s) = None
    \<and> validateSubstitutionSurfaces (sub_in s) = None"
  using assms
  by (induction i seen subs rule: subs_loop.induct)
     (auto simp: validateCredentialKey_def split: if_splits option.splits)

lemma surfaces_loop_ok:
  "surfaces_loop seen ins = None \<Longrightarrow> set ins \<subseteq> set SubstitutionSurfaces \<and> distinct ins \<and> set ins \<inter> set seen = {}"
  by (induction seen ins rule: surfaces_loop.induct) (auto split: if_splits)

lemma subs_loop_distinct:
  "subs_loop i seen subs = None \<Longrightarrow>
     distinct (map sub_placeholder subs) \<and> fst ` set seen \<inter> sub_placeholder ` set subs = {}"
proof (induction i seen subs rule: subs_loop.induct)
  case (2 i seen s ss)
  then have n: "map_of seen (sub_placeholder s) = None"
    and r: "subs_loop (Suc i) ((sub_placeholder s, i) # seen) ss = None"
    by (auto split: if_splits option.splits)
  from 2 n r have "distinct (map sub_placeholder ss)
      \<and> fst ` set ((sub_placeholder s, i) # seen) \<inter> sub_placeholder ` set ss = {}"
    by (auto split: if_splits)
  with n show ?case by (auto simp: map_of_eq_None_iff)
qed simp

lemma placeholder_scan_ok:
  "placeholder_scan p s b n = None \<Longrightarrow> list_all placeholderCharAllowed s"
  by (induction p s b n rule: placeholder_scan.induct) (auto split: if_splits)

lemma placeholder_scan_alnum:
  "placeholder_scan p s b n = None \<Longrightarrow> n \<or> list_ex is_alnum s"
  by (induction p s b n rule: placeholder_scan.induct) (auto split: if_splits)

section \<open>Properties\<close>

text \<open>
  \<open>Auth.Resolve\<close> reads no credential but those \<open>CredentialKeys\<close> lists: two lookup
  functions that agree on these keys give the same headers. And a configuration that
  validates resolves whenever every listed key can be read.
\<close>

theorem auth_resolve_confined:
  "(\<And>k. k \<in> set (auth_CredentialKeys a) \<Longrightarrow> g k = g' k) \<Longrightarrow>
     auth_Resolve a g = auth_Resolve a g'
     \<and> (auth_Validate a = None \<longrightarrow> (\<forall>k \<in> set (auth_CredentialKeys a). \<exists>v. g k = Inr v)
           \<longrightarrow> (\<exists>h. auth_Resolve a g = Inr h))"
  using auth_Resolve_cong [of a g g'] auth_Resolve_total [of a g] by blast

definition custom_auth :: auth where
  "custom_auth = no_auth\<lparr>auth_type := ''custom'', auth_headers := [(''X-Key'', ''k {{ API_KEY }}!'')]\<rparr>"

theorem auth_resolve_confined_witness:
  "auth_Resolve custom_auth (\<lambda>k. if k = ''API_KEY'' then Inr ''s3cret'' else Inl ())
     = auth_Resolve custom_auth (\<lambda>k. Inr ''s3cret'')
   \<and> auth_Resolve custom_auth (\<lambda>k. if k = ''API_KEY'' then Inr ''s3cret'' else Inl ())
     = Inr [(''X-Key'', ''k s3cret!'')]"
proof -
  have keys: "auth_CredentialKeys custom_auth = [''API_KEY'']" by code_simp
  have "auth_Resolve custom_auth (\<lambda>k. if k = ''API_KEY'' then Inr ''s3cret'' else Inl ()) = Inr [(''X-Key'', ''k s3cret!'')]"
    by code_simp
  moreover have "auth_Resolve custom_auth (\<lambda>k. if k = ''API_KEY'' then Inr ''s3cret'' else Inl ())
     = auth_Resolve custom_auth (\<lambda>k. Inr ''s3cret'')"
    by (rule auth_resolve_confined [THEN conjunct1]) (simp add: keys)
  ultimately show ?thesis by simp
qed

end
