(* ===== verification/IPAddr.thy ===== *)
theory IPAddr
  imports GoStrings "HOL-Library.Word"
begin

text \<open>
  IP addresses as Go's \<open>net\<close> and \<open>net/netip\<close> packages read them: \<open>ParseAddr\<close> without a
  zone, \<open>net.ParseIP\<close>, \<open>net.ParseCIDR\<close> and \<open>IPNet.Contains\<close>. An address is a word of
  its family's width; \<open>IPNet.Contains\<close> first unmaps an IPv4-mapped IPv6 address and then
  compares only networks of the same family.
\<close>

unbundle bit_operations_syntax

datatype ip = V4 "32 word" | V6 "128 word"

section \<open>Parsing\<close>

definition octet_ok :: "string \<Rightarrow> bool" where
  "octet_ok f \<longleftrightarrow> f \<noteq> [] \<and> list_all is_digit f \<and> length f \<le> 3
     \<and> (length f > 1 \<longrightarrow> hd f \<noteq> CHR ''0'') \<and> read_nat f \<le> 255"

definition parseIPv4 :: "string \<Rightarrow> (32 word) option" where
  "parseIPv4 s =
     (case split_on (CHR ''.'') s of
        [a, b, c, d] \<Rightarrow>
          if octet_ok a \<and> octet_ok b \<and> octet_ok c \<and> octet_ok d
          then Some (((word_of_nat (read_nat a) * 256 + word_of_nat (read_nat b)) * 256
                      + word_of_nat (read_nat c)) * 256 + word_of_nat (read_nat d))
          else None
      | _ \<Rightarrow> None)"

definition hex_val :: "char \<Rightarrow> nat option" where
  "hex_val c = (if is_digit c then Some (byte_of c - 48)
     else if 97 \<le> byte_of c \<and> byte_of c \<le> 102 then Some (byte_of c - 87)
     else if 65 \<le> byte_of c \<and> byte_of c \<le> 70 then Some (byte_of c - 55) else None)"

definition is_hex :: "char \<Rightarrow> bool" where
  "is_hex c \<longleftrightarrow> hex_val c \<noteq> None"

definition read_hex :: "string \<Rightarrow> 16 word" where
  "read_hex s = foldl (\<lambda>a c. a * 16 + word_of_nat (the (hex_val c))) 0 s"

text \<open>
  The loop of \<open>parseIPv6\<close>: the 16-bit groups read so far, the position of the ellipsis if
  one was seen, and the rest of the text.
\<close>

function v6_loop :: "16 word list \<Rightarrow> nat option \<Rightarrow> string \<Rightarrow> (16 word list \<times> nat option) option" where
  "v6_loop acc ell s =
     (if 8 \<le> length acc then (if s = [] then Some (acc, ell) else None)
      else
        (let g = takeWhile is_hex s; rest = dropWhile is_hex s in
         if g = [] \<or> length g > 4 then None
         else if HasPrefix rest ''.'' then
           (if ell = None \<and> length acc \<noteq> 6 then None
            else if length acc + 2 > 8 then None
            else (case parseIPv4 s of
                    Some w \<Rightarrow> Some (acc @ [ucast (drop_bit 16 w), ucast w], ell)
                  | None \<Rightarrow> None))
         else
           (let acc' = acc @ [read_hex g] in
            case rest of
              [] \<Rightarrow> Some (acc', ell)
            | c # r \<Rightarrow>
                if c \<noteq> CHR '':'' \<or> r = [] then None
                else if HasPrefix r '':'' then
                  (if ell \<noteq> None then None
                   else if tl r = [] then Some (acc', Some (length acc'))
                   else v6_loop acc' (Some (length acc')) (tl r))
                else v6_loop acc' ell r)))"
  by pat_completeness auto
termination
proof (relation "measure (\<lambda>(acc, ell, s). length s)", goal_cases)
  case 1
  then show ?case by simp
next
  case (2 acc ell s g rest acc' c r)
  then have "length (c # r) \<le> length s" by (metis length_dropWhile_le)
  with 2 show ?case by (cases r) auto
next
  case (3 acc ell s g rest acc' c r)
  then have "length (c # r) \<le> length s" by (metis length_dropWhile_le)
  then show ?case by auto
qed

declare v6_loop.simps [simp del]

definition v6_finish :: "16 word list \<times> nat option \<Rightarrow> (16 word list) option" where
  "v6_finish r = (case r of (acc, ell) \<Rightarrow>
     if length acc < 8 then
       (case ell of None \<Rightarrow> None
        | Some e \<Rightarrow> Some (take e acc @ replicate (8 - length acc) 0 @ drop e acc))
     else if ell \<noteq> None then None else Some acc)"

definition groups_word :: "16 word list \<Rightarrow> 128 word" where
  "groups_word gs = foldl (\<lambda>a g. a * 65536 + ucast g) 0 gs"

definition parseIPv6 :: "string \<Rightarrow> (128 word) option" where
  "parseIPv6 s =
     (let start = (if HasPrefix s ''::'' then (if drop 2 s = [] then Some ([], Some 0) else v6_loop [] (Some 0) (drop 2 s))
                   else v6_loop [] None s)
      in map_option groups_word (Option.bind start v6_finish))"

text \<open>\<open>netip.ParseAddr\<close> with a zone refused: the first of \<open>.\<close>, \<open>:\<close>, \<open>%\<close> decides the family.\<close>

definition ParseAddr :: "string \<Rightarrow> ip option" where
  "ParseAddr s =
     (case dropWhile (\<lambda>c. c \<noteq> CHR ''.'' \<and> c \<noteq> CHR '':'' \<and> c \<noteq> CHR ''%'') s of
        [] \<Rightarrow> None
      | c # _ \<Rightarrow> if c = CHR ''.'' then map_option V4 (parseIPv4 s)
                 else if c = CHR '':'' then
                   (if CHR ''%'' \<in> set s then None else map_option V6 (parseIPv6 s))
                 else None)"

text \<open>
  \<open>net.ParseIP\<close> has 16-byte results in which an IPv4 address and its mapped form coincide,
  and \<open>To4\<close> recognises both: \<open>unmap\<close>.
\<close>

definition unmap :: "ip \<Rightarrow> ip" where
  "unmap a = (case a of V4 w \<Rightarrow> V4 w
     | V6 w \<Rightarrow> if drop_bit 32 w = 0xFFFF then V4 (ucast w) else V6 w)"

definition ParseIP :: "string \<Rightarrow> ip option" where
  "ParseIP s = map_option unmap (ParseAddr s)"

section \<open>Networks\<close>

datatype ipnet = Net4 "32 word" nat | Net6 "128 word" nat

definition mask_len :: "nat \<Rightarrow> nat \<Rightarrow> 'a::len word" where
  "mask_len width n = NOT (mask (width - n))"

definition mkNet :: "ip \<Rightarrow> nat \<Rightarrow> ipnet" where
  "mkNet a n = (case a of V4 w \<Rightarrow> Net4 (w AND mask_len 32 n) n | V6 w \<Rightarrow> Net6 (w AND mask_len 128 n) n)"

text \<open>
  \<open>net.ParseCIDR\<close>: address, slash, prefix length in the family's range. Unlike
  \<open>ParseIP\<close> the family is the one written, so a mapped address keeps its IPv6 network.
  The prefix length is read by \<open>dtoi\<close>: digits only, to the end.
\<close>

definition ParseCIDR :: "string \<Rightarrow> ipnet option" where
  "ParseCIDR s =
     (case index_byte (CHR ''/'') s of
        None \<Rightarrow> None
      | Some i \<Rightarrow>
          (let m = drop (i + 1) s in
           case ParseAddr (take i s) of
             None \<Rightarrow> None
           | Some a \<Rightarrow>
               if m = [] \<or> \<not> list_all is_digit m then None
               else if read_nat m > (case a of V4 _ \<Rightarrow> 32 | V6 _ \<Rightarrow> 128) then None
               else Some (mkNet a (read_nat m))))"

text \<open>
  \<open>networkNumberAndMask\<close>: a network whose number is an IPv4-mapped address is used as the
  IPv4 network of its last 32 bits.
\<close>

definition net_norm :: "ipnet \<Rightarrow> ipnet" where
  "net_norm n = (case n of Net4 p l \<Rightarrow> Net4 p l
     | Net6 p l \<Rightarrow> (case unmap (V6 p) of V4 q \<Rightarrow> Net4 q (l - 96) | V6 _ \<Rightarrow> Net6 p l))"

definition net_contains :: "ipnet \<Rightarrow> ip \<Rightarrow> bool" where
  "net_contains n a = (case (net_norm n, unmap a) of
       (Net4 p l, V4 w) \<Rightarrow> w AND mask_len 32 l = p AND mask_len 32 l
     | (Net6 p l, V6 w) \<Rightarrow> w AND mask_len 128 l = p AND mask_len 128 l
     | _ \<Rightarrow> False)"

lemma unmap_idem [simp]: "unmap (unmap a) = unmap a"
  by (auto simp: unmap_def split: ip.splits)

lemma net_contains_unmap [simp]: "net_contains n (unmap a) = net_contains n a"
  by (simp add: net_contains_def)

section \<open>Text form\<close>

text \<open>
  \<open>IP.String\<close>: dotted decimal, or lower-case hexadecimal groups with the first longest run of
  at least two zero groups written as \<open>::\<close>.
\<close>

definition hex_digit :: "nat \<Rightarrow> char" where
  "hex_digit n = (if n < 10 then char_of (48 + n) else char_of (87 + n))"

definition show_hex :: "nat \<Rightarrow> string" where
  "show_hex n =
     (if n < 16 then [hex_digit n]
      else if n < 256 then [hex_digit (n div 16), hex_digit (n mod 16)]
      else if n < 4096 then [hex_digit (n div 256), hex_digit (n div 16 mod 16), hex_digit (n mod 16)]
      else [hex_digit (n div 4096 mod 16), hex_digit (n div 256 mod 16), hex_digit (n div 16 mod 16), hex_digit (n mod 16)])"

definition word_groups :: "128 word \<Rightarrow> nat list" where
  "word_groups w = map (\<lambda>i. unat (drop_bit (16 * i) w) mod 65536) (rev [0..<8])"

definition zero_run :: "nat list \<Rightarrow> nat" where
  "zero_run gs = length (takeWhile (\<lambda>g. g = 0) gs)"

text \<open>The start and length of the first longest run of zeros, at least two groups long.\<close>

fun best_run :: "nat \<Rightarrow> nat \<times> nat \<Rightarrow> nat list \<Rightarrow> nat \<times> nat" where
  "best_run i best [] = best"
| "best_run i best (g # gs) = best_run (Suc i) (if zero_run (g # gs) > snd best then (i, zero_run (g # gs)) else best) gs"

definition join_colon :: "nat list \<Rightarrow> string" where
  "join_colon gs = (case gs of [] \<Rightarrow> [] | h # t \<Rightarrow> show_hex h @ concat (map (\<lambda>g. CHR '':'' # show_hex g) t))"

definition ip_string :: "ip \<Rightarrow> string" where
  "ip_string a = (case a of
       V4 w \<Rightarrow> show_nat (unat (drop_bit 24 w)) @ ''.'' @ show_nat (unat (drop_bit 16 w) mod 256) @ ''.''
             @ show_nat (unat (drop_bit 8 w) mod 256) @ ''.'' @ show_nat (unat w mod 256)
     | V6 w \<Rightarrow>
         (let gs = word_groups w; (st, n) = best_run 0 (0, 1) gs
          in if n \<ge> 2 then join_colon (take st gs) @ ''::'' @ join_colon (drop (st + n) gs) else join_colon gs))"

end
