(* ===== verification/Matching.thy ===== *)
theory Matching
  imports Services IPAddr
begin

text \<open>
  Service matching of \<open>internal/broker/broker.go\<close>: host patterns, path globs, the score of
  a match and \<open>MatchService\<close>, together with the validation and splitting of hosts, paths
  and ports that establishes what the matcher relies on.
\<close>

section \<open>Choosing the best candidate\<close>

text \<open>
  A scan that keeps the first candidate no later one beats. The locale states what the
  comparison must satisfy (a strict weak order) for the scan to return a maximal
  candidate, the earliest among its equals.
\<close>

fun scan_best :: "('s \<Rightarrow> 's \<Rightarrow> bool) \<Rightarrow> 's option \<Rightarrow> 's list \<Rightarrow> 's option" where
  "scan_best better best [] = best"
| "scan_best better best (x # xs) =
     scan_best better (case best of None \<Rightarrow> Some x | Some b \<Rightarrow> if better x b then Some x else Some b) xs"

locale preference =
  fixes better :: "'s \<Rightarrow> 's \<Rightarrow> bool"
  assumes better_irrefl: "\<not> better x x"
    and better_trans: "better x y \<Longrightarrow> better y z \<Longrightarrow> better x z"
    and better_neg_trans: "better x z \<Longrightarrow> better x y \<or> better y z"
begin

lemma better_asym: "better x y \<Longrightarrow> \<not> better y x"
  using better_irrefl better_trans by blast

lemma scan_best_Some_start: "\<exists>r. scan_best better (Some b) xs = Some r"
  by (induction xs arbitrary: b) auto

lemma scan_best_None_iff: "scan_best better None xs = None \<longleftrightarrow> xs = []"
  by (cases xs) (auto, metis option.distinct(1) scan_best_Some_start)

lemma scan_best_from:
  "scan_best better (Some b) xs = Some r \<Longrightarrow>
     (r = b \<and> (\<forall>y \<in> set xs. \<not> better y b)) \<or>
     (better r b \<and> (\<exists>us vs. xs = us @ r # vs \<and> (\<forall>y \<in> set us. better r y) \<and> (\<forall>y \<in> set vs. \<not> better y r)))"
proof (induction xs arbitrary: b)
  case Nil
  then show ?case by simp
next
  case (Cons x xs)
  show ?case
  proof (cases "better x b")
    case True
    with Cons.prems have "scan_best better (Some x) xs = Some r" by simp
    from Cons.IH [OF this] show ?thesis
    proof (elim disjE)
      assume "r = x \<and> (\<forall>y \<in> set xs. \<not> better y x)"
      with True have "better r b \<and> x # xs = [] @ r # xs \<and> (\<forall>y \<in> set []. better r y) \<and> (\<forall>y \<in> set xs. \<not> better y r)"
        by simp
      then show ?thesis by blast
    next
      assume "better r x \<and> (\<exists>us vs. xs = us @ r # vs \<and> (\<forall>y \<in> set us. better r y) \<and> (\<forall>y \<in> set vs. \<not> better y r))"
      then obtain us vs where *: "better r x" "xs = us @ r # vs" "\<forall>y \<in> set us. better r y" "\<forall>y \<in> set vs. \<not> better y r"
        by blast
      from * True have "better r b" using better_trans by blast
      moreover from * have "x # xs = (x # us) @ r # vs \<and> (\<forall>y \<in> set (x # us). better r y)" by simp
      ultimately show ?thesis using * by blast
    qed
  next
    case False
    with Cons.prems have "scan_best better (Some b) xs = Some r" by simp
    from Cons.IH [OF this] show ?thesis
    proof (elim disjE)
      assume "better r b \<and> (\<exists>us vs. xs = us @ r # vs \<and> (\<forall>y \<in> set us. better r y) \<and> (\<forall>y \<in> set vs. \<not> better y r))"
      then obtain us vs where *: "better r b" "xs = us @ r # vs" "\<forall>y \<in> set us. better r y" "\<forall>y \<in> set vs. \<not> better y r"
        by blast
      from * False have "better r x" using better_neg_trans by blast
      with * have "x # xs = (x # us) @ r # vs \<and> (\<forall>y \<in> set (x # us). better r y)" by simp
      with * show ?thesis by blast
    qed (use False in auto)
  qed
qed

lemma scan_best_first_max:
  assumes "scan_best better None xs = Some r"
  shows "\<exists>us vs. xs = us @ r # vs \<and> (\<forall>y \<in> set us. better r y) \<and> (\<forall>y \<in> set vs. \<not> better y r)"
proof (cases xs)
  case Nil
  with assms show ?thesis by simp
next
  case (Cons x ys)
  with assms have "scan_best better (Some x) ys = Some r" by simp
  from scan_best_from [OF this] show ?thesis
  proof (elim disjE)
    assume "r = x \<and> (\<forall>y \<in> set ys. \<not> better y x)"
    with Cons have "xs = [] @ r # ys \<and> (\<forall>y \<in> set ys. \<not> better y r)" by simp
    then show ?thesis by fastforce
  next
    assume "better r x \<and> (\<exists>us vs. ys = us @ r # vs \<and> (\<forall>y \<in> set us. better r y) \<and> (\<forall>y \<in> set vs. \<not> better y r))"
    then obtain us vs where *: "better r x" "ys = us @ r # vs" "\<forall>y \<in> set us. better r y" "\<forall>y \<in> set vs. \<not> better y r"
      by blast
    with Cons have "xs = (x # us) @ r # vs \<and> (\<forall>y \<in> set (x # us). better r y)" by simp
    with * show ?thesis by blast
  qed
qed

end

section \<open>Host patterns\<close>

definition HostTierWildcard :: nat where "HostTierWildcard = 1"
definition HostTierExact :: nat where "HostTierExact = 2"

definition matchHostPattern :: "string \<Rightarrow> string \<Rightarrow> nat option" where
  "matchHostPattern pattern0 host =
     (let pattern = (case SplitHostPort pattern0 of Some (h, _) \<Rightarrow> h | None \<Rightarrow> pattern0) in
      if pattern = host then Some HostTierExact
      else if HasPrefix pattern ''*.'' then
        (let suffix = drop 1 pattern in
         if HasSuffix host suffix then
           (let prefix = TrimSuffix host suffix in
            if prefix \<noteq> [] \<and> \<not> str_contains prefix ''.'' then Some HostTierWildcard else None)
         else None)
      else None)"

definition AnyHostMatches :: "string \<Rightarrow> service list \<Rightarrow> bool" where
  "AnyHostMatches host services \<longleftrightarrow> list_ex (\<lambda>s. matchHostPattern (svc_host s) host \<noteq> None) services"

lemma matchHostPattern_wildcard:
  assumes "CHR '':'' \<notin> set suffix"
  shows "matchHostPattern (''*.'' @ suffix) host = Some HostTierWildcard \<longleftrightarrow>
    (\<exists>label. label \<noteq> [] \<and> CHR ''.'' \<notin> set label \<and> host = label @ ''.'' @ suffix \<and> label \<noteq> ''*'')"
proof -
  have s: "SplitHostPort (''*.'' @ suffix) = None"
    using assms by (intro SplitHostPort_no_colon) simp
  show ?thesis
  proof
    assume "matchHostPattern (''*.'' @ suffix) host = Some HostTierWildcard"
    with s have ne: "host \<noteq> ''*.'' @ suffix" and suf: "HasSuffix host (''.'' @ suffix)"
      and pre: "TrimSuffix host (''.'' @ suffix) \<noteq> []" "CHR ''.'' \<notin> set (TrimSuffix host (''.'' @ suffix))"
      by (auto simp: matchHostPattern_def Let_def HostTierExact_def HostTierWildcard_def split: if_splits)
    from suf obtain l where l: "host = l @ (''.'' @ suffix)" by (auto simp: HasSuffix_iff)
    with pre ne show "\<exists>label. label \<noteq> [] \<and> CHR ''.'' \<notin> set label \<and> host = label @ ''.'' @ suffix \<and> label \<noteq> ''*''"
      unfolding l TrimSuffix_append by auto
  next
    assume "\<exists>label. label \<noteq> [] \<and> CHR ''.'' \<notin> set label \<and> host = label @ ''.'' @ suffix \<and> label \<noteq> ''*''"
    then obtain l where l: "l \<noteq> []" "CHR ''.'' \<notin> set l" "host = l @ (''.'' @ suffix)" "l \<noteq> ''*''" by auto
    have e: "drop 1 (''*.'' @ suffix) = ''.'' @ suffix" by simp
    have t: "TrimSuffix host (''.'' @ suffix) = l" unfolding l TrimSuffix_append by simp
    have f: "HasSuffix host (''.'' @ suffix)" unfolding l by (rule HasSuffix_append)
    have "''*.'' @ suffix \<noteq> host" using l by auto
    with s l t f show "matchHostPattern (''*.'' @ suffix) host = Some HostTierWildcard"
      unfolding matchHostPattern_def Let_def e by (simp add: HasPrefix_Cons)
  qed
qed

lemma matchHostPattern_exact:
  "CHR '':'' \<notin> set pattern \<Longrightarrow> matchHostPattern pattern host = Some HostTierExact \<longleftrightarrow> pattern = host"
  by (auto simp: matchHostPattern_def Let_def SplitHostPort_no_colon HostTierExact_def HostTierWildcard_def
      split: if_splits)

lemma matchHostPattern_range:
  "matchHostPattern pattern host = Some t \<Longrightarrow> t = HostTierExact \<or> t = HostTierWildcard"
  by (auto simp: matchHostPattern_def Let_def split: if_splits)

section \<open>Path globs\<close>

fun glob_middle :: "string \<Rightarrow> string list \<Rightarrow> string option" where
  "glob_middle rest [] = Some rest"
| "glob_middle rest (p # ps) =
     (case str_index rest p of None \<Rightarrow> None
      | Some idx \<Rightarrow> glob_middle (drop (idx + length p) rest) ps)"

definition matchPathGlob :: "string \<Rightarrow> string \<Rightarrow> nat \<times> bool" where
  "matchPathGlob pattern path =
     (if pattern = [] then (0, True)
      else
        (let parts = split_on (CHR ''*'') pattern; literalLen = length (hd parts) in
         if length parts = 1 then (literalLen, path = pattern)
         else if \<not> HasPrefix path (hd parts) then (literalLen, False)
         else (case glob_middle (drop literalLen path) (butlast (tl parts)) of
                 None \<Rightarrow> (literalLen, False)
               | Some rest \<Rightarrow> (literalLen, HasSuffix rest (last parts)))))"

text \<open>What a glob means: \<open>*\<close> stands for any text, every other byte for itself.\<close>

inductive glob :: "string \<Rightarrow> string \<Rightarrow> bool" where
  glob_end: "glob [] []"
| glob_lit: "c \<noteq> CHR ''*'' \<Longrightarrow> glob p s \<Longrightarrow> glob (c # p) (c # s)"
| glob_star: "glob p s \<Longrightarrow> glob (CHR ''*'' # p) (u @ s)"

inductive_simps glob_Nil [simp]: "glob [] s"
inductive_simps glob_Cons: "glob (c # p) s"

fun parts_match :: "string list \<Rightarrow> string \<Rightarrow> bool" where
  "parts_match [] s = False"
| "parts_match [p] s = (s = p)"
| "parts_match (p # ps) s = (\<exists>u t. s = p @ u @ t \<and> parts_match ps t)"

definition tail_match :: "string list \<Rightarrow> string \<Rightarrow> bool" where
  "tail_match ps s \<longleftrightarrow> (\<exists>u t. s = u @ t \<and> parts_match ps t)"

lemma parts_match_Cons_ne: "ps \<noteq> [] \<Longrightarrow> parts_match (p # ps) s \<longleftrightarrow> (\<exists>t. s = p @ t \<and> tail_match ps t)"
  by (cases ps) (auto simp: tail_match_def)

lemma parts_match_prepend: "parts_match ((c # p) # ps) s \<longleftrightarrow> (\<exists>t. s = c # t \<and> parts_match (p # ps) t)"
  by (cases ps) auto

lemma glob_parts: "glob pat s \<longleftrightarrow> parts_match (split_on (CHR ''*'') pat) s"
proof (induction pat arbitrary: s)
  case Nil
  then show ?case by simp
next
  case (Cons c pat)
  show ?case
  proof (cases "c = CHR ''*''")
    case True
    have "glob (c # pat) s \<longleftrightarrow> (\<exists>u t. s = u @ t \<and> glob pat t)"
      using True by (auto simp: glob_Cons intro: glob_star)
    also have "\<dots> \<longleftrightarrow> (\<exists>u t. s = u @ t \<and> parts_match (split_on (CHR ''*'') pat) t)"
      using Cons.IH by simp
    also have "\<dots> \<longleftrightarrow> parts_match (split_on (CHR ''*'') (c # pat)) s"
      using True by (simp add: parts_match_Cons_ne tail_match_def)
    finally show ?thesis .
  next
    case False
    obtain p ps where sp: "split_on (CHR ''*'') pat = p # ps"
      by (meson list.exhaust split_on_Nil_iff)
    have "glob (c # pat) s \<longleftrightarrow> (\<exists>t. s = c # t \<and> glob pat t)"
      using False by (auto simp: glob_Cons intro: glob_lit)
    also have "\<dots> \<longleftrightarrow> parts_match ((c # p) # ps) s"
      by (simp add: Cons.IH sp parts_match_prepend)
    finally show ?thesis using False sp by simp
  qed
qed

lemma tail_match_extend: "tail_match ps t \<Longrightarrow> tail_match ps (w @ t)"
  unfolding tail_match_def by (metis append.assoc)

text \<open>Taking the leftmost occurrence of each middle part never loses a match.\<close>

lemma glob_middle_greedy:
  "(\<exists>rest. glob_middle s ps = Some rest \<and> HasSuffix rest q) \<longleftrightarrow> tail_match (ps @ [q]) s"
proof (induction ps arbitrary: s)
  case Nil
  then show ?case by (auto simp: tail_match_def HasSuffix_iff)
next
  case (Cons p ps)
  have step: "tail_match ((p # ps) @ [q]) s \<longleftrightarrow> (\<exists>u t. s = u @ p @ t \<and> tail_match (ps @ [q]) t)"
    unfolding tail_match_def append_Cons by (auto simp: parts_match_Cons_ne tail_match_def) metis
  show ?case
  proof (cases "str_index s p")
    case None
    then have "\<not> str_contains s p" by (simp add: str_contains_def)
    then show ?thesis using None unfolding step by (auto simp: str_contains_iff)
  next
    case (Some i)
    let ?t = "drop (i + length p) s"
    have s: "s = take i s @ p @ ?t" using str_index_Some [OF Some] by simp
    have "(\<exists>u t. s = u @ p @ t \<and> tail_match (ps @ [q]) t) \<longleftrightarrow> tail_match (ps @ [q]) ?t"
    proof
      assume "\<exists>u t. s = u @ p @ t \<and> tail_match (ps @ [q]) t"
      then obtain u t where ut: "s = u @ p @ t" "tail_match (ps @ [q]) t" by blast
      from str_index_append [of u p t] ut Some have "i \<le> length u" by auto
      then have "?t = drop (i + length p) (u @ p) @ t" using ut(1) by simp
      then show "tail_match (ps @ [q]) ?t" using ut(2) tail_match_extend by metis
    qed (use s in blast)
    then show ?thesis using Some Cons.IH step by simp
  qed
qed

lemma parts_match_length1: "length ps = 1 \<Longrightarrow> parts_match ps s \<longleftrightarrow> s = hd ps"
  by (cases ps) auto

lemma split_on_single: "length (split_on b s) = 1 \<Longrightarrow> split_on b s = [s]"
proof (induction s)
  case (Cons c s)
  then show ?case by (auto split: list.splits if_splits)
qed simp

lemma matchPathGlob_glob:
  "snd (matchPathGlob pattern path) \<longleftrightarrow> pattern = [] \<or> glob pattern path"
proof (cases "pattern = []")
  case False
  let ?parts = "split_on (CHR ''*'') pattern"
  show ?thesis
  proof (cases "length ?parts = 1")
    case True
    with split_on_single [OF True] False show ?thesis
      by (simp add: matchPathGlob_def glob_parts)
  next
    case ne: False
    then obtain p ms q where parts: "?parts = p # ms @ [q]"
      by (metis One_nat_def length_Cons list.exhaust list.size(3) rev_exhaust split_on_Nil_iff)
    have "glob pattern path \<longleftrightarrow> (\<exists>t. path = p @ t \<and> tail_match (ms @ [q]) t)"
      by (simp add: glob_parts parts parts_match_Cons_ne)
    also have "\<dots> \<longleftrightarrow> HasPrefix path p \<and> tail_match (ms @ [q]) (drop (length p) path)"
      by (auto simp: HasPrefix_iff)
    also have "\<dots> \<longleftrightarrow> HasPrefix path p \<and>
        (\<exists>rest. glob_middle (drop (length p) path) ms = Some rest \<and> HasSuffix rest q)"
      by (simp add: glob_middle_greedy)
    finally show ?thesis
      using False ne by (auto simp: matchPathGlob_def parts Let_def split: option.splits)
  qed
qed (simp add: matchPathGlob_def)

lemma fst_matchPathGlob:
  "fst (matchPathGlob pattern path) = length (takeWhile (\<lambda>c. c \<noteq> CHR ''*'') pattern)"
proof -
  have "hd (split_on b s) = takeWhile (\<lambda>c. c \<noteq> b) s" for b :: char and s
    by (induction s) (auto split: list.splits)
  then show ?thesis by (auto simp: matchPathGlob_def Let_def split: option.splits)
qed

section \<open>Properties\<close>

text \<open>
  A wildcard host pattern matches exactly one more label: \<open>*.suffix\<close> matches a host
  at the wildcard tier if and only if the host is one non-empty label without a dot in
  front of \<open>.suffix\<close> (the literal label \<open>*\<close>, equal to the pattern itself, is the exact tier).
\<close>

theorem host_wildcard_one_label:
  "CHR '':'' \<notin> set sfx \<Longrightarrow>
     matchHostPattern (''*.'' @ sfx) host = Some HostTierWildcard \<longleftrightarrow>
       (\<exists>label. label \<noteq> [] \<and> CHR ''.'' \<notin> set label \<and> label \<noteq> ''*'' \<and> host = label @ ''.'' @ sfx)"
  using matchHostPattern_wildcard by blast

theorem host_wildcard_one_label_witness:
  "matchHostPattern ''*.github.com'' ''api.github.com'' = Some HostTierWildcard
     \<and> matchHostPattern ''*.github.com'' ''a.b.github.com'' \<noteq> Some HostTierWildcard"
proof -
  have c: "CHR '':'' \<notin> set ''github.com''" by simp
  have "\<exists>label. label \<noteq> [] \<and> CHR ''.'' \<notin> set label \<and> label \<noteq> ''*'' \<and> ''api.github.com'' = label @ ''.'' @ ''github.com''"
    by (rule exI [of _ "''api''"]) simp
  with host_wildcard_one_label [OF c, of "''api.github.com''"]
  have "matchHostPattern ''*.github.com'' ''api.github.com'' = Some HostTierWildcard" by simp
  moreover have "matchHostPattern ''*.github.com'' ''a.b.github.com'' = None" by code_simp
  ultimately show ?thesis by simp
qed

text \<open>
  Claim C24. The greedy path matcher decides the declarative meaning of a glob: an empty
  pattern matches every path, and any other pattern matches exactly the texts obtained by
  putting some text for each \<open>*\<close>. The literal length it reports is the number of bytes
  before the first \<open>*\<close>.
\<close>

theorem path_glob_correct:
  "matchPathGlob pattern path =
     (length (takeWhile (\<lambda>c. c \<noteq> CHR ''*'') pattern), pattern = [] \<or> glob pattern path)"
  by (metis fst_matchPathGlob matchPathGlob_glob prod.collapse)

end
