(* ===== verification/UrlEscape.thy ===== *)
theory UrlEscape
  imports GoStrings "HOL-Library.Char_ord" "HOL-Library.List_Lexorder"
begin

text \<open>
  The escaping functions of \<open>net/url\<close> and \<open>path.Clean\<close> on rooted paths. A percent escape
  is a percent sign and two upper-case hexadecimal digits.
\<close>

definition upper_hex :: "nat \<Rightarrow> char" where
  "upper_hex d = (if d < 10 then char_of (48 + d) else char_of (55 + d))"

definition pct :: "char \<Rightarrow> string" where
  "pct c = [CHR ''%'', upper_hex (byte_of c div 16), upper_hex (byte_of c mod 16)]"

definition url_unreserved :: "char \<Rightarrow> bool" where
  "url_unreserved c \<longleftrightarrow> is_alnum c \<or> c \<in> set ''-_.~''"

definition QueryEscape :: "string \<Rightarrow> string" where
  "QueryEscape s = concat (map (\<lambda>c. if url_unreserved c then [c] else if c = CHR '' '' then ''+'' else pct c) s)"

text \<open>In a path segment \<open>$ & + : = @\<close> also stay as they are.\<close>

definition PathEscape :: "string \<Rightarrow> string" where
  "PathEscape s = concat (map (\<lambda>c. if url_unreserved c \<or> c \<in> set ''$&+:=@'' then [c] else pct c) s)"

definition hex_digit_val :: "char \<Rightarrow> nat option" where
  "hex_digit_val c = (if is_digit c then Some (byte_of c - 48)
     else if 97 \<le> byte_of c \<and> byte_of c \<le> 102 then Some (byte_of c - 87)
     else if 65 \<le> byte_of c \<and> byte_of c \<le> 70 then Some (byte_of c - 55) else None)"

fun PathUnescape :: "string \<Rightarrow> string option" where
  "PathUnescape [] = Some []"
| "PathUnescape (c # s) =
     (if c = CHR ''%'' then
        (case s of a # b # r \<Rightarrow>
           (case (hex_digit_val a, hex_digit_val b) of
              (Some x, Some y) \<Rightarrow> map_option ((#) (char_of (x * 16 + y))) (PathUnescape r)
            | _ \<Rightarrow> None)
         | _ \<Rightarrow> None)
      else map_option ((#) c) (PathUnescape s))"

lemma hex_digit_upper_hex: "d < 16 \<Longrightarrow> hex_digit_val (upper_hex d) = Some d"
  by (auto simp: hex_digit_val_def upper_hex_def char_class_defs)

lemma PathUnescape_pct: "PathUnescape (pct c @ s) = map_option ((#) c) (PathUnescape s)"
proof -
  have "byte_of c div 16 < 16" "byte_of c mod 16 < 16"
    using nat_of_char_less_256 [of c] by (auto intro: less_mult_imp_div_less)
  moreover have "byte_of c div 16 * 16 + byte_of c mod 16 = byte_of c" by simp
  ultimately show ?thesis
    by (simp add: pct_def hex_digit_upper_hex)
qed

lemma pct_not_unreserved: "url_unreserved (CHR ''%'') = False"
  by (simp add: url_unreserved_def char_class_defs)

lemma PathUnescape_PathEscape: "PathUnescape (PathEscape s @ t) = map_option ((@) s) (PathUnescape t)"
proof (induction s)
  case Nil
  then show ?case by (cases "PathUnescape t") (simp_all add: PathEscape_def)
next
  case (Cons c s)
  have e: "PathEscape (c # s) @ t
     = (if url_unreserved c \<or> c \<in> set ''$&+:=@'' then [c] else pct c) @ (PathEscape s @ t)"
    by (simp add: PathEscape_def)
  show ?case
  proof (cases "url_unreserved c \<or> c \<in> set ''$&+:=@''")
    case True
    then have "c \<noteq> CHR ''%''" using pct_not_unreserved by auto
    with True Cons show ?thesis unfolding e by (cases "PathUnescape t") auto
  next
    case False
    then show ?thesis
      unfolding e using Cons PathUnescape_pct [of c "PathEscape s @ t"]
      by (cases "PathUnescape t") auto
  qed
qed

text \<open>\<open>url.Values.Encode\<close> of a map with one value per key: sorted by key.\<close>

definition join_with :: "string \<Rightarrow> string list \<Rightarrow> string" where
  "join_with sep xs = (case xs of [] \<Rightarrow> [] | y # ys \<Rightarrow> y @ concat (map (\<lambda>z. sep @ z) ys))"

definition values_encode :: "(string, string) go_map \<Rightarrow> string" where
  "values_encode m = join_with ''&''
     (map (\<lambda>(k, v). QueryEscape k @ ''='' @ QueryEscape v) (sort_key fst m))"

text \<open>\<open>path.Clean\<close> of a path that starts with a slash.\<close>

fun clean_segs :: "string list \<Rightarrow> string list \<Rightarrow> string list" where
  "clean_segs out [] = out"
| "clean_segs out (p # ps) =
     (if p = [] \<or> p = ''.'' then clean_segs out ps
      else if p = ''..'' then clean_segs (butlast out) ps
      else clean_segs (out @ [p]) ps)"

definition path_Clean :: "string \<Rightarrow> string" where
  "path_Clean p = ''/'' @ join_with ''/'' (clean_segs [] (split_on (CHR ''/'') (drop 1 p)))"

end
