(* ===== verification/Broker.thy ===== *)
theory Broker
  imports Matching UrlEscape
begin

text \<open>
  The rest of \<open>internal/broker\<close>: the match score and \<open>MatchService\<close>, validation of hosts,
  paths, ports and whole configurations, inline host splitting, and the fixed-query
  bindings of \<open>fixed_query.go\<close>.
\<close>

section \<open>\<open>MatchService\<close>\<close>

record match_score =
  HostTier :: nat
  PortSpecific :: bool
  PathLiteralLen :: nat
  DeclOrder :: nat

definition Better :: "match_score \<Rightarrow> match_score \<Rightarrow> bool" where
  "Better s other =
     (if HostTier s \<noteq> HostTier other then HostTier s > HostTier other
      else if PortSpecific s \<noteq> PortSpecific other then PortSpecific s
      else PathLiteralLen s > PathLiteralLen other)"

definition HostTierName :: "match_score \<Rightarrow> string" where
  "HostTierName s = (if HostTier s = HostTierExact then ''exact''
     else if HostTier s = HostTierWildcard then ''wildcard'' else [])"

text \<open>The guards of one iteration: \<open>None\<close> is a \<open>continue\<close>.\<close>

definition service_score :: "string \<Rightarrow> int \<Rightarrow> string \<Rightarrow> nat \<Rightarrow> service \<Rightarrow> match_score option" where
  "service_score host targetPort path i s =
     (case matchHostPattern (svc_host s) host of
        None \<Rightarrow> None
      | Some hostTier \<Rightarrow>
          if (case svc_port s of Some p \<Rightarrow> targetPort \<noteq> p | None \<Rightarrow> False) then None
          else
            (case matchPathGlob (svc_path s) path of (pathLen, pathOK) \<Rightarrow>
               if \<not> pathOK then None
               else Some \<lparr>HostTier = hostTier, PortSpecific = (svc_port s \<noteq> None),
                          PathLiteralLen = pathLen, DeclOrder = i\<rparr>))"

fun match_loop :: "string \<Rightarrow> int \<Rightarrow> string \<Rightarrow> nat \<Rightarrow> (service \<times> match_score) option \<Rightarrow> service list
    \<Rightarrow> (service \<times> match_score) option" where
  "match_loop host targetPort path i best [] = best"
| "match_loop host targetPort path i best (s # ss) =
     match_loop host targetPort path (Suc i)
       (case service_score host targetPort path i s of
          None \<Rightarrow> best
        | Some score \<Rightarrow>
            (case best of None \<Rightarrow> Some (s, score)
             | Some (b, bestScore) \<Rightarrow> if Better score bestScore then Some (s, score) else best)) ss"

definition MatchService :: "string \<Rightarrow> int \<Rightarrow> string \<Rightarrow> service list \<Rightarrow> (service \<times> match_score) option" where
  "MatchService host targetPort path services = match_loop host targetPort path 0 None services"

interpretation msc: preference Better
  by unfold_locales (auto simp: Better_def split: if_splits)

interpretation cand: preference "\<lambda>x y. Better (snd x) (snd y)"
  by unfold_locales (use msc.better_irrefl msc.better_trans msc.better_neg_trans in blast)+

definition candidates :: "string \<Rightarrow> int \<Rightarrow> string \<Rightarrow> nat \<Rightarrow> service list \<Rightarrow> (service \<times> match_score) list" where
  "candidates host port path i ss =
     [(s, sc). (j, s) \<leftarrow> enumerate i ss, sc \<leftarrow> (case service_score host port path j s of None \<Rightarrow> [] | Some sc \<Rightarrow> [sc])]"

lemma candidates_simps:
  "candidates host port path i [] = []"
  "candidates host port path i (s # ss) =
     (case service_score host port path i s of None \<Rightarrow> [] | Some sc \<Rightarrow> [(s, sc)]) @ candidates host port path (Suc i) ss"
  by (auto simp: candidates_def split: option.splits)

lemma match_loop_scan:
  "match_loop host port path i best ss
     = scan_best (\<lambda>x y. Better (snd x) (snd y)) best (candidates host port path i ss)"
proof (induction ss arbitrary: i best)
  case Nil
  then show ?case by (simp add: candidates_simps)
next
  case (Cons s ss)
  then show ?case
    by (cases "service_score host port path i s"; cases best) (auto simp: candidates_simps)
qed

lemma service_score_DeclOrder: "service_score host port path i s = Some sc \<Longrightarrow> DeclOrder sc = i"
  by (auto simp: service_score_def split: option.splits if_splits prod.splits)

lemma candidates_in:
  "(s, sc) \<in> set (candidates host port path i ss) \<longleftrightarrow>
     (\<exists>j < length ss. s = ss ! j \<and> service_score host port path (i + j) (ss ! j) = Some sc)"
proof (induction ss arbitrary: i)
  case (Cons s' ss)
  then show ?case
    by (auto simp: candidates_simps Ex_less_Suc2 split: option.splits)
qed (simp add: candidates_simps)

lemma candidates_Nil_iff:
  "candidates host port path i ss = [] \<longleftrightarrow> (\<forall>j < length ss. service_score host port path (i + j) (ss ! j) = None)"
proof (induction ss arbitrary: i)
  case (Cons s' ss)
  then show ?case
    by (auto simp: candidates_simps All_less_Suc2 split: option.splits)
qed (simp add: candidates_simps)

lemma candidates_sorted: "sorted_wrt (<) (map (\<lambda>c. DeclOrder (snd c)) (candidates host port path i ss))
    \<and> (\<forall>c \<in> set (candidates host port path i ss). i \<le> DeclOrder (snd c))"
proof (induction ss arbitrary: i)
  case Nil
  then show ?case by (simp add: candidates_simps)
next
  case (Cons s ss)
  show ?case
  proof (cases "service_score host port path i s")
    case None
    with Cons [of "Suc i"] show ?thesis by (auto simp: candidates_simps dest: Suc_leD)
  next
    case (Some sc)
    then have "DeclOrder sc = i" by (rule service_score_DeclOrder)
    with Some Cons [of "Suc i"] show ?thesis
      by (auto simp: candidates_simps Suc_le_eq less_imp_le)
  qed
qed

lemma MatchService_None_iff:
  "MatchService host port path ss = None \<longleftrightarrow>
     (\<forall>j < length ss. service_score host port path j (ss ! j) = None)"
  by (simp add: MatchService_def match_loop_scan cand.scan_best_None_iff candidates_Nil_iff)

lemma MatchService_Some:
  assumes "MatchService host port path ss = Some (s, sc)"
  shows "DeclOrder sc < length ss \<and> s = ss ! DeclOrder sc
      \<and> service_score host port path (DeclOrder sc) s = Some sc
      \<and> (\<forall>j < length ss. \<forall>sc'. service_score host port path j (ss ! j) = Some sc' \<longrightarrow>
            \<not> Better sc' sc \<and> (j < DeclOrder sc \<longrightarrow> Better sc sc'))"
proof -
  let ?cs = "candidates host port path 0 ss"
  from assms have "scan_best (\<lambda>x y. Better (snd x) (snd y)) None ?cs = Some (s, sc)"
    by (simp add: MatchService_def match_loop_scan)
  from cand.scan_best_first_max [OF this] obtain us vs where cs: "?cs = us @ (s, sc) # vs"
    and u: "\<forall>y \<in> set us. Better sc (snd y)" and v: "\<forall>y \<in> set vs. \<not> Better (snd y) sc" by auto
  have "(s, sc) \<in> set ?cs" using cs by simp
  then obtain j where j: "j < length ss" "s = ss ! j" "service_score host port path j s = Some sc"
    by (auto simp: candidates_in)
  then have d: "DeclOrder sc = j" by (auto dest: service_score_DeclOrder)
  have "\<not> Better sc' sc \<and> (k < j \<longrightarrow> Better sc sc')"
    if k: "k < length ss" "service_score host port path k (ss ! k) = Some sc'" for k sc'
  proof -
    have "(ss ! k, sc') \<in> set ?cs" using k by (auto simp: candidates_in)
    then consider "(ss ! k, sc') \<in> set us" | "(ss ! k, sc') = (s, sc)" | "(ss ! k, sc') \<in> set vs"
      using cs by auto
    then show ?thesis
    proof cases
      case 3
      with candidates_sorted [of host port path 0 ss] cs have "DeclOrder sc < DeclOrder sc'"
        by (auto simp: sorted_wrt_append)
      with 3 v d k show ?thesis by (auto dest: service_score_DeclOrder)
    next
      case 1
      with u show ?thesis using msc.better_asym by fastforce
    next
      case 2
      with k d show ?thesis using msc.better_irrefl by (auto dest: service_score_DeclOrder)
    qed
  qed
  with j d show ?thesis by auto
qed

section \<open>Validation of slugs, paths, ports and hosts\<close>

datatype slug_error = SlugRequired | SlugTooShort | SlugTooLong | SlugEdgeHyphen | SlugDoubleHyphen | SlugChar

definition slug_char :: "nat \<Rightarrow> bool" where
  "slug_char r \<longleftrightarrow> (97 \<le> r \<and> r \<le> 122) \<or> (48 \<le> r \<and> r \<le> 57) \<or> r = 45"

definition ValidateSlug :: "string \<Rightarrow> slug_error go_error" where
  "ValidateSlug name =
     (if name = [] then Some SlugRequired
      else if length name < 3 then Some SlugTooShort
      else if length name > 64 then Some SlugTooLong
      else if hd name = CHR ''-'' \<or> last name = CHR ''-'' then Some SlugEdgeHyphen
      else if str_contains name ''--'' then Some SlugDoubleHyphen
      else if list_ex (\<lambda>r. \<not> slug_char r) (runes name) then Some SlugChar
      else None)"

datatype path_error = PathTooLong | PathNoSlash | PathDoubleStar | PathControl | PathChar nat

fun path_chars :: "nat list \<Rightarrow> path_error go_error" where
  "path_chars [] = None"
| "path_chars (r # rs) =
     (if rune_is_control r then Some PathControl
      else if r \<in> set (map of_char '' ?#[]|<>'') \<or> r = 92 \<or> r = 34 then Some (PathChar r)
      else path_chars rs)"

definition ValidatePath :: "string \<Rightarrow> path_error go_error" where
  "ValidatePath p =
     (if p = [] then None
      else if length p > 256 then Some PathTooLong
      else if \<not> HasPrefix p ''/'' then Some PathNoSlash
      else if str_contains p ''**'' then Some PathDoubleStar
      else path_chars (runes p))"

definition ValidatePort :: "int option \<Rightarrow> int go_error" where
  "ValidatePort port =
     (case port of None \<Rightarrow> None | Some p \<Rightarrow> if p < 1 \<or> p > 65535 then Some p else None)"

text \<open>The regular expression of one DNS label, and of a host name of at least two labels.\<close>

definition host_label :: "string \<Rightarrow> bool" where
  "host_label l \<longleftrightarrow> l \<noteq> [] \<and> is_alnum (hd l) \<and> is_alnum (last l)
     \<and> list_all (\<lambda>c. is_alnum c \<or> c = CHR ''-'') l"

definition hostLabelPattern :: "string \<Rightarrow> bool" where
  "hostLabelPattern h \<longleftrightarrow>
     (let ls = split_on (CHR ''.'') h
      in 2 \<le> length ls \<and> list_all host_label (butlast ls)
         \<and> 2 \<le> length (last ls) \<and> list_all is_alpha (last ls))"

definition internalHosts :: "string list" where
  "internalHosts = [''localhost'', ''localhost.localdomain'', ''internal'', ''kubernetes'',
     ''kubernetes.default'', ''metadata.google.internal'', ''metadata.google'', ''instance-data'']"

datatype host_error = HostEmpty | HostChar | HostIP | HostBareWildcard | HostWildcardForm
  | HostWildcardLevels | HostWildcardName | HostInternal | HostInvalid

text \<open>\<open>devMode\<close> is the environment setting AGENT_VAULT_DEV_MODE.\<close>

definition ValidateHost :: "bool \<Rightarrow> string \<Rightarrow> host_error go_error" where
  "ValidateHost devMode host =
     (let h = TrimSpace host in
      if h = [] then Some HostEmpty
      else if list_ex (\<lambda>r. r \<in> {64, 63, 35, 32} \<or> rune_is_control r) (runes h) then Some HostChar
      else if ParseIP h \<noteq> None then Some HostIP
      else if HasPrefix h ''*'' then
        (if h = ''*'' then Some HostBareWildcard
         else if \<not> HasPrefix h ''*.'' then Some HostWildcardForm
         else
           (let sfx = drop 2 h in
            if \<not> str_contains sfx ''.'' then Some HostWildcardLevels
            else if \<not> hostLabelPattern sfx then Some HostWildcardName else None))
      else if \<not> devMode \<and> lower_runes h \<in> set (map (map of_char) internalHosts) then Some HostInternal
      else if \<not> hostLabelPattern h then Some HostInvalid else None)"

section \<open>Inline hosts\<close>

definition splitHostPort :: "string \<Rightarrow> string \<times> int option" where
  "splitHostPort host =
     (case last_index_byte (CHR '':'') host of
        None \<Rightarrow> (host, None)
      | Some idx \<Rightarrow>
          (case atoi (drop (idx + 1) host) of None \<Rightarrow> (host, None)
           | Some p \<Rightarrow> (take idx host, Some p)))"

definition SplitInlineHost :: "string \<Rightarrow> string \<Rightarrow> string \<times> string \<times> int option" where
  "SplitInlineHost host path =
     (if path \<noteq> [] then (case splitHostPort host of (h, port) \<Rightarrow> (h, path, port))
      else
        (case index_byte (CHR ''/'') host of
           Some i \<Rightarrow>
             if i > 0 then (case splitHostPort (take i host) of (h, port) \<Rightarrow> (h, drop i host, port))
             else (case splitHostPort host of (h, port) \<Rightarrow> (h, path, port))
         | None \<Rightarrow> (case splitHostPort host of (h, port) \<Rightarrow> (h, path, port))))"

text \<open>The service is updated in place: also when the port conflict is reported.\<close>

definition NormalizePort :: "service \<Rightarrow> service \<times> (int \<times> int) go_error" where
  "NormalizePort svc =
     (case SplitInlineHost (svc_host svc) (svc_path svc) of (host, path, inlinePort) \<Rightarrow>
        (let svc1 = svc\<lparr>svc_host := host, svc_path := path\<rparr> in
         case (inlinePort, svc_port svc) of
           (Some ip, Some p) \<Rightarrow> if ip \<noteq> p then (svc1, Some (ip, p)) else (svc1\<lparr>svc_port := Some ip\<rparr>, None)
         | (Some ip, None) \<Rightarrow> (svc1\<lparr>svc_port := Some ip\<rparr>, None)
         | (None, _) \<Rightarrow> (svc1, None)))"

definition PortVal :: "int option \<Rightarrow> int" where
  "PortVal p = (case p of None \<Rightarrow> 0 | Some n \<Rightarrow> n)"

section \<open>Fixed queries\<close>

datatype fq_error = FQInvalid | FQAmbiguous

text \<open>The regular expression \<open>^[A-Za-z][A-Za-z0-9_]{0,63}$\<close>.\<close>

definition fixedQueryKey :: "string \<Rightarrow> bool" where
  "fixedQueryKey k \<longleftrightarrow>
     (case k of [] \<Rightarrow> False
      | c # t \<Rightarrow> is_alpha c \<and> length t \<le> 63 \<and> list_all (\<lambda>d. is_alnum d \<or> d = CHR ''_'') t)"

definition ValidString :: "string \<Rightarrow> bool" where
  "ValidString s \<longleftrightarrow> list_all (\<lambda>(r, bs). \<not> (r = 65533 \<and> length bs = 1)) (rune_chunks s)"

definition fixed_value_ok :: "string \<Rightarrow> bool" where
  "fixed_value_ok v \<longleftrightarrow> length v \<le> 512 \<and> ValidString v \<and> \<not> str_contains v ''__''
     \<and> \<not> ContainsAny v ''{}'' \<and> list_all (\<lambda>r. \<not> rune_is_control r) (runes v)"

definition ValidateFixedQuery :: "service \<Rightarrow> fq_error go_error" where
  "ValidateFixedQuery s =
     (case svc_fixed_query s of
        None \<Rightarrow> None
      | Some q \<Rightarrow>
          if q = [] \<or> length q > 16 \<or> svc_host s = [] \<or> ContainsAny (svc_host s) ''*?[]''
             \<or> svc_path s = [] \<or> \<not> HasPrefix (svc_path s) ''/'' \<or> path_Clean (svc_path s) \<noteq> svc_path s
             \<or> ContainsAny (svc_path s) ''*?[]{}%#'' \<or> str_contains (svc_path s) ''__''
          then Some FQInvalid
          else if list_ex (\<lambda>(k, v). \<not> fixedQueryKey k \<or> \<not> fixed_value_ok v) q then Some FQInvalid
          else if length (values_encode q) > 4096 then Some FQInvalid
          else None)"

definition fq_overlaps :: "service \<Rightarrow> service \<Rightarrow> bool" where
  "fq_overlaps s other \<longleftrightarrow>
     matchHostPattern (svc_host other) (svc_host s) \<noteq> None \<and> snd (matchPathGlob (svc_path other) (svc_path s))
     \<and> (svc_port s = None \<or> svc_port other = None \<or> svc_port s = svc_port other)"

definition ValidateFixedQueryBindings :: "service list \<Rightarrow> fq_error go_error" where
  "ValidateFixedQueryBindings services =
     first_err 0 (\<lambda>i s.
       case ValidateFixedQuery s of
         Some e \<Rightarrow> Some e
       | None \<Rightarrow>
           if svc_fixed_query s = None then None
           else first_err 0 (\<lambda>j other. if i = j then None
                  else if fq_overlaps s other then Some FQAmbiguous else None) services) services"

section \<open>Whole configurations\<close>

record config =
  cfg_vault :: string
  cfg_services :: "service list"

datatype svc_error =
    SvcHostRequired | SvcHostSlash | SvcHost host_error | SvcNameRequired | SvcSlug slug_error
  | SvcDuplicateName string nat | SvcPath path_error | SvcPort int | SvcFixedQuery fq_error
  | SvcAuth auth_error | SvcSubstitution nat sub_error

datatype config_error = VaultRequired | FixedQueryBinding fq_error | ServiceError nat svc_error

text \<open>One iteration; \<open>nameSet\<close> maps each name seen so far to its index.\<close>

definition validate_service :: "bool \<Rightarrow> (string, nat) go_map \<Rightarrow> service \<Rightarrow> svc_error go_error" where
  "validate_service devMode nameSet s =
     (if svc_host s = [] then Some SvcHostRequired
      else if str_contains (svc_host s) ''/'' then Some SvcHostSlash
      else guard_err (ValidateHost devMode (svc_host s)) SvcHost
       (if svc_name s = [] then Some SvcNameRequired
        else guard_err (ValidateSlug (svc_name s)) SvcSlug
         (case map_of nameSet (svc_name s) of
            Some prev \<Rightarrow> Some (SvcDuplicateName (svc_name s) prev)
          | None \<Rightarrow>
              guard_err (ValidatePath (svc_path s)) SvcPath
               (guard_err (ValidatePort (svc_port s)) SvcPort
                 (guard_err (ValidateFixedQuery s) SvcFixedQuery
                   (guard_err (auth_Validate (svc_auth s)) SvcAuth
                     (guard_err (ValidateSubstitutions (svc_substitutions s)) (\<lambda>(i, e). SvcSubstitution i e)
                       None)))))))"

fun validate_services :: "bool \<Rightarrow> nat \<Rightarrow> (string, nat) go_map \<Rightarrow> service list \<Rightarrow> config_error go_error" where
  "validate_services devMode i nameSet [] = None"
| "validate_services devMode i nameSet (s # ss) =
     guard_err (validate_service devMode nameSet s) (ServiceError i)
       (validate_services devMode (Suc i) ((svc_name s, i) # nameSet) ss)"

definition Validate :: "bool \<Rightarrow> config \<Rightarrow> config_error go_error" where
  "Validate devMode cfg =
     (if cfg_vault cfg = [] then Some VaultRequired
      else guard_err (ValidateFixedQueryBindings (cfg_services cfg)) FixedQueryBinding
             (validate_services devMode 0 [] (cfg_services cfg)))"

section \<open>What validation guarantees\<close>

lemma hostLabelPattern_bytes:
  assumes "hostLabelPattern h" and "c \<in> set h"
  shows "is_alnum c \<or> c = CHR ''-'' \<or> c = CHR ''.''"
proof (cases "c = CHR ''.''")
  case False
  have "\<exists>p \<in> set (split_on b s). c \<in> set p" if "c \<in> set s" "c \<noteq> b" for b s
    using that by (induction s) (auto split: list.splits)
  with assms False obtain p where p: "p \<in> set (split_on (CHR ''.'') h)" "c \<in> set p" by blast
  then have "p \<in> set (butlast (split_on (CHR ''.'') h)) \<or> p = last (split_on (CHR ''.'') h)"
    by (metis append_butlast_last_id in_set_conv_decomp_last split_on_Nil_iff UnE set_append
        empty_iff insert_iff list.set(1) list.set(2))
  with assms(1) p(2) show ?thesis
    by (auto simp: hostLabelPattern_def host_label_def Let_def list_all_iff is_alnum_def)
qed simp

lemma HasPrefix_drop: "HasPrefix s p \<Longrightarrow> s = p @ drop (length p) s"
  by (auto simp: HasPrefix_iff)

lemma ValidateHost_trimmed_bytes:
  assumes "ValidateHost devMode host = None" and "c \<in> set (TrimSpace host)"
  shows "is_alnum c \<or> c \<in> set ''-.*''"
proof -
  let ?h = "TrimSpace host"
  from assms(1) consider "HasPrefix ?h ''*.''" "hostLabelPattern (drop 2 ?h)" | "hostLabelPattern ?h"
    by (auto simp: ValidateHost_def Let_def split: if_splits)
  then show ?thesis
  proof cases
    case 1
    then have "c \<in> set ''*.'' \<or> c \<in> set (drop 2 ?h)"
      using HasPrefix_drop [OF 1(1)] assms(2)
      by (metis Un_iff length_Cons list.size(3) numeral_2_eq_2 set_append)
    with 1 show ?thesis by (auto dest: hostLabelPattern_bytes)
  next
    case 2
    with assms(2) show ?thesis by (auto dest: hostLabelPattern_bytes)
  qed
qed

lemma ValidateHost_no_byte:
  assumes "ValidateHost devMode host = None" and "byte_of c < 128" and "\<not> rune_is_space (byte_of c)"
    and "\<not> is_alnum c" and "c \<notin> set ''-.*''"
  shows "c \<notin> set host"
  using assms TrimSpace_low_byte ValidateHost_trimmed_bytes by blast

lemma ValidateHost_no_colon: "ValidateHost devMode host = None \<Longrightarrow> CHR '':'' \<notin> set host"
  by (rule ValidateHost_no_byte) (auto simp: rune_is_space_def char_class_defs)

lemma validate_services_each:
  assumes "validate_services devMode i nameSet ss = None" and "s \<in> set ss"
  shows "\<exists>ns. validate_service devMode ns s = None"
  using assms by (induction devMode i nameSet ss rule: validate_services.induct) auto

lemma validate_services_distinct:
  "validate_services devMode i nameSet ss = None \<Longrightarrow>
     distinct (map svc_name ss) \<and> fst ` set nameSet \<inter> svc_name ` set ss = {}"
proof (induction devMode i nameSet ss rule: validate_services.induct)
  case (2 devMode i nameSet s ss)
  then have n: "map_of nameSet (svc_name s) = None"
    and r: "distinct (map svc_name ss) \<and> fst ` set ((svc_name s, i) # nameSet) \<inter> svc_name ` set ss = {}"
    by (auto simp: validate_service_def split: if_splits option.splits)
  then show ?case by (auto simp: map_of_eq_None_iff)
qed simp

text \<open>The parts of a service that \<open>validate_service\<close> checks, in one place.\<close>

definition service_ok :: "bool \<Rightarrow> service \<Rightarrow> bool" where
  "service_ok devMode s \<longleftrightarrow>
     svc_host s \<noteq> [] \<and> CHR ''/'' \<notin> set (svc_host s) \<and> ValidateHost devMode (svc_host s) = None
     \<and> ValidateSlug (svc_name s) = None \<and> ValidatePath (svc_path s) = None \<and> ValidatePort (svc_port s) = None
     \<and> ValidateFixedQuery s = None \<and> auth_Validate (svc_auth s) = None
     \<and> ValidateSubstitutions (svc_substitutions s) = None"

lemma validate_service_iff:
  "validate_service devMode ns s = None \<longleftrightarrow> service_ok devMode s \<and> svc_name s \<notin> fst ` set ns"
proof (cases "map_of ns (svc_name s)")
  case None
  then have "svc_name s \<notin> fst ` set ns" by (simp add: map_of_eq_None_iff)
  moreover have "ValidateSlug [] \<noteq> None" by (simp add: ValidateSlug_def)
  ultimately show ?thesis using None by (auto simp: validate_service_def service_ok_def)
next
  case (Some prev)
  then have "svc_name s \<in> fst ` set ns" by (metis map_of_eq_None_iff option.distinct(1))
  with Some show ?thesis by (simp add: validate_service_def del: not_None_eq)
qed

lemma validate_services_iff:
  "validate_services devMode i ns ss = None \<longleftrightarrow>
     (\<forall>s \<in> set ss. service_ok devMode s) \<and> distinct (map svc_name ss) \<and> svc_name ` set ss \<inter> fst ` set ns = {}"
  by (induction devMode i ns ss rule: validate_services.induct) (auto simp: validate_service_iff)

section \<open>Splitting undoes joining\<close>

lemma splitHostPort_plain: "CHR '':'' \<notin> set h \<Longrightarrow> splitHostPort h = (h, None)"
  by (simp add: splitHostPort_def last_index_byte_None_iff [symmetric])

lemma splitHostPort_join:
  assumes "CHR '':'' \<notin> set h" and "1 \<le> p" and "p \<le> 65535"
  shows "splitHostPort (JoinHostPort h (itoa p)) = (h, Some p)"
proof -
  have "CHR '':'' \<notin> set (itoa p)" by (rule itoa_no_byte) (auto simp: is_digit_def)
  then have "last_index_byte (CHR '':'') (h @ CHR '':'' # itoa p) = Some (length h)"
    by (rule last_index_byte_append)
  moreover have "atoi (itoa p) = Some p" using assms by (intro atoi_itoa) auto
  ultimately show ?thesis using assms(1) by (simp add: splitHostPort_def JoinHostPort_def)
qed

definition join_host :: "service \<Rightarrow> string" where
  "join_host s = (case svc_port s of Some p \<Rightarrow> JoinHostPort (svc_host s) (itoa p) | None \<Rightarrow> svc_host s)"

lemma splitHostPort_join_host:
  "CHR '':'' \<notin> set (svc_host s) \<Longrightarrow> ValidatePort (svc_port s) = None \<Longrightarrow>
     splitHostPort (join_host s) = (svc_host s, svc_port s)"
  by (cases "svc_port s") (auto simp: join_host_def splitHostPort_plain splitHostPort_join ValidatePort_def split: if_splits)

lemma join_host_no_slash:
  assumes "CHR ''/'' \<notin> set (svc_host s)"
  shows "CHR ''/'' \<notin> set (join_host s)"
proof -
  have "CHR ''/'' \<notin> set (itoa p)" for p by (rule itoa_no_byte) (auto simp: is_digit_def)
  with assms show ?thesis by (auto simp: join_host_def JoinHostPort_def split: option.splits)
qed

lemma SplitInlineHost_MatcherPattern:
  assumes "service_ok devMode s"
  shows "SplitInlineHost (MatcherPattern s) [] = (svc_host s, svc_path s, svc_port s)"
proof -
  have colon: "CHR '':'' \<notin> set (svc_host s)" and port: "ValidatePort (svc_port s) = None"
    and slash: "CHR ''/'' \<notin> set (join_host s)"
    using assms ValidateHost_no_colon join_host_no_slash by (auto simp: service_ok_def)
  have mp: "MatcherPattern s = join_host s @ svc_path s"
    by (simp add: MatcherPattern_def join_host_def Let_def)
  show ?thesis
  proof (cases "svc_path s")
    case Nil
    have "index_byte (CHR ''/'') (join_host s) = None" using slash by (simp add: index_byte_None_iff)
    with Nil show ?thesis
      using splitHostPort_join_host [OF colon port] by (simp add: SplitInlineHost_def mp)
  next
    case (Cons c r)
    with assms have "c = CHR ''/''"
      by (auto simp: service_ok_def ValidatePath_def HasPrefix_Cons split: if_splits)
    with Cons slash have "index_byte (CHR ''/'') (join_host s @ svc_path s) = Some (length (join_host s))"
      by (simp add: index_byte_append)
    moreover have "join_host s \<noteq> []"
      using assms by (auto simp: service_ok_def join_host_def JoinHostPort_def split: option.splits)
    ultimately show ?thesis
      using splitHostPort_join_host [OF colon port] by (simp add: SplitInlineHost_def mp)
  qed
qed

section \<open>Fixed-query bindings are unambiguous\<close>

lemma ValidateFixedQueryBindings_None:
  assumes "ValidateFixedQueryBindings ss = None" and "i < length ss" and "svc_fixed_query (ss ! i) \<noteq> None"
  shows "ValidateFixedQuery (ss ! i) = None \<and> (\<forall>j < length ss. j \<noteq> i \<longrightarrow> \<not> fq_overlaps (ss ! i) (ss ! j))"
  using assms
  by (auto simp: ValidateFixedQueryBindings_def first_err_None_iff split: if_splits option.splits)
     (metis option.distinct(1))

lemma matchPathGlob_literal: "CHR ''*'' \<notin> set p \<Longrightarrow> snd (matchPathGlob p p)"
  by (simp add: matchPathGlob_def split_on_no_sep)

lemma fixed_query_self_match:
  assumes "ValidateFixedQuery s = None" and "svc_fixed_query s \<noteq> None" and "CHR '':'' \<notin> set (svc_host s)"
    and "\<forall>p. svc_port s = Some p \<longrightarrow> port = p"
  shows "service_score (svc_host s) port (svc_path s) i s \<noteq> None"
proof -
  from assms(1,2) have "CHR ''*'' \<notin> set (svc_path s)"
    by (auto simp: ValidateFixedQuery_def ContainsAny_def list_ex_iff split: option.splits if_splits)
  then have "snd (matchPathGlob (svc_path s) (svc_path s))" by (rule matchPathGlob_literal)
  moreover have "matchHostPattern (svc_host s) (svc_host s) = Some HostTierExact"
    using assms(3) by (simp add: matchHostPattern_exact)
  ultimately show ?thesis using assms(4)
    by (auto simp: service_score_def split: option.splits prod.splits)
qed

lemma fq_no_overlap_score:
  assumes "\<not> fq_overlaps s t" and "\<forall>p. svc_port s = Some p \<longrightarrow> port = p"
  shows "service_score (svc_host s) port (svc_path s) j t = None"
  using assms
  by (cases "svc_port t") (auto simp: fq_overlaps_def service_score_def split: option.splits prod.splits)

lemma fixed_query_match:
  assumes "ValidateFixedQueryBindings ss = None" and "i < length ss" and "svc_fixed_query (ss ! i) \<noteq> None"
    and "CHR '':'' \<notin> set (svc_host (ss ! i))" and "\<forall>p. svc_port (ss ! i) = Some p \<longrightarrow> port = p"
  shows "\<exists>sc. MatchService (svc_host (ss ! i)) port (svc_path (ss ! i)) ss = Some (ss ! i, sc)"
proof -
  note ok = ValidateFixedQueryBindings_None [OF assms(1-3)]
  have self: "service_score (svc_host (ss ! i)) port (svc_path (ss ! i)) i (ss ! i) \<noteq> None"
    using ok assms(3-5) by (intro fixed_query_self_match) auto
  then have "MatchService (svc_host (ss ! i)) port (svc_path (ss ! i)) ss \<noteq> None"
    using assms(2) by (auto simp: MatchService_None_iff)
  then obtain s sc where m: "MatchService (svc_host (ss ! i)) port (svc_path (ss ! i)) ss = Some (s, sc)" by auto
  note w = MatchService_Some [OF m]
  have "DeclOrder sc = i"
  proof (rule ccontr)
    assume "DeclOrder sc \<noteq> i"
    with w ok have "\<not> fq_overlaps (ss ! i) s" by auto
    with w fq_no_overlap_score [OF _ assms(5)] show False by auto
  qed
  with w m show ?thesis by auto
qed

section \<open>What it means to be the most specific service\<close>

text \<open>
  The documented meaning, stated apart from the scores: a service serves a request when its host is
  the host of the request or a wildcard that covers exactly one more label, its port is the port
  of the request or not given, and its path is empty or a glob for the path. Of two services
  that serve it, an exact host comes before a wildcard, then a given port before none, then
  the longer literal beginning of the path.
\<close>

definition host_part :: "service \<Rightarrow> string" where
  "host_part s = (case SplitHostPort (svc_host s) of Some (h, _) \<Rightarrow> h | None \<Rightarrow> svc_host s)"

definition wildcard_covers :: "string \<Rightarrow> string \<Rightarrow> bool" where
  "wildcard_covers pattern host \<longleftrightarrow>
     (\<exists>label sfx. label \<noteq> [] \<and> CHR ''.'' \<notin> set label \<and> pattern = ''*.'' @ sfx \<and> host = label @ ''.'' @ sfx)"

definition serves :: "string \<Rightarrow> int \<Rightarrow> string \<Rightarrow> service \<Rightarrow> bool" where
  "serves host port path s \<longleftrightarrow> (host_part s = host \<or> wildcard_covers (host_part s) host) \<and>
     (svc_port s = None \<or> svc_port s = Some port) \<and> (svc_path s = [] \<or> glob (svc_path s) path)"

definition literal_len :: "service \<Rightarrow> nat" where
  "literal_len s = length (takeWhile (\<lambda>c. c \<noteq> CHR ''*'') (svc_path s))"

definition more_specific :: "string \<Rightarrow> service \<Rightarrow> service \<Rightarrow> bool" where
  "more_specific host s t \<longleftrightarrow>
     host_part s = host \<and> host_part t \<noteq> host \<or>
     (host_part s = host) = (host_part t = host) \<and>
       (svc_port s \<noteq> None \<and> svc_port t = None \<or>
        (svc_port s = None) = (svc_port t = None) \<and> literal_len t < literal_len s)"

lemma matchHostPattern_tier:
  "matchHostPattern (svc_host s) host =
     (if host_part s = host then Some HostTierExact else if wildcard_covers (host_part s) host then Some HostTierWildcard else None)"
proof -
  let ?p = "host_part s"
  have "wildcard_covers ?p host \<longleftrightarrow> HasPrefix ?p ''*.'' \<and> HasSuffix host (drop 1 ?p) \<and>
      TrimSuffix host (drop 1 ?p) \<noteq> [] \<and> \<not> str_contains (TrimSuffix host (drop 1 ?p)) ''.''"
  proof
    assume "wildcard_covers ?p host"
    then obtain label sfx where "label \<noteq> []" "CHR ''.'' \<notin> set label" "?p = ''*.'' @ sfx" "host = label @ ''.'' @ sfx"
      unfolding wildcard_covers_def by blast
    then show "HasPrefix ?p ''*.'' \<and> HasSuffix host (drop 1 ?p) \<and> TrimSuffix host (drop 1 ?p) \<noteq> [] \<and> \<not> str_contains (TrimSuffix host (drop 1 ?p)) ''.''"
      using TrimSuffix_append [of label "''.'' @ sfx"] HasSuffix_append [of label "''.'' @ sfx"] HasPrefix_append [of "''*.''" sfx] by simp
  next
    assume r: "HasPrefix ?p ''*.'' \<and> HasSuffix host (drop 1 ?p) \<and> TrimSuffix host (drop 1 ?p) \<noteq> [] \<and> \<not> str_contains (TrimSuffix host (drop 1 ?p)) ''.''"
    then obtain sfx label where "?p = ''*.'' @ sfx" "host = label @ ''.'' @ sfx" by (auto simp: HasPrefix_iff HasSuffix_iff)
    moreover from this r have "label \<noteq> []" "CHR ''.'' \<notin> set label" using TrimSuffix_append [of label "''.'' @ sfx"] by simp_all
    ultimately show "wildcard_covers ?p host" unfolding wildcard_covers_def by blast
  qed
  then show ?thesis unfolding matchHostPattern_def host_part_def [symmetric] Let_def by simp
qed

definition score_of :: "string \<Rightarrow> nat \<Rightarrow> service \<Rightarrow> match_score" where
  "score_of host i s = \<lparr>HostTier = (if host_part s = host then 2 else 1), PortSpecific = (svc_port s \<noteq> None),
     PathLiteralLen = literal_len s, DeclOrder = i\<rparr>"

lemma Better_score_of: "Better (score_of host i s) (score_of host j t) = more_specific host s t"
  by (cases "svc_port s"; cases "svc_port t") (simp_all add: Better_def score_of_def more_specific_def)

lemma service_score_serves:
  "service_score host port path i s =
     (if serves host port path s
then Some (score_of host i s) else None)"
proof -
  have "matchPathGlob (svc_path s) path = (literal_len s, svc_path s = [] \<or> glob (svc_path s) path)"
    by (metis fst_matchPathGlob literal_len_def matchPathGlob_glob prod.collapse)
  then show ?thesis unfolding service_score_def matchHostPattern_tier
    by (cases "svc_port s"; cases "host_part s = host"; cases "wildcard_covers (host_part s) host")
      (simp_all add: serves_def score_of_def HostTierExact_def HostTierWildcard_def)
qed

section \<open>Properties\<close>

text \<open>
  Claim C16. \<open>MatchService\<close> returns the most specific service that serves a request, in the
  documented sense: nothing exactly when no declared service serves it; otherwise a declared
  service that serves it, such that no other service that serves it is more specific (exact
  host before wildcard, then a given port before none, then the longer literal path), and that is
  strictly more specific than every one of them declared before it. The score reports whether
  the host was exact and whether the port was given.
\<close>

theorem match_service_most_specific:
  "case MatchService host port path ss of
     None \<Rightarrow> (\<forall>s \<in> set ss. \<not> serves host port path s)
   | Some (s, sc) \<Rightarrow>
       DeclOrder sc < length ss \<and> s = ss ! DeclOrder sc \<and> serves host port path s
       \<and> (HostTier sc = HostTierExact \<longleftrightarrow> host_part s = host) \<and> (PortSpecific sc \<longleftrightarrow> svc_port s \<noteq> None)
       \<and> (\<forall>j < length ss. serves host port path (ss ! j) \<longrightarrow>
             \<not> more_specific host (ss ! j) s \<and> (j < DeclOrder sc \<longrightarrow> more_specific host s (ss ! j)))"
proof (cases "MatchService host port path ss")
  case None
  then have "\<forall>s \<in> set ss. \<not> serves host port path s"
    by (auto simp: MatchService_None_iff service_score_serves in_set_conv_nth split: if_splits)
  with None show ?thesis by simp
next
  case (Some w)
  obtain s sc where w: "w = (s, sc)" by fastforce
  define i where "i = DeclOrder sc"
  from MatchService_Some [OF Some [unfolded w]] have i: "i < length ss" "s = ss ! i"
    and m: "service_score host port path i s = Some sc"
    and best: "\<And>j sc'. j < length ss \<Longrightarrow> service_score host port path j (ss ! j) = Some sc' \<Longrightarrow>
      \<not> Better sc' sc \<and> (j < i \<longrightarrow> Better sc sc')"
    unfolding i_def by blast+
  have sv: "serves host port path s" and sc: "sc = score_of host i s"
    using m unfolding service_score_serves by (metis option.distinct(1), metis option.distinct(1) option.inject)
  have "\<not> more_specific host (ss ! j) s \<and> (j < i \<longrightarrow> more_specific host s (ss ! j))"
    if "j < length ss" "serves host port path (ss ! j)" for j
    using best [of j "score_of host j (ss ! j)"] that unfolding sc Better_score_of service_score_serves by simp
  moreover have "(HostTier sc = HostTierExact \<longleftrightarrow> host_part s = host) \<and> (PortSpecific sc \<longleftrightarrow> svc_port s \<noteq> None)"
    unfolding sc by (simp add: score_of_def HostTierExact_def)
  ultimately show ?thesis using Some w i sv unfolding i_def by simp
qed

text \<open>A wildcard, the exact host with a path and the exact host alone: the second is chosen.\<close>

definition three_services :: "service list" where
  "three_services = [plain_service ''wild'' ''*.slack.com'', (plain_service ''api'' ''a.slack.com'')\<lparr>svc_path := ''/api/*''\<rparr>,
     plain_service ''all'' ''a.slack.com'']"

theorem match_service_most_specific_witness:
  "MatchService ''a.slack.com'' 443 ''/api/x'' three_services = Some (three_services ! 1, \<lparr>HostTier = 2, PortSpecific = False, PathLiteralLen = 5, DeclOrder = 1\<rparr>)
   \<and> serves ''a.slack.com'' 443 ''/api/x'' (three_services ! 2)
   \<and> \<not> more_specific ''a.slack.com'' (three_services ! 2) (three_services ! 1) \<and> more_specific ''a.slack.com'' (three_services ! 1) (three_services ! 0)"
proof -
  have m: "MatchService ''a.slack.com'' 443 ''/api/x'' three_services = Some (three_services ! 1, \<lparr>HostTier = 2, PortSpecific = False, PathLiteralLen = 5, DeclOrder = 1\<rparr>)"
    by code_simp
  have "service_score ''a.slack.com'' 443 ''/api/x'' 0 (three_services ! 0) \<noteq> None" "service_score ''a.slack.com'' 443 ''/api/x'' 2 (three_services ! 2) \<noteq> None"
    by code_simp+
  then have s: "serves ''a.slack.com'' 443 ''/api/x'' (three_services ! 0)" "serves ''a.slack.com'' 443 ''/api/x'' (three_services ! 2)"
    unfolding service_score_serves by metis+
  have l: "length three_services = 3" by code_simp
  have "\<forall>j < length three_services. serves ''a.slack.com'' 443 ''/api/x'' (three_services ! j) \<longrightarrow>
      \<not> more_specific ''a.slack.com'' (three_services ! j) (three_services ! 1) \<and> (j < 1 \<longrightarrow> more_specific ''a.slack.com'' (three_services ! 1) (three_services ! j))"
    using match_service_most_specific [where host = "''a.slack.com''" and port = 443 and path = "''/api/x''" and ss = three_services] unfolding m option.case prod.case match_score.simps by blast
  then have "serves ''a.slack.com'' 443 ''/api/x'' (three_services ! 2) \<longrightarrow> \<not> more_specific ''a.slack.com'' (three_services ! 2) (three_services ! 1)"
    "serves ''a.slack.com'' 443 ''/api/x'' (three_services ! 0) \<longrightarrow> more_specific ''a.slack.com'' (three_services ! 1) (three_services ! 0)"
    unfolding l by (auto dest: spec [where x = 2] spec [where x = 0])
  with m s show ?thesis by simp
qed

text \<open>
  Claim C23. In a configuration that validates, the inline form a service is stored in
  (\<open>host:port/path\<close>) splits back into exactly its host, path and port.
\<close>

theorem matcher_pattern_roundtrip:
  assumes "Validate devMode cfg = None" and "s \<in> set (cfg_services cfg)"
  shows "SplitInlineHost (MatcherPattern s) [] = (svc_host s, svc_path s, svc_port s)"
proof -
  from assms have "service_ok devMode s"
    by (auto simp: Validate_def validate_services_iff split: if_splits)
  then show ?thesis by (rule SplitInlineHost_MatcherPattern)
qed

theorem matcher_pattern_roundtrip_witness:
  "SplitInlineHost ''corp.example.com:3000/api/*'' [] = (''corp.example.com'', ''/api/*'', Some 3000)"
proof -
  let ?s = "(plain_service ''corp'' ''corp.example.com'')\<lparr>svc_path := ''/api/*'', svc_port := Some 3000\<rparr>"
  let ?cfg = "\<lparr>cfg_vault = ''v'', cfg_services = [?s]\<rparr>"
  have "Validate False ?cfg = None" by code_simp
  from matcher_pattern_roundtrip [OF this, of ?s]
  have "SplitInlineHost (MatcherPattern ?s) [] = (svc_host ?s, svc_path ?s, svc_port ?s)" by simp
  moreover have "MatcherPattern ?s = ''corp.example.com:3000/api/*''" by code_simp
  ultimately show ?thesis by (simp add: plain_service_def)
qed

text \<open>
  Claim C18. When the fixed-query bindings validate, a request for the exact host and path of a
  service with a fixed query, on a port that service accepts, is served by that very
  service: no other rule can take the request and drop the fixed parameters.
\<close>

theorem fixed_query_unambiguous:
  assumes "ValidateFixedQueryBindings ss = None" and "i < length ss" and "svc_fixed_query (ss ! i) \<noteq> None"
    and "CHR '':'' \<notin> set (svc_host (ss ! i))" and "\<forall>p. svc_port (ss ! i) = Some p \<longrightarrow> port = p"
  shows "\<exists>sc. MatchService (svc_host (ss ! i)) port (svc_path (ss ! i)) ss = Some (ss ! i, sc)"
  using assms by (rule fixed_query_match)

theorem fixed_query_unambiguous_witness:
  "\<exists>sc. MatchService ''api.example.com'' 443 ''/v1/list''
      [plain_service ''other'' ''*.example.org'',
       (plain_service ''fixed'' ''api.example.com'')\<lparr>svc_path := ''/v1/list'', svc_fixed_query := Some [(''limit'', ''5'')]\<rparr>]
    = Some ((plain_service ''fixed'' ''api.example.com'')\<lparr>svc_path := ''/v1/list'', svc_fixed_query := Some [(''limit'', ''5'')]\<rparr>, sc)"
proof -
  let ?s = "(plain_service ''fixed'' ''api.example.com'')\<lparr>svc_path := ''/v1/list'', svc_fixed_query := Some [(''limit'', ''5'')]\<rparr>"
  let ?ss = "[plain_service ''other'' ''*.example.org'', ?s]"
  have v: "ValidateFixedQueryBindings ?ss = None" by code_simp
  show ?thesis
    using fixed_query_unambiguous [OF v, of 1 443] by (simp add: plain_service_def)
qed

end
