(* ===== verification/Slugs.thy ===== *)
theory Slugs
  imports Broker
begin

text \<open>
  Service names: \<open>Slugify\<close>, \<open>DisambiguateSlug\<close> and the assignment of names to unnamed
  services of \<open>internal/broker/broker.go\<close>, with the proof that what they produce passes
  \<open>ValidateSlug\<close> and never collides.
\<close>

section \<open>Operations\<close>

text \<open>\<open>strings.ReplaceAll\<close>; an empty \<open>old\<close> matches before every rune and at the end.\<close>

function replace_scan :: "string \<Rightarrow> string \<Rightarrow> string \<Rightarrow> string" where
  "replace_scan old new s =
     (case s of [] \<Rightarrow> []
      | c # t \<Rightarrow> if old \<noteq> [] \<and> HasPrefix s old then new @ replace_scan old new (drop (length old) s)
                 else c # replace_scan old new t)"
  by pat_completeness auto
termination
  by (relation "measure (\<lambda>(old, new, s). length s)") auto

declare replace_scan.simps [simp del]

definition ReplaceAll :: "string \<Rightarrow> string \<Rightarrow> string \<Rightarrow> string" where
  "ReplaceAll s old new =
     (if old = [] then concat (map (\<lambda>(_, bs). new @ bs) (rune_chunks s)) @ new else replace_scan old new s)"

lemma replace_scan_Nil [simp]: "replace_scan old new [] = []"
  by (simp add: replace_scan.simps)

lemma replace_scan_hit: "old \<noteq> [] \<Longrightarrow> replace_scan old new (old @ t) = new @ replace_scan old new t"
proof -
  assume "old \<noteq> []"
  then obtain a l where al: "old @ t = a # l" by (cases old) auto
  have "HasPrefix (a # l) old" using al by (metis HasPrefix_append)
  moreover have "drop (length old) (a # l) = t" using al by (metis append_eq_conv_conj)
  ultimately show ?thesis
    using \<open>old \<noteq> []\<close> unfolding al by (simp add: replace_scan.simps [of old new "a # l"])
qed

lemma replace_scan_miss:
  "old = [] \<or> \<not> HasPrefix (c # t) old \<Longrightarrow> replace_scan old new (c # t) = c # replace_scan old new t"
  by (auto simp: replace_scan.simps [of old new "c # t"])

lemma replace_scan_induct [case_names Nil hit miss]:
  assumes "P []"
    and "\<And>t. old \<noteq> [] \<Longrightarrow> P t \<Longrightarrow> P (old @ t)"
    and "\<And>c t. old = [] \<or> \<not> HasPrefix (c # t) old \<Longrightarrow> P t \<Longrightarrow> P (c # t)"
  shows "P (s :: string)"
proof (induction s rule: length_induct)
  case (1 s)
  show ?case
  proof (cases s)
    case (Cons c t)
    show ?thesis
    proof (cases "old \<noteq> [] \<and> HasPrefix s old")
      case True
      then obtain u where u: "s = old @ u" by (auto simp: HasPrefix_iff)
      with True 1 assms(2) show ?thesis by simp
    next
      case False
      with Cons 1 assms(3) show ?thesis by simp
    qed
  qed (use assms(1) in simp)
qed

lemma replace_scan_length: "length new \<le> length old \<Longrightarrow> length (replace_scan old new s) \<le> length s"
  by (induction s rule: replace_scan_induct [of _ old]) (auto simp: replace_scan_hit replace_scan_miss)

lemma str_contains_Cons: "p \<noteq> [] \<Longrightarrow> str_contains (c # s) p \<longleftrightarrow> HasPrefix (c # s) p \<or> str_contains s p"
  by (auto simp: str_contains_def)

lemma replace_scan_shrinks:
  assumes "length new < length old" and "str_contains s old"
  shows "length (replace_scan old new s) < length s"
  using assms(2)
proof (induction s rule: replace_scan_induct [of _ old])
  case Nil
  with assms(1) show ?case by (auto simp: str_contains_def split: if_splits)
next
  case (hit t)
  have "length (replace_scan old new t) \<le> length t" using assms(1) by (simp add: replace_scan_length)
  with hit assms(1) show ?case by (simp add: replace_scan_hit)
next
  case (miss c t)
  moreover from assms(1) have "old \<noteq> []" by auto
  ultimately show ?case by (auto simp: replace_scan_miss str_contains_Cons)
qed

text \<open>Replacing \<open>--\<close> by \<open>-\<close> until none is left.\<close>

function collapse :: "string \<Rightarrow> string" where
  "collapse raw = (if str_contains raw ''--'' then collapse (ReplaceAll raw ''--'' ''-'') else raw)"
  by pat_completeness auto
termination
  by (relation "measure length") (auto simp: ReplaceAll_def intro: replace_scan_shrinks)

declare collapse.simps [simp del]

definition slug_bytes :: "string \<Rightarrow> string" where
  "slug_bytes s = map (\<lambda>r. if (97 \<le> r \<and> r \<le> 122) \<or> (48 \<le> r \<and> r \<le> 57) then char_of r else CHR ''-'')
     (lower_runes s)"

definition Slugify :: "string \<Rightarrow> string \<Rightarrow> int option \<Rightarrow> string" where
  "Slugify host path port =
     (let raw0 = slug_bytes host @ (case port of Some p \<Rightarrow> slug_bytes (itoa p) | None \<Rightarrow> []) @ slug_bytes path;
          raw1 = trim_both (\<lambda>c. c = CHR ''-'') (collapse raw0);
          raw = (if length raw1 > 64 then trim_right (\<lambda>c. c = CHR ''-'') (take 64 raw1) else raw1)
      in if length raw < 3 then (if raw = [] then ''svc'' else raw @ ''-svc'') else raw)"

text \<open>The candidate for a number, and the search for the first one not taken.\<close>

definition slug_candidate :: "string \<Rightarrow> nat \<Rightarrow> string" where
  "slug_candidate base n =
     (let suf = ''-'' @ show_nat n;
          trunc = (if length base + length suf > 64
                   then trim_right (\<lambda>c. c = CHR ''-'') (take (64 - length suf) base) else base)
      in trunc @ suf)"

fun disambiguate :: "nat \<Rightarrow> string \<Rightarrow> string list \<Rightarrow> string \<Rightarrow> nat \<Rightarrow> string option" where
  "disambiguate 0 base taken name n = None"
| "disambiguate (Suc fuel) base taken name n =
     (if name \<in> set taken then disambiguate fuel base taken (slug_candidate base n) (Suc n) else Some name)"

text \<open>The loop visits at most one name per taken name, so this fuel is always enough.\<close>

definition DisambiguateSlug :: "string \<Rightarrow> string list \<Rightarrow> string" where
  "DisambiguateSlug base taken =
     (case disambiguate (length taken + 2) base taken base 2 of Some name \<Rightarrow> name | None \<Rightarrow> [])"

definition hp_matches :: "service list \<Rightarrow> service \<Rightarrow> service list" where
  "hp_matches existing svc = filter (\<lambda>e. svc_host e = svc_host svc \<and> svc_path e = svc_path svc) existing"

text \<open>First pass: an unnamed service adopts the name of the only existing one with its host and path.\<close>

definition adopt_name :: "service list \<Rightarrow> service \<Rightarrow> service" where
  "adopt_name existing svc =
     (if svc_name svc \<noteq> [] then svc
      else (case hp_matches existing svc of [e] \<Rightarrow> svc\<lparr>svc_name := svc_name e\<rparr> | _ \<Rightarrow> svc))"

text \<open>Second pass: the others are named from their host, path and port.\<close>

fun name_loop :: "string list \<Rightarrow> service list \<Rightarrow> service list" where
  "name_loop taken [] = []"
| "name_loop taken (svc # ss) =
     (if svc_name svc \<noteq> [] then svc # name_loop taken ss
      else
        (let name = DisambiguateSlug (Slugify (svc_host svc) (svc_path svc) (svc_port svc)) taken
         in svc\<lparr>svc_name := name\<rparr> # name_loop (name # taken) ss))"

definition AssignSlugNamesAvoiding :: "service list \<Rightarrow> service list \<Rightarrow> service list" where
  "AssignSlugNamesAvoiding services existing =
     (if list_all (\<lambda>s. svc_name s \<noteq> []) services then services
      else
        (let adopted = map (adopt_name existing) services;
             taken = filter (\<lambda>n. n \<noteq> []) (map svc_name existing) @ filter (\<lambda>n. n \<noteq> []) (map svc_name adopted)
         in name_loop taken adopted))"

definition AssignSlugNames :: "service list \<Rightarrow> service list" where
  "AssignSlugNames services = AssignSlugNamesAvoiding services []"

section \<open>No two hyphens in a row\<close>

definition hyphen_ok :: "string \<Rightarrow> bool" where
  "hyphen_ok s \<longleftrightarrow> successively (\<lambda>a b. \<not> (a = CHR ''-'' \<and> b = CHR ''-'')) s"

lemma hyphen_ok_iff: "hyphen_ok s \<longleftrightarrow> \<not> str_contains s ''--''"
proof (induction s)
  case Nil
  then show ?case by (simp add: str_contains_def hyphen_ok_def)
next
  case (Cons c s)
  then show ?case by (cases s) (auto simp: str_contains_Cons HasPrefix_Cons hyphen_ok_def)
qed

lemma collapse_hyphen_ok: "hyphen_ok (collapse raw)"
  by (induction raw rule: collapse.induct) (metis collapse.simps hyphen_ok_iff)

lemma set_replace_scan: "set (replace_scan old new s) \<subseteq> set new \<union> set s"
  by (induction s rule: replace_scan_induct [of _ old]) (auto simp: replace_scan_hit replace_scan_miss)

lemma set_collapse: "set (collapse raw) \<subseteq> insert (CHR ''-'') (set raw)"
proof (induction raw rule: collapse.induct)
  case (1 raw)
  show ?case
  proof (cases "str_contains raw ''--''")
    case True
    then have "set (collapse raw) \<subseteq> insert (CHR ''-'') (set (ReplaceAll raw ''--'' ''-''))"
      using 1 by (subst collapse.simps) simp
    moreover have "set (ReplaceAll raw ''--'' ''-'') \<subseteq> insert (CHR ''-'') (set raw)"
      using set_replace_scan [of "''--''" "''-''" raw] by (simp add: ReplaceAll_def)
    ultimately show ?thesis by blast
  next
    case False
    then show ?thesis by (subst collapse.simps) auto
  qed
qed

section \<open>\<open>Slugify\<close> always yields a valid slug\<close>

definition slug_byte :: "char \<Rightarrow> bool" where
  "slug_byte c \<longleftrightarrow> is_lower c \<or> is_digit c \<or> c = CHR ''-''"

lemma slug_bytes_ok: "list_all slug_byte (slug_bytes s)"
  by (auto simp: slug_bytes_def list_all_iff slug_byte_def char_class_defs)

text \<open>A text that is valid but for its length.\<close>

definition slug_core :: "string \<Rightarrow> bool" where
  "slug_core s \<longleftrightarrow> s \<noteq> [] \<and> hd s \<noteq> CHR ''-'' \<and> last s \<noteq> CHR ''-'' \<and> hyphen_ok s \<and> list_all slug_byte s"

lemma slug_byte_char: "slug_byte c \<Longrightarrow> slug_char (byte_of c) \<and> byte_of c < 128"
  by (auto simp: slug_byte_def slug_char_def char_class_defs)

lemma slug_byte_runes:
  assumes "list_all slug_byte s"
  shows "\<not> list_ex (\<lambda>r. \<not> slug_char r) (runes s)"
proof -
  have "ascii s" using assms slug_byte_char by (simp add: ascii_def list_all_iff)
  then show ?thesis using assms slug_byte_char
    by (simp add: runes_ascii list_all_iff list_ex_iff)
qed

lemma ValidateSlug_core:
  "slug_core s \<Longrightarrow> 3 \<le> length s \<Longrightarrow> length s \<le> 64 \<Longrightarrow> ValidateSlug s = None"
  using slug_byte_runes [of s] by (auto simp: ValidateSlug_def slug_core_def hyphen_ok_iff)

lemma hyphen_ok_append:
  "hyphen_ok (xs @ ys) \<longleftrightarrow>
     hyphen_ok xs \<and> hyphen_ok ys \<and> (xs = [] \<or> ys = [] \<or> \<not> (last xs = CHR ''-'' \<and> hd ys = CHR ''-''))"
  by (auto simp: hyphen_ok_def successively_append_iff)

lemma slug_core_trunc:
  assumes "slug_core s" and "0 < n"
  shows "slug_core (trim_right (\<lambda>c. c = CHR ''-'') (take n s))"
proof -
  let ?t = "trim_right (\<lambda>c. c = CHR ''-'') (take n s)"
  obtain r where r: "take n s = ?t @ r" "\<forall>c \<in> set r. c = CHR ''-''"
    using trim_right_prefix by blast
  then have s: "s = ?t @ (r @ drop n s)" by (metis append.assoc append_take_drop_id)
  have "?t \<noteq> []"
  proof
    assume "?t = []"
    with r assms have "hd s = CHR ''-''"
      by (metis append_Nil gr_implies_not0 hd_in_set hd_take slug_core_def take_eq_Nil)
    with assms show False by (simp add: slug_core_def)
  qed
  moreover have "hyphen_ok ?t" using assms(1) s by (metis hyphen_ok_append slug_core_def)
  moreover have "list_all slug_byte ?t" using assms(1) s by (metis list_all_append_iff slug_core_def)
  moreover have "hd ?t = hd s" using s \<open>?t \<noteq> []\<close> by (metis hd_append)
  ultimately show ?thesis
    using assms(1) trim_right_last by (simp add: slug_core_def)
qed

lemma trim_both_core:
  assumes "hyphen_ok s" and "list_all slug_byte s" and "trim_both (\<lambda>c. c = CHR ''-'') s \<noteq> []"
  shows "slug_core (trim_both (\<lambda>c. c = CHR ''-'') s)"
proof -
  let ?P = "\<lambda>c. c = CHR ''-''"
  let ?d = "dropWhile ?P s"
  obtain r where r: "?d = trim_both ?P s @ r" using trim_right_prefix unfolding trim_both_def by blast
  have s: "s = takeWhile ?P s @ trim_both ?P s @ r" using r by (metis takeWhile_dropWhile_id)
  have "?d \<noteq> []" using assms(3) r by auto
  then have "hd ?d \<noteq> CHR ''-''" using hd_dropWhile [of ?P s] by blast
  moreover have "hd ?d = hd (trim_both ?P s)" using r assms(3) by (metis hd_append)
  moreover have "hyphen_ok (trim_both ?P s)" using assms(1) s by (metis hyphen_ok_append)
  moreover have "list_all slug_byte (trim_both ?P s)" using assms(2) s by (metis list_all_append_iff)
  moreover have "last (trim_both ?P s) \<noteq> CHR ''-''"
    using assms(3) trim_right_last unfolding trim_both_def by blast
  ultimately show ?thesis using assms(3) by (simp add: slug_core_def)
qed

lemma trim_right_length: "length (trim_right P s) \<le> length s"
  using trim_right_prefix [of s P] by (metis le_add1 length_append)

lemma slug_core_append:
  assumes "slug_core s" and "hyphen_ok t" and "list_all slug_byte t" and "t \<noteq> []" and "last t \<noteq> CHR ''-''"
  shows "slug_core (s @ t)"
  using assms by (auto simp: slug_core_def hyphen_ok_append)

lemma Slugify_valid_aux: "ValidateSlug (Slugify host path port) = None"
proof -
  let ?P = "\<lambda>c. c = CHR ''-''"
  define raw0 where "raw0 = slug_bytes host @ (case port of Some p \<Rightarrow> slug_bytes (itoa p) | None \<Rightarrow> []) @ slug_bytes path"
  define raw1 where "raw1 = trim_both ?P (collapse raw0)"
  define raw where "raw = (if length raw1 > 64 then trim_right ?P (take 64 raw1) else raw1)"
  have S: "Slugify host path port = (if length raw < 3 then (if raw = [] then ''svc'' else raw @ ''-svc'') else raw)"
    by (simp add: Slugify_def raw_def raw1_def raw0_def Let_def)
  have "list_all slug_byte raw0"
    by (auto simp: raw0_def slug_bytes_ok split: option.splits)
  then have "list_all slug_byte (collapse raw0)"
    using set_collapse [of raw0] by (auto simp: list_all_iff slug_byte_def)
  then have core1: "slug_core raw1" if "raw1 \<noteq> []"
    using that trim_both_core collapse_hyphen_ok unfolding raw1_def by blast
  have core: "slug_core raw" if "raw \<noteq> []"
  proof (cases "length raw1 > 64")
    case True
    then have "raw1 \<noteq> []" by auto
    then have "slug_core (trim_right ?P (take 64 raw1))" using core1 by (intro slug_core_trunc) auto
    with True show ?thesis by (simp add: raw_def)
  qed (use that core1 in \<open>simp add: raw_def\<close>)
  have len: "length raw \<le> 64"
    using trim_right_length [of ?P "take 64 raw1"] by (auto simp: raw_def)
  consider "raw = []" | "raw \<noteq> []" "length raw < 3" | "3 \<le> length raw" by linarith
  then show ?thesis
  proof cases
    case 1
    then show ?thesis
      unfolding S by (auto intro!: ValidateSlug_core simp: slug_core_def slug_byte_def hyphen_ok_def char_class_defs)
  next
    case 2
    then have "slug_core (raw @ ''-svc'')"
      using core by (intro slug_core_append) (auto simp: slug_byte_def hyphen_ok_def char_class_defs)
    with 2 show ?thesis unfolding S by (auto intro!: ValidateSlug_core simp: Suc_le_eq)
  next
    case 3
    then have "raw \<noteq> []" by auto
    with 3 core len show ?thesis unfolding S by (auto intro!: ValidateSlug_core)
  qed
qed


section \<open>Disambiguation ends, and ends on a free valid slug\<close>

lemma split_last_digits: 
  assumes "a @ CHR ''-'' # show_nat m = b @ CHR ''-'' # show_nat n"
  shows "m = n"
proof -
  have h: "CHR ''-'' \<notin> set (show_nat k)" for k
    using show_nat_set [of "CHR ''-''" k] by (auto simp: is_digit_def)
  have "last_index_byte (CHR ''-'') (a @ CHR ''-'' # show_nat m) = Some (length a)"
    "last_index_byte (CHR ''-'') (b @ CHR ''-'' # show_nat n) = Some (length b)"
    using h by (simp_all add: last_index_byte_append)
  with assms have "length a = length b" by simp
  with assms have "show_nat m = show_nat n" by simp
  then show ?thesis by (simp add: show_nat_inject)
qed

lemma slug_candidate_inject: "slug_candidate base m = slug_candidate base n \<Longrightarrow> m = n"
  unfolding slug_candidate_def Let_def by (auto dest: split_last_digits)

text \<open>What the loop returns: the first candidate that is not taken.\<close>

definition nth_name :: "string \<Rightarrow> nat \<Rightarrow> string" where
  "nth_name base k = (if k = 1 then base else slug_candidate base k)"

lemma disambiguate_result:
  "disambiguate fuel base taken (nth_name base k) (Suc k) = Some name \<Longrightarrow> 1 \<le> k \<Longrightarrow>
     \<exists>j \<ge> k. j < k + fuel \<and> name = nth_name base j \<and> name \<notin> set taken \<and> (\<forall>i \<in> {k..<j}. nth_name base i \<in> set taken)"
proof (induction fuel arbitrary: k)
  case (Suc fuel)
  show ?case
  proof (cases "nth_name base k \<in> set taken")
    case True
    with Suc.prems have "disambiguate fuel base taken (nth_name base (Suc k)) (Suc (Suc k)) = Some name"
      by (simp add: nth_name_def)
    from Suc.IH [OF this] obtain j where j: "Suc k \<le> j" "j < Suc k + fuel" "name = nth_name base j" "name \<notin> set taken"
      "\<forall>i \<in> {Suc k..<j}. nth_name base i \<in> set taken" by auto
    have "\<forall>i \<in> {k..<j}. nth_name base i \<in> set taken"
      using j(5) True by (metis atLeastLessThan_iff le_neq_implies_less Suc_leI)
    with j show ?thesis by (intro exI [of _ j]) auto
  next
    case False
    with Suc.prems show ?thesis by (intro exI [of _ k]) auto
  qed
qed simp

lemma disambiguate_None:
  "disambiguate fuel base taken (nth_name base k) (Suc k) = None \<Longrightarrow> 1 \<le> k \<Longrightarrow>
     \<forall>i \<in> {k..<k + fuel}. nth_name base i \<in> set taken"
proof (induction fuel arbitrary: k)
  case (Suc fuel)
  then have t: "nth_name base k \<in> set taken" by (auto split: if_splits)
  with Suc.prems have "disambiguate fuel base taken (nth_name base (Suc k)) (Suc (Suc k)) = None"
    by (simp add: nth_name_def)
  from Suc.IH [OF this] have "\<forall>i \<in> {Suc k..<Suc k + fuel}. nth_name base i \<in> set taken" by simp
  with t show ?case by (metis add_Suc add_Suc_right atLeastLessThan_iff le_neq_implies_less Suc_leI)
qed simp

lemma disambiguate_enough:
  "\<exists>name. disambiguate (length taken + 2) base taken base 2 = Some name"
proof (rule ccontr)
  assume "\<not> ?thesis"
  then have "disambiguate (length taken + 2) base taken (nth_name base 1) (Suc 1) = None"
    by (simp add: nth_name_def numeral_2_eq_2)
  from disambiguate_None [OF this]
  have "nth_name base ` {2..<length taken + 3} \<subseteq> set taken" by auto
  then have "card (nth_name base ` {2..<length taken + 3}) \<le> length taken"
    by (meson List.finite_set card_length card_mono le_trans)
  moreover have "inj_on (nth_name base) {2..<length taken + 3}"
    by (rule inj_onI) (auto simp: nth_name_def dest: slug_candidate_inject split: if_splits)
  ultimately show False by (simp add: card_image)
qed

lemma DisambiguateSlug_result:
  "\<exists>k. 1 \<le> k \<and> k \<le> length taken + 2 \<and> DisambiguateSlug base taken = nth_name base k
     \<and> DisambiguateSlug base taken \<notin> set taken \<and> (\<forall>i \<in> {1..<k}. nth_name base i \<in> set taken)"
proof -
  obtain name where n: "disambiguate (length taken + 2) base taken base 2 = Some name"
    using disambiguate_enough by blast
  then have "disambiguate (length taken + 2) base taken (nth_name base 1) (Suc 1) = Some name"
    by (simp add: nth_name_def numeral_2_eq_2)
  from disambiguate_result [OF this] n show ?thesis by (auto simp: DisambiguateSlug_def)
qed

lemma show_nat_length: "n < 10 ^ Suc k \<Longrightarrow> length (show_nat n) \<le> Suc k"
proof (induction k arbitrary: n)
  case 0
  then show ?case by (simp add: show_nat.simps [of n])
next
  case (Suc k)
  show ?case
  proof (cases "n < 10")
    case True
    then show ?thesis by (simp add: show_nat.simps [of n])
  next
    case False
    from Suc.prems have "n div 10 < 10 ^ Suc k" by (simp add: less_mult_imp_div_less)
    from Suc.IH [OF this] False show ?thesis by (simp add: show_nat.simps [of n])
  qed
qed

lemma ValidateSlug_imp_core:
  assumes "ValidateSlug s = None"
  shows "slug_core s \<and> 3 \<le> length s \<and> length s \<le> 64"
proof -
  have "list_all slug_byte s"
    unfolding list_all_iff
  proof
    fix c assume "c \<in> set s"
    show "slug_byte c"
    proof (cases "byte_of c < 128")
      case True
      with \<open>c \<in> set s\<close> have "byte_of c \<in> set (runes s)" by (rule runes_low_byte)
      with assms have "slug_char (byte_of c)"
        by (auto simp: ValidateSlug_def list_ex_iff split: if_splits)
      moreover have "byte_of c = 45 \<Longrightarrow> c = CHR ''-''" using byte_of_inject [of c "CHR ''-''"] by simp
      ultimately show ?thesis by (auto simp: slug_char_def slug_byte_def char_class_defs)
    next
      case False
      obtain r bs where rb: "(r, bs) \<in> set (rune_chunks s)" "c \<in> set bs"
        using rune_chunk_of_byte [OF \<open>c \<in> set s\<close>] by blast
      then have "r \<in> set (runes s)" by (force simp: runes_def)
      with assms have "slug_char r" by (auto simp: ValidateSlug_def list_ex_iff split: if_splits)
      then have "r < 128" by (auto simp: slug_char_def)
      with rb False rune_chunk_high [OF rb] show ?thesis by simp
    qed
  qed
  with assms show ?thesis
    by (auto simp: ValidateSlug_def slug_core_def hyphen_ok_iff split: if_splits)
qed

lemma hyphen_digits_ok: "hyphen_ok (CHR ''-'' # show_nat n) \<and> last (CHR ''-'' # show_nat n) \<noteq> CHR ''-''
    \<and> list_all slug_byte (CHR ''-'' # show_nat n)"
proof -
  have d: "c \<in> set (show_nat n) \<Longrightarrow> c \<noteq> CHR ''-'' \<and> slug_byte c" for c
    using show_nat_set [of c n] by (auto simp: is_digit_def slug_byte_def)
  have ne: "show_nat n \<noteq> []" using show_nat_digits by blast
  have "\<not> str_contains (show_nat n) ''--''" using d by (force simp: str_contains_iff)
  moreover have "\<not> HasPrefix (CHR ''-'' # show_nat n) ''--''"
    using d ne by (cases "show_nat n") (auto simp: HasPrefix_Cons)
  ultimately have "hyphen_ok (CHR ''-'' # show_nat n)" by (simp add: hyphen_ok_iff str_contains_Cons)
  with d ne show ?thesis by (auto simp: list_all_iff slug_byte_def)
qed

lemma slug_candidate_valid:
  assumes "ValidateSlug base = None" and "n < 10 ^ 19"
  shows "ValidateSlug (slug_candidate base n) = None"
proof -
  let ?suf = "CHR ''-'' # show_nat n"
  have len: "length ?suf \<le> 20" "2 \<le> length ?suf"
    using show_nat_length [of n 18] assms(2) show_nat_digits [of n] by (simp_all add: Suc_le_eq)
  note core = ValidateSlug_imp_core [OF assms(1)]
  define trunc where "trunc = (if length base + length ?suf > 64
      then trim_right (\<lambda>c. c = CHR ''-'') (take (64 - length ?suf) base) else base)"
  have t: "slug_core trunc"
    using core len slug_core_trunc [of base "64 - length ?suf"] by (auto simp: trunc_def)
  have "length trunc + length ?suf \<le> 64"
    using trim_right_length [of "\<lambda>c. c = CHR ''-''" "take (64 - length ?suf) base"] len
    by (auto simp: trunc_def)
  moreover have "trunc \<noteq> []" using t by (simp add: slug_core_def)
  moreover have "slug_core (trunc @ ?suf)" using t hyphen_digits_ok by (intro slug_core_append) auto
  moreover have "3 \<le> length (trunc @ ?suf)" using len \<open>trunc \<noteq> []\<close> by (cases trunc) auto
  ultimately have "ValidateSlug (trunc @ ?suf) = None" by (intro ValidateSlug_core) auto
  then show ?thesis by (simp add: slug_candidate_def trunc_def Let_def)
qed

section \<open>Naming the unnamed\<close>

definition named_in :: "string list \<Rightarrow> service list \<Rightarrow> bool" where
  "named_in taken ss \<longleftrightarrow> (\<forall>s \<in> set ss. svc_name s \<noteq> [] \<longrightarrow> svc_name s \<in> set taken)"

lemma length_name_loop [simp]: "length (name_loop taken ss) = length ss"
  by (induction taken ss rule: name_loop.induct) (auto simp: Let_def)

lemma name_loop_named: "i < length ss \<Longrightarrow> svc_name (ss ! i) \<noteq> [] \<Longrightarrow> name_loop taken ss ! i = ss ! i"
proof (induction taken ss arbitrary: i rule: name_loop.induct)
  case (2 taken svc ss)
  then show ?case by (cases i) (auto simp: Let_def)
qed simp

lemma name_loop_only_name:
  "i < length ss \<Longrightarrow> (name_loop taken ss ! i)\<lparr>svc_name := svc_name (ss ! i)\<rparr> = ss ! i"
proof (induction taken ss arbitrary: i rule: name_loop.induct)
  case (2 taken svc ss)
  then show ?case by (cases i) (auto simp: Let_def)
qed simp

lemma DisambiguateSlug_fresh: "DisambiguateSlug base taken \<notin> set taken"
  using DisambiguateSlug_result by blast

lemma name_loop_fresh:
  "named_in taken ss \<Longrightarrow> i < length ss \<Longrightarrow> svc_name (ss ! i) = [] \<Longrightarrow>
     svc_name (name_loop taken ss ! i) \<notin> set taken
     \<and> (\<forall>j < length ss. j \<noteq> i \<longrightarrow> svc_name (name_loop taken ss ! j) \<noteq> svc_name (name_loop taken ss ! i))"
proof (induction ss arbitrary: taken i)
  case (Cons svc ss)
  from Cons.prems(1) have tl: "named_in taken ss" "named_in (n # taken) ss" for n
    by (auto simp: named_in_def)
  show ?case
  proof (cases "svc_name svc = []")
    case True
    define nm where "nm = DisambiguateSlug (Slugify (svc_host svc) (svc_path svc) (svc_port svc)) taken"
    have fresh: "nm \<notin> set taken" by (simp add: nm_def DisambiguateSlug_fresh)
    have nl: "name_loop taken (svc # ss) = svc\<lparr>svc_name := nm\<rparr> # name_loop (nm # taken) ss"
      using True by (simp add: nm_def Let_def)
    have later: "svc_name (name_loop (nm # taken) ss ! j) \<noteq> nm" if "j < length ss" for j
    proof (cases "svc_name (ss ! j) = []")
      case True
      with Cons.IH [OF tl(2) that True] show ?thesis by auto
    next
      case False
      with that tl(1) have "svc_name (ss ! j) \<in> set taken" by (auto simp: named_in_def)
      with name_loop_named [OF that False] fresh show ?thesis by auto
    qed
    show ?thesis
    proof (cases i)
      case 0
      with fresh later show ?thesis unfolding nl by (auto simp: nth_Cons split: nat.splits)
    next
      case (Suc i')
      with Cons.prems Cons.IH [OF tl(2) [of nm], of i'] later [of i'] show ?thesis
        unfolding nl by (auto simp: nth_Cons split: nat.splits)
    qed
  next
    case False
    then obtain i' where i': "i = Suc i'" using Cons.prems(3) by (cases i) auto
    from False Cons.prems(1) have "svc_name svc \<in> set taken" by (auto simp: named_in_def)
    with Cons.IH [OF tl(1), of i'] Cons.prems i' False show ?thesis
      by (auto simp: nth_Cons split: nat.splits)
  qed
qed simp

lemma DisambiguateSlug_valid:
  assumes "ValidateSlug base = None" and "length taken < 10 ^ 18"
  shows "ValidateSlug (DisambiguateSlug base taken) = None"
proof -
  obtain k where k: "k \<le> length taken + 2" "DisambiguateSlug base taken = nth_name base k"
    using DisambiguateSlug_result by blast
  with assms(2) have "k < 10 ^ 19" by simp
  with assms(1) k show ?thesis by (auto simp: nth_name_def slug_candidate_valid)
qed

lemma name_loop_valid:
  "length taken + length ss < 10 ^ 18 \<Longrightarrow> i < length ss \<Longrightarrow> svc_name (ss ! i) = [] \<Longrightarrow>
     ValidateSlug (svc_name (name_loop taken ss ! i)) = None"
proof (induction taken ss arbitrary: i rule: name_loop.induct)
  case (2 taken svc ss)
  then show ?case
    by (cases i) (auto simp: Let_def DisambiguateSlug_valid Slugify_valid_aux split: if_splits)
qed simp

lemma AssignSlugNames_loop:
  "AssignSlugNames ss = name_loop (filter (\<lambda>n. n \<noteq> []) (map svc_name ss)) ss"
proof -
  have "map (adopt_name []) ss = ss" by (auto simp: adopt_name_def hp_matches_def intro: map_idI)
  moreover have "name_loop taken ss = ss" if "list_all (\<lambda>s. svc_name s \<noteq> []) ss" for taken
    using that by (induction ss) auto
  ultimately show ?thesis by (simp add: AssignSlugNames_def AssignSlugNamesAvoiding_def Let_def)
qed

section \<open>Properties\<close>

text \<open>The slug derived from any host, path and port passes \<open>ValidateSlug\<close>.\<close>

theorem Slugify_valid: "ValidateSlug (Slugify host path port) = None"
  by (rule Slugify_valid_aux)

text \<open>
  Claim C25. \<open>DisambiguateSlug\<close> ends for every set of taken names (its loop finds a free name
  within \<open>length taken + 2\<close> rounds), returns a name that is not taken, the lowest-numbered
  candidate that is free, and a valid slug whenever its base is one.
\<close>

theorem DisambiguateSlug_correct:
  assumes "ValidateSlug base = None" and "length taken < 10 ^ 18"
  shows "disambiguate (length taken + 2) base taken base 2 = Some (DisambiguateSlug base taken)
    \<and> DisambiguateSlug base taken \<notin> set taken
    \<and> ValidateSlug (DisambiguateSlug base taken) = None
    \<and> (DisambiguateSlug base taken = base \<or>
        (\<exists>k \<ge> 2. DisambiguateSlug base taken = slug_candidate base k
           \<and> base \<in> set taken \<and> (\<forall>i. 2 \<le> i \<and> i < k \<longrightarrow> slug_candidate base i \<in> set taken)))"
proof (intro conjI)
  show "disambiguate (length taken + 2) base taken base 2 = Some (DisambiguateSlug base taken)"
    using disambiguate_enough [of taken base] by (auto simp: DisambiguateSlug_def)
  show "DisambiguateSlug base taken \<notin> set taken" by (rule DisambiguateSlug_fresh)
  show "ValidateSlug (DisambiguateSlug base taken) = None"
    using assms by (rule DisambiguateSlug_valid)
  obtain k where k: "1 \<le> k" "DisambiguateSlug base taken = nth_name base k"
    "\<forall>i \<in> {1..<k}. nth_name base i \<in> set taken" using DisambiguateSlug_result by blast
  show "DisambiguateSlug base taken = base \<or> (\<exists>k \<ge> 2. DisambiguateSlug base taken = slug_candidate base k
      \<and> base \<in> set taken \<and> (\<forall>i. 2 \<le> i \<and> i < k \<longrightarrow> slug_candidate base i \<in> set taken))"
  proof (cases "k = 1")
    case True
    with k show ?thesis by (simp add: nth_name_def)
  next
    case False
    with k(1) have "2 \<le> k" by simp
    moreover have "nth_name base 1 \<in> set taken" using k(3) \<open>2 \<le> k\<close> by auto
    moreover have "\<forall>i. 2 \<le> i \<and> i < k \<longrightarrow> slug_candidate base i \<in> set taken"
    proof (intro allI impI)
      fix i assume "2 \<le> i \<and> i < k"
      with k(3) have "nth_name base i \<in> set taken" by auto
      with \<open>2 \<le> i \<and> i < k\<close> show "slug_candidate base i \<in> set taken" by (simp add: nth_name_def)
    qed
    ultimately show ?thesis using k(2) False by (auto simp: nth_name_def)
  qed
qed

theorem DisambiguateSlug_correct_witness:
  "ValidateSlug ''abc'' = None \<and> length [''abc'', ''abc-2''] < (10::nat) ^ 18
    \<and> DisambiguateSlug ''abc'' [''abc'', ''abc-2''] \<notin> set [''abc'', ''abc-2'']
    \<and> DisambiguateSlug ''abc'' [''abc'', ''abc-2''] = ''abc-3''"
proof -
  have v: "ValidateSlug ''abc'' = None" by code_simp
  have l: "length [''abc'', ''abc-2''] < (10::nat) ^ 18" by simp
  have "DisambiguateSlug ''abc'' [''abc'', ''abc-2''] = ''abc-3''" by code_simp
  with v l DisambiguateSlug_correct [OF v l] show ?thesis by simp
qed

text \<open>
  \<open>AssignSlugNames\<close> keeps every service that has a name, changes nothing but the
  name of the others, and the names it gives are valid slugs that no other service of
  the result carries.
\<close>

theorem AssignSlugNames_correct:
  assumes "2 * length ss < 10 ^ 18" and "i < length ss"
  shows "(svc_name (ss ! i) \<noteq> [] \<longrightarrow> AssignSlugNames ss ! i = ss ! i)
    \<and> (AssignSlugNames ss ! i)\<lparr>svc_name := svc_name (ss ! i)\<rparr> = ss ! i
    \<and> (svc_name (ss ! i) = [] \<longrightarrow>
         ValidateSlug (svc_name (AssignSlugNames ss ! i)) = None
         \<and> (\<forall>j < length ss. j \<noteq> i \<longrightarrow> svc_name (AssignSlugNames ss ! j) \<noteq> svc_name (AssignSlugNames ss ! i)))"
proof -
  let ?taken = "filter (\<lambda>n. n \<noteq> []) (map svc_name ss)"
  have "named_in ?taken ss" by (auto simp: named_in_def)
  moreover have "length ?taken + length ss < 10 ^ 18"
  proof -
    have "length ?taken \<le> length ss" by (metis length_filter_le length_map)
    with assms(1) show ?thesis by linarith
  qed
  ultimately show ?thesis
    unfolding AssignSlugNames_loop
    using assms(2) name_loop_named name_loop_only_name name_loop_fresh name_loop_valid by metis
qed

theorem AssignSlugNames_correct_witness:
  "svc_name (AssignSlugNames [plain_service ''a-io'' ''x.io'', plain_service [] ''a.io''] ! 1) = ''a-io-2''
    \<and> svc_name (AssignSlugNames [plain_service ''a-io'' ''x.io'', plain_service [] ''a.io''] ! 0)
        \<noteq> svc_name (AssignSlugNames [plain_service ''a-io'' ''x.io'', plain_service [] ''a.io''] ! 1)"
proof -
  have "svc_name (AssignSlugNames [plain_service ''a-io'' ''x.io'', plain_service [] ''a.io''] ! 1) = ''a-io-2''"
    by code_simp
  moreover have "2 * length [plain_service ''a-io'' ''x.io'', plain_service [] ''a.io''] < 10 ^ 18"
    "1 < length [plain_service ''a-io'' ''x.io'', plain_service [] ''a.io'']" by simp_all
  ultimately show ?thesis
    using AssignSlugNames_correct [of "[plain_service ''a-io'' ''x.io'', plain_service [] ''a.io'']" 1]
    by (simp add: plain_service_def)
qed

end
