(* ===== verification/RateTiers.thy ===== *)
theory RateTiers
  imports Complex_Main GoStrings
begin

text \<open>
  The data of internal/ratelimit: tiers, tier settings, profiles, decisions and the key
  functions (ratelimit.go, config.go, key.go), with the interface of a keyed limiter.

  A \<open>time.Time\<close> and a \<open>time.Duration\<close> are integers, in nanoseconds. A \<open>float64\<close> rate or
  token count is an exact rational: rounding errors of floating point are not modelled.
\<close>

section \<open>Tiers and decisions\<close>

datatype tier = TierAuth | TierProxy | TierAuthed | TierGlobal | TierVerifyFailure

definition AllTiers :: "tier list" where
  "AllTiers = [TierAuth, TierProxy, TierAuthed, TierGlobal, TierVerifyFailure]"

fun tierNames :: "tier \<Rightarrow> string" where
  "tierNames TierAuth = ''AUTH''"
| "tierNames TierProxy = ''PROXY''"
| "tierNames TierAuthed = ''AUTHED''"
| "tierNames TierGlobal = ''GLOBAL''"
| "tierNames TierVerifyFailure = ''VERIFY_FAIL''"

fun tier_by_name :: "string \<Rightarrow> tier list \<Rightarrow> tier option" where
  "tier_by_name name [] = None"
| "tier_by_name name (t # ts) = (if tierNames t = name then Some t else tier_by_name name ts)"

definition TierByName :: "string \<Rightarrow> tier option" where
  "TierByName name = tier_by_name name AllTiers"

datatype algorithm = AlgSliding | AlgTokenBucket | AlgSemaphore | AlgFailureCounter

record decision =
  dec_Allow :: bool
  RetryAfter :: int
  Remaining :: int
  Limit :: int
  Reason :: string

definition Deny :: "string \<Rightarrow> int \<Rightarrow> int \<Rightarrow> decision" where
  "Deny reason retryAfter limit =
     \<lparr>dec_Allow = False, RetryAfter = retryAfter, Remaining = 0, Limit = limit, Reason = reason\<rparr>"

definition AllowOK :: "int \<Rightarrow> int \<Rightarrow> decision" where
  "AllowOK remaining limit =
     \<lparr>dec_Allow = True, RetryAfter = 0, Remaining = remaining, Limit = limit, Reason = []\<rparr>"

lemma Deny_sel [simp]:
  "dec_Allow (Deny r w l) = False" "RetryAfter (Deny r w l) = w" "Reason (Deny r w l) = r" "Limit (Deny r w l) = l"
  by (simp_all add: Deny_def)

lemma AllowOK_sel [simp]:
  "dec_Allow (AllowOK r l) = True" "Remaining (AllowOK r l) = r" "Limit (AllowOK r l) = l" "RetryAfter (AllowOK r l) = 0"
  by (simp_all add: AllowOK_def)

lemma Deny_neq_AllowOK [simp]: "Deny r w l \<noteq> AllowOK m n" "AllowOK m n \<noteq> Deny r w l"
  by (simp_all add: Deny_def AllowOK_def)

definition Second :: int where "Second = 1000000000"

abbreviation Minute :: int where "Minute \<equiv> 60 * Second"

text \<open>\<open>int(d.Seconds())\<close> of a duration, the value written into the Retry-After header.\<close>

definition retry_after_header :: "decision \<Rightarrow> string option" where
  "retry_after_header d =
     (if RetryAfter d > 0 then Some (itoa (RetryAfter d div Second)) else None)"

definition rate_limit_headers :: "decision \<Rightarrow> (string, string) go_map" where
  "rate_limit_headers d =
     (if Limit d > 0
      then [(''X-RateLimit-Limit'', itoa (Limit d)), (''X-RateLimit-Remaining'', itoa (Remaining d))]
      else [])"

section \<open>Settings\<close>

record tier_config =
  Algorithm :: algorithm
  Rate :: rat
  Burst :: int
  Window :: int
  MaxEvents :: int
  Concurrency :: int
  MaxKeys :: int

record rl_config =
  Profile :: string
  Off :: bool
  Locked :: bool
  Tiers :: "tier \<Rightarrow> tier_config"

definition zero_tier :: tier_config where
  "zero_tier = \<lparr>Algorithm = AlgSliding, Rate = 0, Burst = 0, Window = 0, MaxEvents = 0, Concurrency = 0, MaxKeys = 0\<rparr>"

definition ProfileDefault :: string where "ProfileDefault = ''default''"
definition ProfileStrict :: string where "ProfileStrict = ''strict''"
definition ProfileLoose :: string where "ProfileLoose = ''loose''"
definition ProfileOff :: string where "ProfileOff = ''off''"

definition profileMultiplier :: "string \<Rightarrow> rat" where
  "profileMultiplier p = (if p = ProfileStrict then 1 / 2 else if p = ProfileLoose then 2 else 1)"

text \<open>\<open>int(f)\<close> truncates toward zero.\<close>

definition trunc :: "rat \<Rightarrow> int" where
  "trunc q = (if q \<ge> 0 then \<lfloor>q\<rfloor> else - \<lfloor>- q\<rfloor>)"

definition scaleMax :: "int \<Rightarrow> rat \<Rightarrow> int" where
  "scaleMax base mul = (let v = trunc (of_int base * mul) in if v < 1 then 1 else v)"

definition scaleRate :: "rat \<Rightarrow> rat \<Rightarrow> rat" where
  "scaleRate base mul = (let v = base * mul in if v \<le> 0 then 1 / 10 else v)"

definition defaultMaxKeys :: int where "defaultMaxKeys = 200000"

definition DefaultsFor :: "string \<Rightarrow> rl_config" where
  "DefaultsFor profile =
     (if profile = ProfileOff then \<lparr>Profile = profile, Off = True, Locked = False, Tiers = (\<lambda>_. zero_tier)\<rparr>
      else let mul = profileMultiplier profile in
       \<lparr>Profile = profile, Off = False, Locked = False,
        Tiers = (\<lambda>t. case t of
          TierAuth \<Rightarrow> zero_tier\<lparr>Algorithm := AlgSliding, Window := 5 * Minute, MaxEvents := scaleMax 50 mul, MaxKeys := defaultMaxKeys\<rparr>
        | TierProxy \<Rightarrow> zero_tier\<lparr>Algorithm := AlgTokenBucket, Rate := scaleRate 200 mul, Burst := scaleMax 2000 mul,
                        Concurrency := scaleMax 1024 mul, MaxKeys := defaultMaxKeys\<rparr>
        | TierAuthed \<Rightarrow> zero_tier\<lparr>Algorithm := AlgTokenBucket, Rate := scaleRate 10 mul, Burst := scaleMax 240 mul, MaxKeys := defaultMaxKeys\<rparr>
        | TierGlobal \<Rightarrow> zero_tier\<lparr>Rate := of_int (scaleMax 20000 mul), Burst := scaleMax 40000 mul, Concurrency := scaleMax 10000 mul\<rparr>
        | TierVerifyFailure \<Rightarrow> zero_tier\<lparr>Algorithm := AlgFailureCounter, MaxEvents := scaleMax 10 mul, MaxKeys := defaultMaxKeys\<rparr>)\<rparr>)"

text \<open>One entry of an override map: a zero field leaves the setting alone.\<close>

definition apply_override :: "tier_config \<Rightarrow> tier_config \<Rightarrow> tier_config" where
  "apply_override ov tc =
     tc\<lparr>Rate := (if Rate ov \<noteq> 0 then Rate ov else Rate tc),
        Burst := (if Burst ov \<noteq> 0 then Burst ov else Burst tc),
        Window := (if Window ov \<noteq> 0 then Window ov else Window tc),
        MaxEvents := (if MaxEvents ov \<noteq> 0 then MaxEvents ov else MaxEvents tc),
        Concurrency := (if Concurrency ov \<noteq> 0 then Concurrency ov else Concurrency tc)\<rparr>"

fun ApplyOverrides :: "(tier, tier_config) go_map \<Rightarrow> rl_config \<Rightarrow> rl_config" where
  "ApplyOverrides [] c = c"
| "ApplyOverrides ((t, ov) # m) c =
     ApplyOverrides m (c\<lparr>Tiers := (Tiers c)(t := apply_override ov (Tiers c t))\<rparr>)"

definition minAuthFloor :: int where "minAuthFloor = 5"
definition minGlobalInflight :: int where "minGlobalInflight = 32"
definition minGlobalRPS :: int where "minGlobalRPS = 100"

datatype rl_error = AuthMaxFloor | GlobalConcurrencyFloor | GlobalRateFloor

definition rl_Validate :: "rl_config \<Rightarrow> rl_error go_error" where
  "rl_Validate c =
     (if Off c then None
      else if MaxEvents (Tiers c TierAuth) < minAuthFloor then Some AuthMaxFloor
      else if Concurrency (Tiers c TierGlobal) < minGlobalInflight then Some GlobalConcurrencyFloor
      else if Rate (Tiers c TierGlobal) < of_int minGlobalRPS then Some GlobalRateFloor
      else None)"

section \<open>Keys\<close>

text \<open>
  The key functions, applied to what the server extracts from the request. The hash of a
  token (SHA-256, eight bytes, in hexadecimal) is a parameter.
\<close>

definition IPKey :: "string \<Rightarrow> string" where
  "IPKey clientIP = ''ip:'' @ clientIP"

definition IPTokenKey :: "(string \<Rightarrow> string) \<Rightarrow> string \<Rightarrow> string \<Rightarrow> string" where
  "IPTokenKey HashToken clientIP tok =
     (if tok = [] then [] else ''ipt:'' @ clientIP @ '':'' @ HashToken tok)"

definition ActorKey :: "string \<Rightarrow> string" where
  "ActorKey ident = (if ident = [] then [] else ''actor:'' @ ident)"

section \<open>The interface of a keyed limiter\<close>

text \<open>
  What the registry relies on: \<open>allow\<close> keeps the limiter's invariant, a refusal names its
  reason and asks for at least one second, and lookups return what was decided. Runs of
  calls, as the registry makes them, keep the invariant and only produce such decisions.
\<close>

definition good_denial :: "decision \<Rightarrow> bool" where
  "good_denial d \<longleftrightarrow> dec_Allow d \<or> RetryAfter d \<ge> Second \<and> Reason d = ''rate''"

fun run_calls :: "('l \<Rightarrow> 'c \<Rightarrow> 'l \<times> decision) \<Rightarrow> 'l \<Rightarrow> 'c list \<Rightarrow> 'l \<times> decision list" where
  "run_calls f l [] = (l, [])"
| "run_calls f l (c # cs) =
     (let (l', d) = f l c; (l'', ds) = run_calls f l' cs in (l'', d # ds))"

lemma run_calls_append:
  "run_calls f l (cs @ cs') =
     (let (l', ds) = run_calls f l cs; (l'', ds') = run_calls f l' cs' in (l'', ds @ ds'))"
  by (induction cs arbitrary: l) (auto simp: split_beta)

locale keyed_limiter =
  fixes allow :: "'l \<Rightarrow> 'c \<Rightarrow> 'l \<times> decision"
    and reconfigure :: "'l \<Rightarrow> tier_config \<Rightarrow> 'l"
    and inv :: "'l \<Rightarrow> bool"
  assumes allow_inv: "inv l \<Longrightarrow> inv (fst (allow l c))"
    and reconfigure_inv: "inv l \<Longrightarrow> inv (reconfigure l cfg)"
    and allow_denial: "inv l \<Longrightarrow> good_denial (snd (allow l c))"
begin

lemma run_inv: "inv l \<Longrightarrow> inv (fst (run_calls allow l cs))"
  by (induction cs arbitrary: l) (auto simp: split_beta Let_def allow_inv)

lemma run_denials: "inv l \<Longrightarrow> list_all good_denial (snd (run_calls allow l cs))"
  by (induction cs arbitrary: l) (auto simp: split_beta Let_def allow_inv allow_denial)

end

section \<open>Validation of the profiles\<close>

lemma DefaultsFor_valid: "rl_Validate (DefaultsFor p) = None"
  by (simp add: rl_Validate_def DefaultsFor_def Let_def scaleMax_def trunc_def profileMultiplier_def zero_tier_def
      minAuthFloor_def minGlobalInflight_def minGlobalRPS_def)

lemma TierByName_tierNames: "TierByName (tierNames t) = Some t"
  by (cases t) (simp_all add: TierByName_def AllTiers_def)

lemma TierByName_sound: "TierByName n = Some t \<Longrightarrow> tierNames t = n"
  by (auto simp: TierByName_def AllTiers_def split: if_splits)

end
