(* ===== verification/Sliding.thy ===== *)
theory Sliding
  imports RateTiers
begin

text \<open>
  The sliding-window limiter (internal/ratelimit/sliding.go): at most \<open>max\<close> events per key
  in any window. The clock is an argument of each call. Shown: the bound over every run with
  a clock that never goes back, in spite of the eviction of cold keys, and that the
  RetryAfter of a refusal is exact.
\<close>

section \<open>State and operations\<close>

record sliding_window =
  sw_attempts :: "(string, int list) go_map"
  sw_window :: int
  sw_max :: int
  sw_maxKeys :: int

definition newSlidingWindow :: "tier_config \<Rightarrow> sliding_window" where
  "newSlidingWindow cfg =
     \<lparr>sw_attempts = [],
      sw_window = (if Window cfg \<le> 0 then 5 * Minute else Window cfg),
      sw_max = (if MaxEvents cfg < 1 then 1 else MaxEvents cfg),
      sw_maxKeys = (if MaxKeys cfg \<le> 0 then 10000 else MaxKeys cfg)\<rparr>"

definition sw_reconfigure :: "sliding_window \<Rightarrow> tier_config \<Rightarrow> sliding_window" where
  "sw_reconfigure l cfg =
     l\<lparr>sw_window := (if Window cfg > 0 then Window cfg else sw_window l),
       sw_max := (if MaxEvents cfg > 0 then MaxEvents cfg else sw_max l),
       sw_maxKeys := (if MaxKeys cfg > 0 then MaxKeys cfg else sw_maxKeys l)\<rparr>"

text \<open>\<open>l.attempts[key]\<close>, nil when the key is absent.\<close>

definition sw_entries :: "sliding_window \<Rightarrow> string \<Rightarrow> int list" where
  "sw_entries l key = (case map_of (sw_attempts l) key of None \<Rightarrow> [] | Some ts \<Rightarrow> ts)"

definition sw_recent :: "sliding_window \<Rightarrow> int \<Rightarrow> string \<Rightarrow> int list" where
  "sw_recent l now key = filter (\<lambda>t. t > now - sw_window l) (sw_entries l key)"

definition sw_wait :: "sliding_window \<Rightarrow> int \<Rightarrow> int list \<Rightarrow> int" where
  "sw_wait l now recent =
     (let wait = (case recent of [] \<Rightarrow> 0 | t # _ \<Rightarrow> t + sw_window l - now)
      in if wait < Second then Second else wait)"

definition sw_evict :: "sliding_window \<Rightarrow> int \<Rightarrow> sliding_window" where
  "sw_evict l cutoff =
     (if sw_maxKeys l > 0 \<and> int (length (sw_attempts l)) > sw_maxKeys l
      then l\<lparr>sw_attempts := filter (\<lambda>(k, v). \<not> (v = [] \<or> last v < cutoff)) (sw_attempts l)\<rparr>
      else l)"

definition sw_allow :: "sliding_window \<Rightarrow> int \<Rightarrow> string \<Rightarrow> sliding_window \<times> decision" where
  "sw_allow l now key =
     (let recent = sw_recent l now key;
          l = l\<lparr>sw_attempts := map_put key recent (sw_attempts l)\<rparr>
      in if int (length recent) \<ge> sw_max l then (l, Deny ''rate'' (sw_wait l now recent) (sw_max l))
         else
           (let l = l\<lparr>sw_attempts := map_put key (recent @ [now]) (sw_attempts l)\<rparr>
            in (sw_evict l (now - sw_window l), AllowOK (sw_max l - int (length recent) - 1) (sw_max l))))"

definition sw_check :: "sliding_window \<Rightarrow> int \<Rightarrow> string \<Rightarrow> sliding_window \<times> decision" where
  "sw_check l now key =
     (let recent = sw_recent l now key;
          l = l\<lparr>sw_attempts := map_put key recent (sw_attempts l)\<rparr>
      in if int (length recent) \<ge> sw_max l then (l, Deny ''rate'' (sw_wait l now recent) (sw_max l))
         else (sw_evict l (now - sw_window l), AllowOK (sw_max l - int (length recent)) (sw_max l)))"

definition sw_size :: "sliding_window \<Rightarrow> nat" where
  "sw_size l = length (sw_attempts l)"

section \<open>Calls and the invariant\<close>

datatype sw_call = SwAllow int string | SwCheck int string

fun call_time :: "sw_call \<Rightarrow> int" where
  "call_time (SwAllow t k) = t"
| "call_time (SwCheck t k) = t"

fun sw_step :: "sliding_window \<Rightarrow> sw_call \<Rightarrow> sliding_window \<times> decision" where
  "sw_step l (SwAllow t k) = sw_allow l t k"
| "sw_step l (SwCheck t k) = sw_check l t k"

text \<open>The events recorded for a key: the times of its successful \<open>allow\<close> calls.\<close>

fun granted :: "string \<Rightarrow> sw_call list \<Rightarrow> decision list \<Rightarrow> int list" where
  "granted key (SwAllow t k # cs) (d # ds) = (if k = key \<and> dec_Allow d then [t] else []) @ granted key cs ds"
| "granted key (SwCheck t k # cs) (d # ds) = granted key cs ds"
| "granted key _ _ = []"

definition sw_inv :: "sliding_window \<Rightarrow> bool" where
  "sw_inv l \<longleftrightarrow> map_ok (sw_attempts l) \<and> sw_window l > 0 \<and> sw_max l \<ge> 1"

lemma sw_evict_fields [simp]:
  "sw_window (sw_evict l c) = sw_window l" "sw_max (sw_evict l c) = sw_max l" "sw_maxKeys (sw_evict l c) = sw_maxKeys l"
  by (simp_all add: sw_evict_def)

lemma sw_step_fields [simp]:
  "sw_window (fst (sw_step l c)) = sw_window l" "sw_max (fst (sw_step l c)) = sw_max l"
  by (cases c; simp add: sw_allow_def sw_check_def Let_def)+

lemma sw_evict_ok [inv_intros]: "map_ok (sw_attempts l) \<Longrightarrow> map_ok (sw_attempts (sw_evict l c))"
  by (simp add: sw_evict_def map_ok_filter)

lemma sw_wait_second: "sw_wait l now r \<ge> Second"
  by (simp add: sw_wait_def Let_def)

lemma sw_step_inv: "sw_inv l \<Longrightarrow> sw_inv (fst (sw_step l c))"
  by (cases c) (auto simp: sw_inv_def sw_allow_def sw_check_def Let_def intro!: inv_intros)

lemma sw_step_denial: "good_denial (snd (sw_step l c))"
  by (cases c) (auto simp: good_denial_def sw_allow_def sw_check_def Let_def sw_wait_second)

lemma newSlidingWindow_inv: "sw_inv (newSlidingWindow cfg)"
  by (simp add: sw_inv_def newSlidingWindow_def Second_def)

lemma sw_reconfigure_inv: "sw_inv l \<Longrightarrow> sw_inv (sw_reconfigure l cfg)"
  by (simp add: sw_inv_def sw_reconfigure_def)

interpretation sw: keyed_limiter sw_step sw_reconfigure sw_inv
  by unfold_locales (simp_all add: sw_step_inv sw_step_denial sw_reconfigure_inv)

section \<open>What a call does to the events of a key\<close>

lemma map_of_filter_snd:
  "map_ok m \<Longrightarrow> map_of (filter (\<lambda>(k, v). P v) m) k =
     (case map_of m k of None \<Rightarrow> None | Some v \<Rightarrow> if P v then Some v else None)"
proof (induction m)
  case (Cons a m)
  obtain k' v where a: "a = (k', v)" by (cases a)
  from Cons.prems have "map_ok m" "k' \<notin> set (map fst m)" by (simp_all add: map_ok_def a)
  then have "map_of m k' = None" by (simp add: map_of_eq_None_iff)
  with Cons.IH [OF \<open>map_ok m\<close>] show ?case by (auto simp: a)
qed simp

lemma sw_evict_entries:
  assumes "map_ok (sw_attempts l)"
  shows "sw_entries (sw_evict l c) k = sw_entries l k
       \<or> sw_entries (sw_evict l c) k = [] \<and> (sw_entries l k = [] \<or> last (sw_entries l k) < c)"
  using map_of_filter_snd [OF assms, of "\<lambda>v. \<not> (v = [] \<or> last v < c)" k]
  by (auto simp: sw_evict_def sw_entries_def split: option.splits if_splits)

definition times_ok :: "int \<Rightarrow> int list \<Rightarrow> bool" where
  "times_ok now ts \<longleftrightarrow> sorted ts \<and> list_all (\<lambda>t. t \<le> now) ts"

lemma times_ok_Nil [simp]: "times_ok now []"
  by (simp add: times_ok_def)

lemma times_ok_mono: "times_ok now ts \<Longrightarrow> now \<le> now' \<Longrightarrow> times_ok now' ts"
  by (auto simp: times_ok_def list_all_iff)

lemma times_ok_snoc: "times_ok now ts \<Longrightarrow> now \<le> now' \<Longrightarrow> times_ok now' (ts @ [now'])"
  by (auto simp: times_ok_def list_all_iff sorted_append)

lemma times_ok_filter: "times_ok now ts \<Longrightarrow> times_ok now (filter P ts)"
  by (auto simp: times_ok_def list_all_iff sorted_wrt_filter)

lemma filter_after_last:
  assumes "times_ok now ts" and "ts = [] \<or> last ts < c"
  shows "filter (\<lambda>t. t > c) ts = []"
proof -
  have "x \<le> last ts" if "x \<in> set ts" for x
    using assms(1) that unfolding times_ok_def
    by (metis append_butlast_last_id empty_iff in_set_conv_decomp last_in_set list.set(1) sorted_append
        set_ConsD split_list_last list.set_intros(1) Un_iff set_append order_refl)
  with assms(2) show ?thesis by (fastforce simp: filter_empty_conv)
qed

definition grant_of :: "string \<Rightarrow> sw_call \<Rightarrow> decision \<Rightarrow> int list" where
  "grant_of key c d = granted key [c] [d]"

lemma sw_entries_put [simp]:
  "sw_entries (l\<lparr>sw_attempts := map_put k ts m\<rparr>) k' =
     (if k' = k then ts else case map_of m k' of None \<Rightarrow> [] | Some ts \<Rightarrow> ts)"
  by (simp add: sw_entries_def)

lemma sw_evict_filter:
  assumes "map_ok (sw_attempts l)" and "times_ok now (sw_entries l k)"
  shows "times_ok now (sw_entries (sw_evict l c) k)"
    and "filter (\<lambda>t. t > c) (sw_entries (sw_evict l c) k) = filter (\<lambda>t. t > c) (sw_entries l k)"
  using sw_evict_entries [OF assms(1), of c k] filter_after_last [OF assms(2), of c] assms(2) by auto

lemma sw_recent_filter [simp]:
  "filter (\<lambda>t. t > now - sw_window l) (sw_recent l now key) = sw_recent l now key"
  by (simp add: sw_recent_def)

text \<open>
  One call, seen from a key: inside the window the stored times are the old ones, with the
  new event behind them when the call granted one.
\<close>

lemma sw_step_entries:
  assumes inv: "sw_inv l" and ok: "times_ok now (sw_entries l key)" and "now \<le> call_time c"
  shows "times_ok (call_time c) (sw_entries (fst (sw_step l c)) key)
       \<and> filter (\<lambda>t. t > call_time c - sw_window l) (sw_entries (fst (sw_step l c)) key)
           = sw_recent l (call_time c) key @ grant_of key c (snd (sw_step l c))"
proof -
  let ?n = "call_time c"
  have ok': "times_ok ?n (sw_entries l key)" using ok assms(3) by (rule times_ok_mono)
  then have rec_ok: "times_ok ?n (sw_recent l ?n key)" by (simp add: sw_recent_def times_ok_filter)
  then have snoc_ok: "times_ok ?n (sw_recent l ?n key @ [?n])" by (rule times_ok_snoc) simp
  have put_ok: "map_ok (map_put k v (sw_attempts l))" for k v
    using inv by (simp add: sw_inv_def map_ok_put)
  have w: "sw_window l > 0" using inv by (simp add: sw_inv_def)
  have lookup: "(case map_of (sw_attempts l) key of None \<Rightarrow> [] | Some ts \<Rightarrow> ts) = sw_entries l key"
    by (simp add: sw_entries_def)
  have ev: "times_ok n (sw_entries (sw_evict m (n - sw_window l)) k)
        \<and> filter (\<lambda>t. t > n - sw_window l) (sw_entries (sw_evict m (n - sw_window l)) k)
            = filter (\<lambda>t. t > n - sw_window l) (sw_entries m k)"
    if "map_ok (sw_attempts m)" "times_ok n (sw_entries m k)" for m n k
    using sw_evict_filter [OF that] by simp
  show ?thesis
  proof (cases c)
    case (SwAllow t k)
    then show ?thesis
      using ok' rec_ok snoc_ok w put_ok
      by (auto simp: sw_allow_def Let_def grant_of_def lookup ev map_ok_put sw_recent_def [symmetric])
  next
    case (SwCheck t k)
    then show ?thesis
      using ok' rec_ok put_ok
      by (auto simp: sw_check_def Let_def grant_of_def lookup ev map_ok_put sw_recent_def [symmetric])
  qed
qed

lemma sw_grant_room:
  assumes "grant_of key c (snd (sw_step l c)) \<noteq> []"
  shows "grant_of key c (snd (sw_step l c)) = [call_time c]
       \<and> int (length (sw_recent l (call_time c) key)) < sw_max l"
  using assms by (cases c) (auto simp: grant_of_def sw_allow_def Let_def split: if_splits)

section \<open>Runs\<close>

text \<open>
  The state after a run with a clock that has reached \<open>now\<close>, against the list \<open>H\<close> of the
  events granted to one key: the limiter still knows every event inside the window.
\<close>

definition in_window :: "int \<Rightarrow> int \<Rightarrow> int list \<Rightarrow> int list" where
  "in_window w t ts = filter (\<lambda>x. t - w < x \<and> x \<le> t) ts"

definition tracks :: "sliding_window \<Rightarrow> int \<Rightarrow> string \<Rightarrow> int list \<Rightarrow> bool" where
  "tracks l now key H \<longleftrightarrow>
     sw_inv l \<and> times_ok now (sw_entries l key) \<and> times_ok now H
     \<and> filter (\<lambda>t. t > now - sw_window l) H = sw_recent l now key
     \<and> (\<forall>t. int (length (in_window (sw_window l) t H)) \<le> sw_max l)"

lemma filter_later:
  assumes "filter (\<lambda>t. t > a) xs = filter (\<lambda>t. t > a) ys" and "a \<le> (b :: int)"
  shows "filter (\<lambda>t. t > b) xs = filter (\<lambda>t. t > b) ys"
proof -
  have "filter (\<lambda>t. t > b) zs = filter (\<lambda>t. t > b) (filter (\<lambda>t. t > a) zs)" for zs :: "int list"
    using assms(2) by (auto simp: filter_filter intro!: filter_cong)
  then show ?thesis by (metis assms(1))
qed

lemma in_window_snoc_bound:
  assumes bound: "\<forall>t. int (length (in_window w t H)) \<le> m"
    and room: "int (length (filter (\<lambda>t. t > now - w) H)) < m"
  shows "int (length (in_window w t (H @ [now]))) \<le> m"
proof (cases "t < now")
  case True
  then show ?thesis using bound by (simp add: in_window_def)
next
  case False
  have "length (filter (\<lambda>x. t - w < x \<and> x \<le> t) H) \<le> length (filter (\<lambda>t. t > now - w) H)"
    using False by (induction H) auto
  then show ?thesis using room by (auto simp: in_window_def)
qed

lemma tracks_step:
  assumes tr: "tracks l now key H" and "now \<le> call_time c"
  shows "tracks (fst (sw_step l c)) (call_time c) key (H @ grant_of key c (snd (sw_step l c)))"
proof -
  let ?r = "sw_step l c" and ?n = "call_time c"
  let ?g = "grant_of key c (snd ?r)"
  have inv: "sw_inv l" and ok: "times_ok now (sw_entries l key)" and H: "times_ok now H"
    and same: "filter (\<lambda>t. t > now - sw_window l) H = filter (\<lambda>t. t > now - sw_window l) (sw_entries l key)"
    and bound: "\<forall>t. int (length (in_window (sw_window l) t H)) \<le> sw_max l"
    using tr by (simp_all add: tracks_def sw_recent_def)
  note e = sw_step_entries [OF inv ok assms(2)]
  have same': "filter (\<lambda>t. t > ?n - sw_window l) H = sw_recent l ?n key"
    unfolding sw_recent_def using assms(2) by (intro filter_later [OF same]) simp
  have g: "?g = [] \<or> ?g = [?n] \<and> int (length (sw_recent l ?n key)) < sw_max l"
    using sw_grant_room by blast
  then have "times_ok ?n (H @ ?g)"
    using times_ok_snoc [OF H assms(2)] times_ok_mono [OF H assms(2)] by auto
  moreover have "int (length (in_window (sw_window l) t (H @ ?g))) \<le> sw_max l" for t
    using g bound in_window_snoc_bound [OF bound, of ?n t] same' by auto
  moreover have "filter (\<lambda>t. t > ?n - sw_window l) ?g = ?g"
    using g inv by (auto simp: sw_inv_def)
  ultimately show ?thesis
    using e same' inv by (simp add: tracks_def sw_step_inv) (simp add: sw_recent_def)
qed

lemma granted_Cons: "granted key (c # cs) (d # ds) = grant_of key c d @ granted key cs ds"
  by (cases c) (auto simp: grant_of_def)

lemma tracks_run:
  assumes "tracks l now key H" and "sorted (now # map call_time cs)"
  shows "tracks (fst (run_calls sw_step l cs)) (last (now # map call_time cs)) key
           (H @ granted key cs (snd (run_calls sw_step l cs)))"
  using assms
proof (induction cs arbitrary: l now H)
  case Nil
  then show ?case by simp
next
  case (Cons c cs)
  have "tracks (fst (sw_step l c)) (call_time c) key (H @ grant_of key c (snd (sw_step l c)))"
    using Cons.prems by (intro tracks_step) auto
  from Cons.IH [OF this] Cons.prems(2) show ?case
    by (simp add: split_beta Let_def granted_Cons)
qed

lemma sorted_start: "sorted xs \<Longrightarrow> \<exists>now :: int. sorted (now # xs)"
  by (cases xs) auto

lemma tracks_new: "tracks (newSlidingWindow cfg) now key []"
  using newSlidingWindow_inv [of cfg]
  by (simp add: tracks_def sw_recent_def sw_entries_def in_window_def) (simp add: newSlidingWindow_def)

section \<open>The wait that a refusal asks for\<close>

lemma sw_wait_put [simp]: "sw_wait (l\<lparr>sw_attempts := m\<rparr>) n r = sw_wait l n r"
  by (cases r) (simp_all add: sw_wait_def)

lemma sw_denied:
  assumes "sw_allow l n key = (l', d)" and "\<not> dec_Allow d"
  shows "sw_entries l' key = sw_recent l n key \<and> sw_window l' = sw_window l \<and> sw_max l' = sw_max l
       \<and> int (length (sw_recent l n key)) \<ge> sw_max l \<and> RetryAfter d = sw_wait l n (sw_recent l n key)"
  using assms by (auto simp: sw_allow_def Let_def split: if_splits)

lemma sw_allow_iff: "dec_Allow (snd (sw_allow l n key)) \<longleftrightarrow> int (length (sw_recent l n key)) < sw_max l"
  by (auto simp: sw_allow_def Let_def)

lemma tracks_recent_le:
  assumes "tracks l now key H" and "now \<le> n"
  shows "int (length (sw_recent l n key)) \<le> sw_max l"
proof -
  have same: "filter (\<lambda>t. t > now - sw_window l) H = filter (\<lambda>t. t > now - sw_window l) (sw_entries l key)"
    and H: "\<forall>t \<in> set H. t \<le> now"
    using assms(1) by (simp_all add: tracks_def sw_recent_def times_ok_def list_all_iff)
  have "filter (\<lambda>t. t > n - sw_window l) H = sw_recent l n key"
    unfolding sw_recent_def using assms(2) by (intro filter_later [OF same]) simp
  moreover have "filter (\<lambda>t. t > n - sw_window l) H = in_window (sw_window l) n H"
    unfolding in_window_def using H assms(2) by (intro filter_cong) auto
  ultimately show ?thesis using assms(1) unfolding tracks_def by metis
qed

lemma length_filter_hd:
  assumes "\<not> P x" shows "length (filter P (x # xs)) \<le> length xs"
  using assms by simp

lemma sw_retry_exact:
  assumes tr: "tracks l now key H" and "now \<le> n"
    and den: "sw_allow l n key = (l', d)" "\<not> dec_Allow d"
  shows "n' \<ge> n + RetryAfter d \<Longrightarrow> dec_Allow (snd (sw_allow l' n' key))"
    and "RetryAfter d > Second \<Longrightarrow> n' < n + RetryAfter d \<Longrightarrow> \<not> dec_Allow (snd (sw_allow l' n' key))"
proof -
  let ?r = "sw_recent l n key"
  note f = sw_denied [OF den]
  have inv: "sw_inv l" and ok: "times_ok now (sw_entries l key)" using tr by (simp_all add: tracks_def)
  have le: "int (length ?r) = sw_max l" using f tracks_recent_le [OF tr assms(2)] by simp
  then obtain x xs where r: "?r = x # xs" using inv by (cases ?r) (auto simp: sw_inv_def)
  have wait: "RetryAfter d = max Second (x + sw_window l - n)"
    using f by (simp add: sw_wait_def r Let_def)
  have rec': "sw_recent l' n' key = filter (\<lambda>t. t > n' - sw_window l) (x # xs)"
    using f r by (simp add: sw_recent_def)
  have lxs: "int (length xs) < sw_max l" using le r by simp
  show "dec_Allow (snd (sw_allow l' n' key))" if "n' \<ge> n + RetryAfter d"
  proof -
    have "\<not> x > n' - sw_window l" using that wait by auto
    then have "length (sw_recent l' n' key) \<le> length xs" unfolding rec' by (rule length_filter_hd)
    with lxs f show ?thesis by (simp add: sw_allow_iff)
  qed
  have "sorted ?r" using ok by (simp add: sw_recent_def times_ok_def sorted_wrt_filter)
  then have min: "\<forall>t \<in> set ?r. x \<le> t" by (simp add: r)
  show "\<not> dec_Allow (snd (sw_allow l' n' key))" if "RetryAfter d > Second" "n' < n + RetryAfter d"
  proof -
    have "x > n' - sw_window l" using that wait by auto
    with min have "sw_recent l' n' key = ?r" unfolding rec' r by (fastforce intro: filter_True)
    with le f show ?thesis by (simp add: sw_allow_iff)
  qed
qed

text \<open>
  The Retry-After header drops the fraction of a second, so a client that waits as long as
  the header says can be refused again: here 1.5 s are left and the header says 1.
\<close>

lemma retry_after_header_short:
  "let l = fst (sw_allow (newSlidingWindow (zero_tier\<lparr>Window := 2500000000, MaxEvents := 1\<rparr>)) 0 ''a'');
       (l', d) = sw_allow l Second ''a''
   in retry_after_header d = Some ''1'' \<and> \<not> dec_Allow (snd (sw_allow l' (Second + 1 * Second) ''a''))"
  by code_simp

section \<open>Properties\<close>

text \<open>
  Claim C27. Whatever calls reach a sliding-window limiter, for whatever keys, as long as its
  clock does not go back, the events it grants to one key within any window of the
  configured length are never more than the configured maximum; evicting cold keys does
  not let a key exceed it.
\<close>

theorem sliding_window_bound:
  assumes "sorted (map call_time cs)" and "run_calls sw_step (newSlidingWindow cfg) cs = (l, ds)"
  shows "int (length (in_window (sw_window (newSlidingWindow cfg)) t (granted key cs ds)))
           \<le> sw_max (newSlidingWindow cfg)"
proof -
  have fields: "sw_window (fst (run_calls sw_step l0 cs)) = sw_window l0 \<and> sw_max (fst (run_calls sw_step l0 cs)) = sw_max l0" for l0
    by (induction cs arbitrary: l0) (simp_all add: split_beta Let_def)
  obtain now where "sorted (now # map call_time cs)"
    using sorted_start [OF assms(1)] by blast
  from tracks_run [OF tracks_new this, of cfg key] assms(2) fields [of "newSlidingWindow cfg"]
  show ?thesis by (auto simp: tracks_def)
qed

definition two_per_minute :: tier_config where
  "two_per_minute = zero_tier\<lparr>Window := 60, MaxEvents := 2, MaxKeys := 1\<rparr>"

theorem sliding_window_bound_witness:
  "int (length (in_window 60 30 [10, 20])) \<le> 2"
proof -
  let ?cs = "[SwAllow 10 ''a'', SwAllow 15 ''b'', SwAllow 20 ''a'', SwAllow 30 ''a'']"
  have r: "run_calls sw_step (newSlidingWindow two_per_minute) ?cs
      = (fst (run_calls sw_step (newSlidingWindow two_per_minute) ?cs), snd (run_calls sw_step (newSlidingWindow two_per_minute) ?cs))"
    by simp
  have "granted ''a'' ?cs (snd (run_calls sw_step (newSlidingWindow two_per_minute) ?cs)) = [10, 20]"
    by code_simp
  then show ?thesis
    using sliding_window_bound [OF _ r, of 30 "''a''"] by (simp add: two_per_minute_def newSlidingWindow_def)
qed

text \<open>
  The RetryAfter of a refusal is exact. After any run, when a key is refused, the
  next attempt of that key is granted once RetryAfter has passed and, unless the wait was
  rounded up to one second, is still refused before that.
\<close>

theorem sliding_retry_after_exact:
  assumes "sorted (map call_time (cs @ [SwAllow n key]))"
    and "run_calls sw_step (newSlidingWindow cfg) cs = (l, ds)"
    and "sw_allow l n key = (l', d)" and "\<not> dec_Allow d"
  shows "(n' \<ge> n + RetryAfter d \<longrightarrow> dec_Allow (snd (sw_allow l' n' key)))
       \<and> (RetryAfter d > Second \<and> n' < n + RetryAfter d \<longrightarrow> \<not> dec_Allow (snd (sw_allow l' n' key)))"
proof -
  obtain now where srt: "sorted (now # map call_time (cs @ [SwAllow n key]))"
    using sorted_start [OF assms(1)] by blast
  then have "sorted ((now # map call_time cs) @ [n])" by simp
  then have "sorted (now # map call_time cs)" and le: "last (now # map call_time cs) \<le> n"
    unfolding sorted_append by (blast, metis last_in_set list.distinct(1) list.set_intros(1))
  from tracks_run [OF tracks_new this(1), of cfg key] assms(2)
  have tr: "tracks l (last (now # map call_time cs)) key (granted key cs ds)" by simp
  show ?thesis using sw_retry_exact [OF tr le assms(3,4), of n'] by blast
qed

theorem sliding_retry_after_exact_witness:
  "dec_Allow (snd (sw_allow (fst (sw_allow (fst (run_calls sw_step
      (newSlidingWindow (zero_tier\<lparr>Window := 5 * Second, MaxEvents := 1\<rparr>)) [SwAllow 0 ''a''])) Second ''a'')) (5 * Second) ''a''))"
proof -
  let ?l = "fst (run_calls sw_step (newSlidingWindow (zero_tier\<lparr>Window := 5 * Second, MaxEvents := 1\<rparr>)) [SwAllow 0 ''a''])"
  let ?a = "sw_allow ?l Second ''a''"
  have d: "snd ?a = Deny ''rate'' (4 * Second) 1" by code_simp
  have srt: "sorted (map call_time ([SwAllow 0 ''a''] @ [SwAllow Second ''a'']))" by (simp add: Second_def)
  have run: "run_calls sw_step (newSlidingWindow (zero_tier\<lparr>Window := 5 * Second, MaxEvents := 1\<rparr>)) [SwAllow 0 ''a'']
      = (?l, snd (run_calls sw_step (newSlidingWindow (zero_tier\<lparr>Window := 5 * Second, MaxEvents := 1\<rparr>)) [SwAllow 0 ''a'']))"
    by simp
  have a: "?a = (fst ?a, snd ?a)" by simp
  have "5 * Second \<ge> Second + RetryAfter (snd ?a)" unfolding d by simp
  then show ?thesis
    using sliding_retry_after_exact [OF srt run a, of "5 * Second"] unfolding d by (simp only: Deny_sel) blast
qed

end
