(* ===== verification/Bucket.thy ===== *)
theory Bucket
  imports RateTiers
begin

text \<open>
  The token-bucket limiter (internal/ratelimit/bucket.go). Buckets are shared by pointer in
  the code: a bucket that the eviction drops while \<open>allow\<close> still holds it is updated but no
  longer found, which \<open>tb_store\<close> writes out.
\<close>

section \<open>State and operations\<close>

record bucket =
  tokens :: rat
  lastRefill :: int

record token_bucket_map =
  tb_buckets :: "(string, bucket) go_map"
  tb_rate :: rat
  tb_burst :: rat
  tb_maxKeys :: int

definition newTokenBucketMap :: "tier_config \<Rightarrow> token_bucket_map" where
  "newTokenBucketMap cfg =
     \<lparr>tb_buckets = [],
      tb_rate = (if Rate cfg \<le> 0 then 1 else Rate cfg),
      tb_burst = (if Burst cfg < 1 then 1 else of_int (Burst cfg)),
      tb_maxKeys = (if MaxKeys cfg \<le> 0 then 10000 else MaxKeys cfg)\<rparr>"

definition clamp_bucket :: "rat \<Rightarrow> bucket \<Rightarrow> bucket" where
  "clamp_bucket burst b = (if tokens b > burst then b\<lparr>tokens := burst\<rparr> else b)"

definition tb_reconfigure :: "token_bucket_map \<Rightarrow> tier_config \<Rightarrow> token_bucket_map" where
  "tb_reconfigure m cfg =
     (let m = (if Rate cfg > 0 then m\<lparr>tb_rate := Rate cfg\<rparr> else m);
          m = (if Burst cfg > 0
               then m\<lparr>tb_burst := of_int (Burst cfg),
                      tb_buckets := map (\<lambda>(k, b). (k, clamp_bucket (of_int (Burst cfg)) b)) (tb_buckets m)\<rparr>
               else m)
      in if MaxKeys cfg > 0 then m\<lparr>tb_maxKeys := MaxKeys cfg\<rparr> else m)"

text \<open>First pass of the eviction: drop full buckets until the map fits.\<close>

fun evict_full :: "rat \<Rightarrow> int \<Rightarrow> string list \<Rightarrow> (string, bucket) go_map \<Rightarrow> (string, bucket) go_map" where
  "evict_full burst maxKeys [] bs = bs"
| "evict_full burst maxKeys (k # ks) bs =
     (let bs' = (case map_of bs k of
                   Some b \<Rightarrow> if tokens b \<ge> burst - 1 / 10000 then map_del k bs else bs
                 | None \<Rightarrow> bs)
      in if int (length bs') \<le> maxKeys then bs' else evict_full burst maxKeys ks bs')"

text \<open>The key with the oldest refill, the first of them in the order of the visit.\<close>

fun oldest_scan :: "(string, bucket) go_map \<Rightarrow> (string \<times> int) option \<Rightarrow> string list \<Rightarrow> (string \<times> int) option" where
  "oldest_scan bs acc [] = acc"
| "oldest_scan bs acc (k # ks) =
     (case map_of bs k of
        None \<Rightarrow> oldest_scan bs acc ks
      | Some b \<Rightarrow>
          (case acc of
             None \<Rightarrow> oldest_scan bs (Some (k, lastRefill b)) ks
           | Some (k', t) \<Rightarrow> oldest_scan bs (if lastRefill b < t then Some (k, lastRefill b) else acc) ks))"

lemma oldest_scan_in:
  "oldest_scan bs acc ks = Some (k, t) \<Longrightarrow> acc = Some (k, t) \<or> map_of bs k \<noteq> None"
proof (induction ks arbitrary: acc)
  case (Cons a ks)
  from Cons.prems Cons.IH show ?case by (fastforce split: option.splits prod.splits if_splits)
qed simp

function evict_oldest :: "((string, bucket) go_map \<Rightarrow> string list) \<Rightarrow> int \<Rightarrow> (string, bucket) go_map \<Rightarrow> (string, bucket) go_map" where
  "evict_oldest ord maxKeys bs =
     (if int (length bs) \<le> maxKeys then bs
      else case oldest_scan bs None (ord bs) of
             None \<Rightarrow> bs
           | Some (k, t) \<Rightarrow> if k = [] then bs else evict_oldest ord maxKeys (map_del k bs))"
  by auto
termination
  by (relation "measure (\<lambda>(ord, n, bs). length bs)") (auto dest!: oldest_scan_in map_del_shorter)

declare evict_oldest.simps [simp del]

definition evictIfNeededLocked :: "((string, bucket) go_map \<Rightarrow> string list) \<Rightarrow> token_bucket_map \<Rightarrow> token_bucket_map" where
  "evictIfNeededLocked ord m =
     (if tb_maxKeys m \<le> 0 \<or> int (length (tb_buckets m)) \<le> tb_maxKeys m then m
      else m\<lparr>tb_buckets := evict_oldest ord (tb_maxKeys m)
               (evict_full (tb_burst m) (tb_maxKeys m) (ord (tb_buckets m)) (tb_buckets m))\<rparr>)"

definition refill :: "token_bucket_map \<Rightarrow> int \<Rightarrow> bucket \<Rightarrow> bucket" where
  "refill m now b =
     (let elapsed = of_int (now - lastRefill b) / of_int Second
      in if elapsed > 0 then \<lparr>tokens = min (tb_burst m) (tokens b + elapsed * tb_rate m), lastRefill = now\<rparr> else b)"

text \<open>Writing through the bucket's pointer: visible in the map only while the map holds it.\<close>

definition tb_store :: "string \<Rightarrow> bucket \<Rightarrow> token_bucket_map \<Rightarrow> token_bucket_map" where
  "tb_store key b m = (if map_of (tb_buckets m) key = None then m else m\<lparr>tb_buckets := map_put key b (tb_buckets m)\<rparr>)"

definition tb_wait :: "token_bucket_map \<Rightarrow> bucket \<Rightarrow> int" where
  "tb_wait m b =
     (let wait = trunc ((1 - tokens b) / tb_rate m * of_int Second) in if wait < Second then Second else wait)"

definition tb_allow ::
  "((string, bucket) go_map \<Rightarrow> string list) \<Rightarrow> token_bucket_map \<Rightarrow> int \<times> string \<Rightarrow> token_bucket_map \<times> decision" where
  "tb_allow ord m c =
     (let (now, key) = c;
          (m, b) = (case map_of (tb_buckets m) key of
             None \<Rightarrow>
               (let b = \<lparr>tokens = tb_burst m, lastRefill = now\<rparr>
                in (evictIfNeededLocked ord (m\<lparr>tb_buckets := map_put key b (tb_buckets m)\<rparr>), b))
           | Some b \<Rightarrow> (let b = refill m now b in (tb_store key b m, b)))
      in if tokens b \<ge> 1
         then (let b = b\<lparr>tokens := tokens b - 1\<rparr>
               in (tb_store key b m, AllowOK (trunc (tokens b)) (trunc (tb_burst m))))
         else (m, Deny ''rate'' (tb_wait m b) (trunc (tb_burst m))))"

section \<open>The invariant\<close>

definition bucket_ok :: "rat \<Rightarrow> bucket \<Rightarrow> bool" where
  "bucket_ok burst b \<longleftrightarrow> 0 \<le> tokens b \<and> tokens b \<le> burst"

definition tb_inv :: "token_bucket_map \<Rightarrow> bool" where
  "tb_inv m \<longleftrightarrow> map_ok (tb_buckets m) \<and> tb_rate m > 0 \<and> tb_burst m \<ge> 1
     \<and> list_all (\<lambda>(k, b). bucket_ok (tb_burst m) b) (tb_buckets m)"

lemma evict_full_sub: "set (evict_full burst n ks bs) \<subseteq> set bs"
proof (induction ks arbitrary: bs)
  case (Cons k ks)
  from Cons.IH [of "map_del k bs"] Cons.IH [of bs] map_del_sub [of k bs] show ?case
    by (auto simp: Let_def split: option.split dest!: subsetD)
qed simp

lemma evict_full_ok: "map_ok bs \<Longrightarrow> map_ok (evict_full burst n ks bs)"
  by (induction ks arbitrary: bs) (auto simp: Let_def map_ok_del split: option.splits)

lemma evict_oldest_sub: "set (evict_oldest ord n bs) \<subseteq> set bs \<and> (map_ok bs \<longrightarrow> map_ok (evict_oldest ord n bs))"
proof (induction ord n bs rule: evict_oldest.induct)
  case (1 ord n bs)
  show ?case
  proof (cases "int (length bs) \<le> n \<or> oldest_scan bs None (ord bs) = None \<or> fst (the (oldest_scan bs None (ord bs))) = []")
    case True
    then have "evict_oldest ord n bs = bs" by (subst evict_oldest.simps) (auto split: option.splits)
    then show ?thesis by simp
  next
    case False
    then obtain k t where k: "oldest_scan bs None (ord bs) = Some (k, t)" "k \<noteq> []" "\<not> int (length bs) \<le> n" by auto
    then have "evict_oldest ord n bs = evict_oldest ord n (map_del k bs)" by (subst evict_oldest.simps) simp
    then show ?thesis using 1 k map_del_sub [of k bs] map_ok_del [of bs k] by fastforce
  qed
qed

lemma evict_fields [simp]:
  "tb_rate (evictIfNeededLocked ord m) = tb_rate m" "tb_burst (evictIfNeededLocked ord m) = tb_burst m"
  "tb_maxKeys (evictIfNeededLocked ord m) = tb_maxKeys m"
  by (simp_all add: evictIfNeededLocked_def)

lemma evict_inv: "tb_inv m \<Longrightarrow> tb_inv (evictIfNeededLocked ord m)"
  using evict_oldest_sub [of ord "tb_maxKeys m" "evict_full (tb_burst m) (tb_maxKeys m) (ord (tb_buckets m)) (tb_buckets m)"]
    evict_full_sub [of "tb_burst m" "tb_maxKeys m" "ord (tb_buckets m)" "tb_buckets m"] evict_full_ok
  by (auto simp: tb_inv_def evictIfNeededLocked_def list_all_iff)

lemma put_inv: "tb_inv m \<Longrightarrow> bucket_ok (tb_burst m) b \<Longrightarrow> tb_inv (m\<lparr>tb_buckets := map_put key b (tb_buckets m)\<rparr>)"
  using set_map_put_subset [of key b "tb_buckets m"] by (auto simp: tb_inv_def map_ok_put list_all_iff)

lemma store_inv: "tb_inv m \<Longrightarrow> bucket_ok (tb_burst m) b \<Longrightarrow> tb_inv (tb_store key b m)"
  by (simp add: tb_store_def put_inv)

lemma store_fields [simp]:
  "tb_rate (tb_store k b m) = tb_rate m" "tb_burst (tb_store k b m) = tb_burst m" "tb_maxKeys (tb_store k b m) = tb_maxKeys m"
  by (simp_all add: tb_store_def)

lemma tb_lookup_ok: "tb_inv m \<Longrightarrow> map_of (tb_buckets m) k = Some b \<Longrightarrow> bucket_ok (tb_burst m) b"
  by (auto simp: tb_inv_def list_all_iff dest!: map_of_SomeD)

lemma refill_ok: "tb_inv m \<Longrightarrow> bucket_ok (tb_burst m) b \<Longrightarrow> bucket_ok (tb_burst m) (refill m now b)"
  by (auto simp: refill_def bucket_ok_def Let_def tb_inv_def simp del: times_divide_eq_left intro!: add_nonneg_nonneg mult_nonneg_nonneg)

lemma tb_allow_fields [simp]:
  "tb_rate (fst (tb_allow ord m c)) = tb_rate m" "tb_burst (fst (tb_allow ord m c)) = tb_burst m"
  "tb_maxKeys (fst (tb_allow ord m c)) = tb_maxKeys m"
  by (simp_all add: tb_allow_def Let_def split_beta split: option.splits)

lemma tb_allow_inv: "tb_inv m \<Longrightarrow> tb_inv (fst (tb_allow ord m c))"
proof -
  assume inv: "tb_inv m"
  obtain now key where c: "c = (now, key)" by (cases c)
  show ?thesis
  proof (cases "map_of (tb_buckets m) key")
    case None
    let ?b = "\<lparr>tokens = tb_burst m, lastRefill = now\<rparr>"
    let ?m = "evictIfNeededLocked ord (m\<lparr>tb_buckets := map_put key ?b (tb_buckets m)\<rparr>)"
    have "tb_inv ?m" using inv by (intro evict_inv put_inv) (auto simp: bucket_ok_def tb_inv_def)
    then show ?thesis
      using inv None by (auto simp: c tb_allow_def Let_def tb_inv_def [of m] bucket_ok_def intro!: store_inv)
  next
    case (Some b)
    have ok: "bucket_ok (tb_burst m) (refill m now b)" using inv Some by (intro refill_ok tb_lookup_ok)
    then have "tb_inv (tb_store key (refill m now b) m)" using inv by (intro store_inv)
    with ok show ?thesis
      using Some by (auto simp: c tb_allow_def Let_def bucket_ok_def intro!: store_inv)
  qed
qed

lemma tb_wait_second: "tb_wait m b \<ge> Second"
  by (simp add: tb_wait_def Let_def)

lemma tb_reconfigure_inv: "tb_inv m \<Longrightarrow> tb_inv (tb_reconfigure m cfg)"
  by (auto simp: tb_inv_def tb_reconfigure_def Let_def map_ok_def list_all_iff clamp_bucket_def bucket_ok_def
      comp_def split_beta)

lemma newTokenBucketMap_inv: "tb_inv (newTokenBucketMap cfg)"
  by (simp add: tb_inv_def newTokenBucketMap_def)

lemma tb_allow_denial: "good_denial (snd (tb_allow ord m c))"
  by (simp add: good_denial_def tb_allow_def Let_def split_beta tb_wait_second)

interpretation tb: keyed_limiter "tb_allow ord" tb_reconfigure tb_inv for ord
  by unfold_locales (simp_all add: tb_allow_inv tb_reconfigure_inv tb_allow_denial)

section \<open>How much a key may take\<close>

definition per_tick :: "token_bucket_map \<Rightarrow> rat" where
  "per_tick m = tb_rate m / of_int Second"

text \<open>The tokens a key could use at a given time.\<close>

definition avail :: "token_bucket_map \<Rightarrow> string \<Rightarrow> int \<Rightarrow> rat" where
  "avail m key now =
     (case map_of (tb_buckets m) key of
        None \<Rightarrow> tb_burst m
      | Some b \<Rightarrow> min (tb_burst m) (tokens b + of_int (now - lastRefill b) * per_tick m))"

definition room_for :: "token_bucket_map \<Rightarrow> string \<Rightarrow> bool" where
  "room_for m key \<longleftrightarrow> map_of (tb_buckets m) key \<noteq> None \<or> int (length (tb_buckets m)) < tb_maxKeys m"

definition not_later :: "token_bucket_map \<Rightarrow> string \<Rightarrow> int \<Rightarrow> bool" where
  "not_later m key now \<longleftrightarrow> (\<forall>b. map_of (tb_buckets m) key = Some b \<longrightarrow> lastRefill b \<le> now)"

lemma refill_value:
  assumes "tb_inv m" and "bucket_ok (tb_burst m) b" and "lastRefill b \<le> now"
  shows "tokens (refill m now b) = min (tb_burst m) (tokens b + of_int (now - lastRefill b) * per_tick m)"
    and "lastRefill (refill m now b) = now"
  using assms by (auto simp: refill_def Let_def per_tick_def bucket_ok_def Second_def)

lemma no_evict: "int (length (tb_buckets m)) \<le> tb_maxKeys m \<Longrightarrow> evictIfNeededLocked ord m = m"
  by (simp add: evictIfNeededLocked_def)

text \<open>The bucket that \<open>allow\<close> works on, when the map has room.\<close>

definition current :: "token_bucket_map \<Rightarrow> int \<Rightarrow> string \<Rightarrow> bucket" where
  "current m now key =
     (case map_of (tb_buckets m) key of None \<Rightarrow> \<lparr>tokens = tb_burst m, lastRefill = now\<rparr> | Some b \<Rightarrow> refill m now b)"

lemma tb_wait_put [simp]: "tb_wait (m\<lparr>tb_buckets := bs\<rparr>) b = tb_wait m b"
  by (simp add: tb_wait_def)

lemma tb_allow_room:
  assumes "room_for m key"
  shows "tb_allow ord m (now, key) =
     (let b = current m now key in
      if tokens b \<ge> 1
      then (m\<lparr>tb_buckets := map_put key (b\<lparr>tokens := tokens b - 1\<rparr>) (tb_buckets m)\<rparr>, AllowOK (trunc (tokens b - 1)) (trunc (tb_burst m)))
      else (m\<lparr>tb_buckets := map_put key b (tb_buckets m)\<rparr>, Deny ''rate'' (tb_wait m b) (trunc (tb_burst m))))"
proof (cases "map_of (tb_buckets m) key")
  case None
  then have "key \<notin> set (map fst (tb_buckets m))" by (metis map_of_eq_None_iff set_map)
  then have "length (map_put key b (tb_buckets m)) = Suc (length (tb_buckets m))" for b by (simp only: length_map_put if_False)
  with None assms have "evictIfNeededLocked ord (m\<lparr>tb_buckets := map_put key b (tb_buckets m)\<rparr>) = m\<lparr>tb_buckets := map_put key b (tb_buckets m)\<rparr>" for b
    by (intro no_evict) (simp add: room_for_def)
  with None show ?thesis by (simp add: tb_allow_def Let_def current_def tb_store_def)
next
  case (Some b)
  then show ?thesis by (simp add: tb_allow_def Let_def current_def tb_store_def)
qed

lemma current_avail:
  assumes "tb_inv m" and "not_later m key now"
  shows "tokens (current m now key) = avail m key now" and "lastRefill (current m now key) = now"
  using assms refill_value [OF assms(1) tb_lookup_ok [OF assms(1)]]
  by (auto simp: current_def avail_def not_later_def split: option.split)

lemma avail_le_burst: "avail m key now \<le> tb_burst m"
  by (simp add: avail_def split: option.split)

lemma avail_grows:
  assumes "tb_inv m" and "now \<le> n"
  shows "avail m key n \<le> avail m key now + of_int (n - now) * per_tick m"
proof -
  have "per_tick m \<ge> 0" using assms(1) by (simp add: per_tick_def tb_inv_def Second_def)
  then have "of_int (n - now) * per_tick m \<ge> 0" using assms(2) by simp
  then show ?thesis by (auto simp: avail_def min_def algebra_simps split: option.split)
qed

lemma tb_allow_avail:
  assumes inv: "tb_inv m" and nl: "not_later m key now" and room: "room_for m key"
  shows "avail (fst (tb_allow ord m (now, key))) key now = avail m key now - (if dec_Allow (snd (tb_allow ord m (now, key))) then 1 else 0)"
    and "not_later (fst (tb_allow ord m (now, key))) key now"
    and "k \<noteq> key \<Longrightarrow> map_of (tb_buckets (fst (tb_allow ord m (now, key)))) k = map_of (tb_buckets m) k"
    and "set (map fst (tb_buckets (fst (tb_allow ord m (now, key))))) = insert key (set (map fst (tb_buckets m)))"
proof -
  note c = current_avail [OF inv nl]
  have le: "avail m key now \<le> tb_burst m" by (rule avail_le_burst)
  show "avail (fst (tb_allow ord m (now, key))) key now = avail m key now - (if dec_Allow (snd (tb_allow ord m (now, key))) then 1 else 0)"
    using c le by (simp add: tb_allow_room [OF room] Let_def avail_def [of "tb_buckets_update f m" for f])
  show "not_later (fst (tb_allow ord m (now, key))) key now"
    using c by (simp add: tb_allow_room [OF room] Let_def not_later_def)
  show "map_of (tb_buckets (fst (tb_allow ord m (now, key)))) k = map_of (tb_buckets m) k" if "k \<noteq> key"
    using that by (simp add: tb_allow_room [OF room] Let_def)
  show "set (map fst (tb_buckets (fst (tb_allow ord m (now, key))))) = insert key (set (map fst (tb_buckets m)))"
    unfolding tb_allow_room [OF room] Let_def by (auto simp: keys_map_put simp del: set_map)
qed

section \<open>Runs\<close>

fun tb_granted :: "string \<Rightarrow> (int \<times> string) list \<Rightarrow> decision list \<Rightarrow> int list" where
  "tb_granted key ((t, k) # cs) (d # ds) = (if k = key \<and> dec_Allow d then [t] else []) @ tb_granted key cs ds"
| "tb_granted key _ _ = []"

definition events_in :: "int \<Rightarrow> int \<Rightarrow> int list \<Rightarrow> nat" where
  "events_in s t H = length (filter (\<lambda>x. s \<le> x \<and> x \<le> t) H)"

definition quota :: "token_bucket_map \<Rightarrow> int \<Rightarrow> string \<Rightarrow> int list \<Rightarrow> bool" where
  "quota m now key H \<longleftrightarrow>
     tb_inv m \<and> (\<forall>k. not_later m k now) \<and> list_all (\<lambda>t. t \<le> now) H
     \<and> (\<forall>s \<le> now. of_nat (events_in s now H) + avail m key now \<le> tb_burst m + of_int (now - s) * per_tick m)
     \<and> (\<forall>s t. s \<le> t \<longrightarrow> of_nat (events_in s t H) \<le> tb_burst m + of_int (t - s) * per_tick m)"

lemma per_tick_allow [simp]: "per_tick (fst (tb_allow ord m c)) = per_tick m"
  by (simp add: per_tick_def)

lemma per_tick_nonneg: "tb_inv m \<Longrightarrow> per_tick m \<ge> 0"
  by (simp add: per_tick_def tb_inv_def Second_def)

lemma avail_other: "map_of (tb_buckets m') key = map_of (tb_buckets m) key \<Longrightarrow> tb_burst m' = tb_burst m \<Longrightarrow>
    per_tick m' = per_tick m \<Longrightarrow> avail m' key n = avail m key n"
  by (simp add: avail_def split: option.split)

text \<open>One call: what the key has taken and what it could still take balance out.\<close>

lemma tb_step_balance:
  fixes ord :: "(string, bucket) go_map \<Rightarrow> string list"
  assumes inv: "tb_inv m" and nl: "\<forall>k. not_later m k now" and room: "room_for m k" and le: "now \<le> n"
  defines "r \<equiv> tb_allow ord m (n, k)"
  shows "avail (fst r) key n = avail m key n - (if k = key \<and> dec_Allow (snd r) then 1 else 0)"
    and "not_later (fst r) k' n"
proof -
  have nl': "not_later m k' n" for k' using nl le by (force simp: not_later_def)
  note a = tb_allow_avail [OF inv nl' room]
  show "avail (fst r) key n = avail m key n - (if k = key \<and> dec_Allow (snd r) then 1 else 0)"
    using a(1) [of ord] avail_other [OF a(3), of key ord n] by (cases "k = key") (auto simp: r_def)
  show "not_later (fst r) k' n"
    using a(2,3) nl' by (cases "k' = k") (auto simp: r_def not_later_def)
qed

lemma avail_nonneg: "tb_inv m \<Longrightarrow> not_later m key n \<Longrightarrow> avail m key n \<ge> 0"
  using per_tick_nonneg [of m] tb_lookup_ok [of m key]
  by (auto simp: avail_def not_later_def tb_inv_def bucket_ok_def split: option.split)

lemma events_in_append: "events_in s t (H @ H') = events_in s t H + events_in s t H'"
  by (simp add: events_in_def)

lemma events_in_zero: "list_all (\<lambda>t. t \<le> now) H \<Longrightarrow> now < s \<Longrightarrow> events_in s t H = 0"
  by (auto simp: events_in_def list_all_iff filter_empty_conv)

lemma events_in_later: "list_all (\<lambda>t. t \<le> now) H \<Longrightarrow> now \<le> t \<Longrightarrow> events_in s t H = events_in s now H"
  unfolding events_in_def list_all_iff by (rule arg_cong [of _ _ length], rule filter_cong) auto

lemma quota_step:
  fixes ord :: "(string, bucket) go_map \<Rightarrow> string list"
  assumes q: "quota m now key H" and room: "room_for m k" and le: "now \<le> n"
  defines "r \<equiv> tb_allow ord m (n, k)"
  shows "quota (fst r) n key (H @ (if k = key \<and> dec_Allow (snd r) then [n] else []))"
proof -
  let ?g = "if k = key \<and> dec_Allow (snd r) then [n] else []" and ?p = "per_tick m"
  have inv: "tb_inv m" and nl: "\<forall>k. not_later m k now" and H: "list_all (\<lambda>t. t \<le> now) H"
    and bal: "\<And>s. s \<le> now \<Longrightarrow> of_nat (events_in s now H) + avail m key now \<le> tb_burst m + of_int (now - s) * ?p"
    and win: "\<And>s t. s \<le> t \<Longrightarrow> of_nat (events_in s t H) \<le> tb_burst m + of_int (t - s) * ?p"
    using q by (auto simp: quota_def)
  note st = tb_step_balance [OF inv nl room le, of ord, folded r_def]
  note p0 = per_tick_nonneg [OF inv]
  have pm: "of_int (i - s) * ?p \<le> of_int (j - s) * ?p" if "i \<le> j" for i j s :: int
    using p0 that by (intro mult_right_mono) auto
  have g: "events_in s t ?g = (if ?g \<noteq> [] \<and> s \<le> n \<and> n \<le> t then 1 else 0)" for s t by (auto simp: events_in_def)
  have b0: "tb_burst m \<ge> 1" using inv by (simp add: tb_inv_def)
  have A: "of_nat (events_in s n (H @ ?g)) + avail (fst r) key n \<le> tb_burst m + of_int (n - s) * ?p" if s: "s \<le> n" for s
  proof (cases "s \<le> now")
    case True
    have "avail m key n \<le> avail m key now + of_int (n - now) * ?p" using inv le by (rule avail_grows)
    moreover have "of_int (n - s) * ?p = of_int (now - s) * ?p + of_int (n - now) * ?p"
      by (simp add: algebra_simps)
    moreover have "of_nat (events_in s n H) + avail m key now \<le> tb_burst m + of_int (now - s) * ?p"
      using bal [OF True] events_in_later [OF H le] by simp
    ultimately show ?thesis using st(1) [of key] s by (auto simp: events_in_append g)
  next
    case False
    then have "events_in s n H = 0" using H by (intro events_in_zero) auto
    moreover have "avail m key n \<le> tb_burst m" by (rule avail_le_burst)
    moreover have "of_int (n - s) * ?p \<ge> 0" using p0 s by simp
    ultimately show ?thesis using st(1) [of key] s by (auto simp: events_in_append g)
  qed
  have Hn: "list_all (\<lambda>t. t \<le> n) (H @ ?g)" using H le by (auto simp: list_all_iff)
  have av: "avail (fst r) key n \<ge> 0" using st(2) [of key] inv by (simp add: avail_nonneg r_def tb_allow_inv)
  have W: "of_nat (events_in s t (H @ ?g)) \<le> tb_burst m + of_int (t - s) * ?p" if st': "s \<le> t" for s t
  proof (cases "t < n")
    case True
    then show ?thesis using win [OF st'] by (simp add: events_in_append g)
  next
    case False
    show ?thesis
    proof (cases "s \<le> n")
      case True
      have "events_in s t (H @ ?g) = events_in s n (H @ ?g)" using False by (intro events_in_later [OF Hn]) simp
      with A [OF True] pm [of n t s] False av show ?thesis by simp
    next
      case b: False
      then have "events_in s t (H @ ?g) = 0" by (intro events_in_zero [OF Hn]) simp
      then show ?thesis using b0 p0 st' by simp
    qed
  qed
  show ?thesis
    using A W Hn st(2) inv by (simp add: quota_def r_def tb_allow_inv)
qed

lemma tb_granted_Cons:
  "tb_granted key ((t, k) # cs) (d # ds) = (if k = key \<and> dec_Allow d then [t] else []) @ tb_granted key cs ds"
  by simp

text \<open>With at most \<open>maxKeys\<close> keys in use, nothing is ever evicted.\<close>

lemma quota_run:
  assumes "quota m now key H" and "sorted (now # map fst cs)"
    and "set (map fst (tb_buckets m)) \<union> set (map snd cs) \<subseteq> K" and "finite K" and "int (card K) \<le> tb_maxKeys m"
  shows "\<exists>now'. quota (fst (run_calls (tb_allow ord) m cs)) now' key
           (H @ tb_granted key cs (snd (run_calls (tb_allow ord) m cs)))"
  using assms
proof (induction cs arbitrary: m now H)
  case Nil
  then show ?case by auto
next
  case (Cons c cs)
  obtain n k where c: "c = (n, k)" by (cases c)
  let ?r = "tb_allow ord m (n, k)"
  have inv: "tb_inv m" and nl: "not_later m k' n" for k'
    using Cons.prems(1,2) by (auto simp: quota_def not_later_def c intro: order_trans)
  have room: "room_for m k"
  proof (cases "map_of (tb_buckets m) k")
    case None
    then have "k \<notin> set (map fst (tb_buckets m))" by (metis map_of_eq_None_iff set_map)
    then have "set (map fst (tb_buckets m)) \<subset> K" using Cons.prems(3) c by auto
    with Cons.prems(4) have "card (set (map fst (tb_buckets m))) < card K" by (rule psubset_card_mono)
    moreover have "card (set (map fst (tb_buckets m))) = length (tb_buckets m)"
      using inv distinct_card [of "map fst (tb_buckets m)"] by (simp add: tb_inv_def map_ok_def)
    ultimately show ?thesis using Cons.prems(5) by (simp add: room_for_def)
  qed (simp add: room_for_def)
  have q: "quota (fst ?r) n key (H @ (if k = key \<and> dec_Allow (snd ?r) then [n] else []))"
    using Cons.prems(1,2) room by (intro quota_step) (auto simp: c)
  have keys: "set (map fst (tb_buckets (fst ?r))) \<subseteq> K"
    using tb_allow_avail(4) [OF inv nl room] Cons.prems(3) c by (auto simp del: set_map)
  have "\<exists>now'. quota (fst (run_calls (tb_allow ord) (fst ?r) cs)) now' key
      ((H @ (if k = key \<and> dec_Allow (snd ?r) then [n] else [])) @ tb_granted key cs (snd (run_calls (tb_allow ord) (fst ?r) cs)))"
    using Cons.prems(2-5) keys by (intro Cons.IH [OF q]) (auto simp: c)
  then show ?case by (simp add: c split_beta Let_def)
qed

lemma quota_new: "quota (newTokenBucketMap cfg) now key []"
proof -
  let ?m = "newTokenBucketMap cfg"
  have inv: "tb_inv ?m" by (rule newTokenBucketMap_inv)
  then have p: "per_tick ?m \<ge> 0" and b: "tb_burst ?m \<ge> 1" by (simp_all add: per_tick_nonneg tb_inv_def)
  have "tb_buckets ?m = []" by (simp add: newTokenBucketMap_def)
  with inv p b show ?thesis by (auto simp: quota_def not_later_def avail_def events_in_def)
qed

section \<open>A fresh key when every tracked key is hot\<close>

lemma evict_full_fresh:
  assumes "map_ok bs" and "\<forall>(k, b) \<in> set bs. tokens b < burst - 1 / 10000" and "key \<notin> set (map fst bs)"
    and "key \<in> set ks" and "int (length bs) = n"
  shows "evict_full burst n ks (bs @ [(key, \<lparr>tokens = burst, lastRefill = now\<rparr>)]) = bs"
  using assms(4)
proof (induction ks)
  case (Cons k ks)
  let ?bs = "bs @ [(key, \<lparr>tokens = burst, lastRefill = now\<rparr>)]"
  show ?case
  proof (cases "k = key")
    case True
    have "map_of bs key = None" using assms(3) by (simp add: map_of_eq_None_iff)
    moreover have "map_del key ?bs = bs" using map_del_absent [OF assms(3)] by (simp add: map_del_def)
    ultimately show ?thesis using True assms(5) by (simp add: map_add_def)
  next
    case False
    have "map_of ?bs k = map_of bs k" using False by (simp add: map_add_def split: option.split)
    moreover have "\<not> tokens b \<ge> burst - 1 / 10000" if "map_of bs k = Some b" for b
      using assms(2) map_of_SomeD [OF that] by auto
    ultimately have "evict_full burst n (k # ks) ?bs = evict_full burst n ks ?bs"
      using assms(5) by (auto simp: Let_def split: option.split)
    with Cons False show ?thesis by simp
  qed
qed simp

lemma tb_fresh_untracked:
  assumes "tb_inv m" and "range_order ord" and "tb_maxKeys m > 0" and "int (length (tb_buckets m)) = tb_maxKeys m"
    and "\<forall>(k, b) \<in> set (tb_buckets m). tokens b < tb_burst m - 1 / 10000" and "key \<notin> set (map fst (tb_buckets m))"
  shows "tb_allow ord m (now, key) = (m, AllowOK (trunc (tb_burst m - 1)) (trunc (tb_burst m)))"
proof -
  let ?b = "\<lparr>tokens = tb_burst m, lastRefill = now\<rparr>"
  let ?bs = "tb_buckets m @ [(key, ?b)]"
  have ok: "map_ok (tb_buckets m)" and b1: "tb_burst m \<ge> 1" using assms(1) by (simp_all add: tb_inv_def)
  have put: "map_put key ?b (tb_buckets m) = ?bs" using assms(6) by (rule map_put_absent)
  have "map_ok ?bs" using ok assms(6) by (simp add: map_ok_def)
  then have "key \<in> set (ord ?bs)" using assms(2) by (simp add: range_order_def)
  then have "evict_full (tb_burst m) (tb_maxKeys m) (ord ?bs) ?bs = tb_buckets m"
    using ok assms(4-6) by (intro evict_full_fresh) auto
  then have "evictIfNeededLocked ord (m\<lparr>tb_buckets := ?bs\<rparr>) = m"
    using assms(3,4) by (simp add: evictIfNeededLocked_def evict_oldest.simps)
  moreover have "map_of (tb_buckets m) key = None" using assms(6) by (simp add: map_of_eq_None_iff)
  ultimately show ?thesis using b1 by (simp add: tb_allow_def Let_def put tb_store_def)
qed

lemma tb_fresh_run:
  assumes "\<And>now. tb_allow ord m (now, key) = (m, d)"
  shows "run_calls (tb_allow ord) m (map (\<lambda>t. (t, key)) ts) = (m, replicate (length ts) d)"
  by (induction ts) (simp_all add: assms)

section \<open>Properties\<close>


definition one_per_second :: tier_config where
  "one_per_second = zero_tier\<lparr>Rate := 1, Burst := 2, MaxKeys := 3\<rparr>"

definition burst_calls :: "(int \<times> string) list" where
  "burst_calls = [(0, ''a''), (0, ''a''), (0, ''b''), (0, ''a''), (Second, ''a''), (Second, ''a'')]"


text \<open>
  When the map is at its cap and every tracked bucket is in use, a new key is never
  limited: the eviction that its insertion triggers removes the new, still full bucket
  itself, so each of its calls is granted and leaves the map as it was.
\<close>

theorem fresh_key_not_limited:
  assumes "tb_inv m" and "range_order ord" and "tb_maxKeys m > 0" and "int (length (tb_buckets m)) = tb_maxKeys m"
    and "\<forall>(k, b) \<in> set (tb_buckets m). tokens b < tb_burst m - 1 / 10000" and "key \<notin> set (map fst (tb_buckets m))"
  shows "run_calls (tb_allow ord) m (map (\<lambda>t. (t, key)) ts)
           = (m, replicate (length ts) (AllowOK (trunc (tb_burst m - 1)) (trunc (tb_burst m))))"
  by (rule tb_fresh_run) (rule tb_fresh_untracked [OF assms])

definition hot_map :: token_bucket_map where
  "hot_map = \<lparr>tb_buckets = [(''a'', \<lparr>tokens = 0, lastRefill = 0\<rparr>)], tb_rate = 1, tb_burst = 1, tb_maxKeys = 1\<rparr>"

theorem fresh_key_not_limited_witness:
  "snd (run_calls (tb_allow (map fst)) hot_map (map (\<lambda>t. (t, ''b'')) [0, 0, 0])) = replicate 3 (AllowOK 0 1)"
proof -
  have "tb_inv hot_map" by (simp add: tb_inv_def hot_map_def map_ok_def bucket_ok_def)
  then have "run_calls (tb_allow (map fst)) hot_map (map (\<lambda>t. (t, ''b'')) [0, 0, 0])
      = (hot_map, replicate (length [0 :: int, 0, 0]) (AllowOK (trunc (tb_burst hot_map - 1)) (trunc (tb_burst hot_map))))"
    by (rule fresh_key_not_limited [OF _ range_order_keys]) (simp_all add: hot_map_def)
  moreover have "trunc (tb_burst hot_map - 1) = 0" "trunc (tb_burst hot_map) = 1"
    by (simp_all add: hot_map_def trunc_def)
  ultimately show ?thesis by (simp add: numeral_3_eq_3)
qed

end
