(* ===== verification/Failures.thy ===== *)
theory Failures
  imports RateTiers
begin

text \<open>
  The failure counter (internal/ratelimit/failure.go) that burns verification codes: it
  counts failures per key until a reset, and evicts some other key when the map is over
  its cap. Its specification is the number of failures since the last reset.
\<close>

section \<open>State and operations\<close>

record failure_counter =
  fc_attempts :: "(string, int) go_map"
  fc_max :: int
  fc_maxKeys :: int

definition newFailureCounter :: "tier_config \<Rightarrow> failure_counter" where
  "newFailureCounter cfg =
     \<lparr>fc_attempts = [],
      fc_max = (if MaxEvents cfg < 1 then 10 else MaxEvents cfg),
      fc_maxKeys = (if MaxKeys cfg \<le> 0 then 10000 else MaxKeys cfg)\<rparr>"

definition fc_reconfigure :: "failure_counter \<Rightarrow> tier_config \<Rightarrow> failure_counter" where
  "fc_reconfigure f cfg =
     f\<lparr>fc_max := (if MaxEvents cfg > 0 then MaxEvents cfg else fc_max f),
       fc_maxKeys := (if MaxKeys cfg > 0 then MaxKeys cfg else fc_maxKeys f)\<rparr>"

text \<open>\<open>f.attempts[key]\<close>, zero when the key is absent.\<close>

definition fc_count :: "failure_counter \<Rightarrow> string \<Rightarrow> int" where
  "fc_count f key = (case map_of (fc_attempts f) key of None \<Rightarrow> 0 | Some n \<Rightarrow> n)"

definition fc_check :: "failure_counter \<Rightarrow> string \<Rightarrow> bool" where
  "fc_check f key \<longleftrightarrow> fc_count f key < fc_max f"

definition fc_record :: "((string, int) go_map \<Rightarrow> string list) \<Rightarrow> failure_counter \<Rightarrow> string \<Rightarrow> failure_counter" where
  "fc_record ord f key =
     (let m = map_put key (fc_count f key + 1) (fc_attempts f)
      in if fc_maxKeys f > 0 \<and> int (length m) > fc_maxKeys f
         then (case filter (\<lambda>k. k \<noteq> key) (ord m) of
                 [] \<Rightarrow> f\<lparr>fc_attempts := m\<rparr>
               | k # _ \<Rightarrow> f\<lparr>fc_attempts := map_del k m\<rparr>)
         else f\<lparr>fc_attempts := m\<rparr>)"

definition fc_reset :: "failure_counter \<Rightarrow> string \<Rightarrow> failure_counter" where
  "fc_reset f key = f\<lparr>fc_attempts := map_del key (fc_attempts f)\<rparr>"

section \<open>Sequences of operations\<close>

datatype fc_op = FcRecord string | FcReset string

fun fc_exec :: "((string, int) go_map \<Rightarrow> string list) \<Rightarrow> failure_counter \<Rightarrow> fc_op \<Rightarrow> failure_counter" where
  "fc_exec ord f (FcRecord k) = fc_record ord f k"
| "fc_exec ord f (FcReset k) = fc_reset f k"

fun op_key :: "fc_op \<Rightarrow> string" where
  "op_key (FcRecord k) = k"
| "op_key (FcReset k) = k"

text \<open>The specification: failures of a key since its last reset.\<close>

fun failures_since :: "string \<Rightarrow> fc_op list \<Rightarrow> int \<Rightarrow> int" where
  "failures_since key [] n = n"
| "failures_since key (FcRecord k # ops) n = failures_since key ops (if k = key then n + 1 else n)"
| "failures_since key (FcReset k # ops) n = failures_since key ops (if k = key then 0 else n)"

definition fc_inv :: "failure_counter \<Rightarrow> bool" where
  "fc_inv f \<longleftrightarrow> map_ok (fc_attempts f) \<and> list_all (\<lambda>(k, n). n \<ge> 1) (fc_attempts f)"

lemma fc_count_nonneg: "fc_inv f \<Longrightarrow> fc_count f k \<ge> 0"
  by (force simp: fc_inv_def fc_count_def list_all_iff split: option.split dest!: map_of_SomeD)

lemma fc_exec_fields [simp]:
  "fc_max (fc_exec ord f p) = fc_max f" "fc_maxKeys (fc_exec ord f p) = fc_maxKeys f"
  by (cases p; simp add: fc_record_def fc_reset_def Let_def split: list.split)+

lemma fc_put_inv: "fc_inv f \<Longrightarrow> fc_inv (f\<lparr>fc_attempts := map_put k (fc_count f k + 1) (fc_attempts f)\<rparr>)"
  using set_map_put_subset [of k "fc_count f k + 1" "fc_attempts f"] fc_count_nonneg [of f k]
  by (auto simp: fc_inv_def map_ok_put list_all_iff)

lemma fc_del_inv: "fc_inv (f\<lparr>fc_attempts := m\<rparr>) \<Longrightarrow> fc_inv (f\<lparr>fc_attempts := map_del k m\<rparr>)"
  using map_del_sub [of k m] by (auto simp: fc_inv_def map_ok_del list_all_iff)

lemma fc_exec_inv: "fc_inv f \<Longrightarrow> fc_inv (fc_exec ord f p)"
proof (cases p)
  case (FcRecord k)
  assume "fc_inv f"
  then show ?thesis
    using FcRecord fc_put_inv [of f k] by (auto simp: fc_record_def Let_def fc_del_inv split: list.split)
next
  case (FcReset k)
  assume "fc_inv f"
  then show ?thesis using FcReset fc_del_inv [where f = f and m = "fc_attempts f" and k = k] by (simp add: fc_reset_def)
qed

text \<open>
  An operation moves the counter of its key as specified and, eviction apart, no other: the
  eviction can only lose failures, never add them.
\<close>

lemma fc_exec_count:
  assumes "fc_inv f"
  shows "fc_count (fc_exec ord f (FcRecord k)) k = fc_count f k + 1"
    and "fc_count (fc_exec ord f (FcReset k)) k = 0"
    and "k' \<noteq> op_key p \<Longrightarrow> fc_count (fc_exec ord f p) k' \<le> fc_count f k'"
proof -
  show "fc_count (fc_exec ord f (FcRecord k)) k = fc_count f k + 1"
    by (auto simp: fc_record_def Let_def fc_count_def [of "fc_attempts_update g f" for g] split: list.split
        dest!: filter_eq_ConsD)
  show "fc_count (fc_exec ord f (FcReset k)) k = 0" by (simp add: fc_reset_def fc_count_def)
  show "fc_count (fc_exec ord f p) k' \<le> fc_count f k'" if "k' \<noteq> op_key p"
    using that fc_count_nonneg [OF assms, of k']
    by (cases p)
       (auto simp: fc_record_def fc_reset_def Let_def fc_count_def [of "fc_attempts_update g f" for g] fc_count_def [of f k', symmetric]
         split: list.split)
qed

text \<open>While the keys in use fit the cap, nothing is evicted.\<close>

lemma fc_exec_exact:
  assumes "fc_inv f" and "set (map fst (fc_attempts f)) \<union> {op_key p} \<subseteq> K" and "finite K" and "int (card K) \<le> fc_maxKeys f"
  shows "k' \<noteq> op_key p \<Longrightarrow> fc_count (fc_exec ord f p) k' = fc_count f k'"
    and "set (map fst (fc_attempts (fc_exec ord f p))) \<subseteq> K"
proof -
  have small: "int (length (map_put (op_key p) v (fc_attempts f))) \<le> fc_maxKeys f" for v
  proof -
    let ?ks = "map fst (map_put (op_key p) v (fc_attempts f))"
    have "map_ok (map_put (op_key p) v (fc_attempts f))" using assms(1) by (simp add: fc_inv_def map_ok_put)
    then have d: "card (set ?ks) = length ?ks" unfolding map_ok_def by (rule distinct_card)
    have "set ?ks \<subseteq> K" using assms(2) unfolding keys_map_put by auto
    with assms(3) have "card (set ?ks) \<le> card K" by (rule card_mono)
    then have "length ?ks \<le> card K" unfolding d .
    with assms(4) show ?thesis by simp
  qed
  have rec: "fc_exec ord f p = f\<lparr>fc_attempts := map_put (op_key p) (fc_count f (op_key p) + 1) (fc_attempts f)\<rparr>
        \<or> fc_exec ord f p = f\<lparr>fc_attempts := map_del (op_key p) (fc_attempts f)\<rparr>"
  proof (cases p)
    case (FcRecord k)
    with small have "\<not> int (length (map_put k (fc_count f k + 1) (fc_attempts f))) > fc_maxKeys f" by (simp add: not_less)
    with FcRecord show ?thesis by (simp add: fc_record_def Let_def)
  qed (simp add: fc_reset_def)
  from rec show "fc_count (fc_exec ord f p) k' = fc_count f k'" if "k' \<noteq> op_key p"
    using that by (elim disjE; simp only:; simp add: fc_count_def)
  have "set (map fst (map_put (op_key p) v (fc_attempts f))) \<subseteq> K" for v
    using assms(2) unfolding keys_map_put by auto
  moreover have "set (map fst (map_del (op_key p) (fc_attempts f))) \<subseteq> K"
    using assms(2) unfolding keys_map_del by auto
  ultimately show "set (map fst (fc_attempts (fc_exec ord f p))) \<subseteq> K"
    using rec by (elim disjE; simp only:; simp)
qed

lemma fc_run_exact:
  assumes "fc_inv f" and "set (map fst (fc_attempts f)) \<union> set (map op_key ops) \<subseteq> K" and "finite K" and "int (card K) \<le> fc_maxKeys f"
  shows "fc_count (foldl (fc_exec ord) f ops) key = failures_since key ops (fc_count f key)"
  using assms
proof (induction ops arbitrary: f)
  case (Cons p ops)
  have K: "set (map fst (fc_attempts f)) \<union> {op_key p} \<subseteq> K" using Cons.prems(2) by auto
  note ex = fc_exec_exact [OF Cons.prems(1) K Cons.prems(3,4), where ord = ord]
  have "fc_count (fc_exec ord f p) key = failures_since key [p] (fc_count f key)"
    using ex(1) [of key] fc_exec_count(1,2) [OF Cons.prems(1), where ord = ord] by (cases p) auto
  moreover have "fc_count (foldl (fc_exec ord) (fc_exec ord f p) ops) key = failures_since key ops (fc_count (fc_exec ord f p) key)"
    using Cons.prems ex(2) by (intro Cons.IH) (auto simp: fc_exec_inv simp del: set_map)
  ultimately show ?case by (cases p) auto
qed simp

lemma failures_since_mono: "n \<le> n' \<Longrightarrow> failures_since key ops n \<le> failures_since key ops n'"
  by (induction key ops n arbitrary: n' rule: failures_since.induct) auto

lemma fc_run_upper:
  assumes "fc_inv f"
  shows "fc_count (foldl (fc_exec ord) f ops) key \<le> failures_since key ops (fc_count f key)"
  using assms
proof (induction ops arbitrary: f)
  case (Cons p ops)
  have "fc_count (fc_exec ord f p) key \<le> failures_since key [p] (fc_count f key)"
  proof (cases "op_key p = key")
    case True
    then show ?thesis using fc_exec_count(1,2) [OF Cons.prems, where ord = ord] by (cases p) auto
  next
    case False
    then have "failures_since key [p] (fc_count f key) = fc_count f key" by (cases p) auto
    with False fc_exec_count(3) [OF Cons.prems, of key p ord] show ?thesis by simp
  qed
  then have "failures_since key ops (fc_count (fc_exec ord f p) key) \<le> failures_since key (p # ops) (fc_count f key)"
    by (cases p) (auto intro: failures_since_mono split: if_splits)
  with Cons.IH [OF fc_exec_inv [OF Cons.prems]] show ?case by (force intro: order_trans)
qed simp

section \<open>Properties\<close>

text \<open>
  A key passes the failure check exactly while it has fewer failures since its last
  reset than the cap, as long as no more keys are in use than the counter tracks; with
  more keys than that, an eviction can forget failures but never blocks a key early.
\<close>

theorem failure_counter_correct:
  fixes cfg :: tier_config
  defines "f0 \<equiv> newFailureCounter cfg"
  shows "(failures_since key ops 0 < fc_max f0 \<longrightarrow> fc_check (foldl (fc_exec ord) f0 ops) key)
       \<and> (int (card (set (map op_key ops))) \<le> fc_maxKeys f0 \<longrightarrow>
            fc_check (foldl (fc_exec ord) f0 ops) key = (failures_since key ops 0 < fc_max f0))"
proof -
  have inv: "fc_inv f0" and e: "fc_count f0 key = 0" "fc_attempts f0 = []"
    by (simp_all add: f0_def newFailureCounter_def fc_inv_def fc_count_def)
  have m: "fc_max (foldl (fc_exec ord) f ops) = fc_max f" for f
    by (induction ops arbitrary: f) simp_all
  show ?thesis
    using fc_run_upper [OF inv, of ord ops key] fc_run_exact [OF inv, of ops "set (map op_key ops)" ord key] e
    by (auto simp: fc_check_def m)
qed

theorem failure_counter_correct_witness:
  "\<not> fc_check (foldl (fc_exec (map fst)) (newFailureCounter (zero_tier\<lparr>MaxEvents := 2, MaxKeys := 2\<rparr>))
      [FcRecord ''a'', FcReset ''a'', FcRecord ''a'', FcRecord ''b'', FcRecord ''a'']) ''a''"
proof -
  let ?ops = "[FcRecord ''a'', FcReset ''a'', FcRecord ''a'', FcRecord ''b'', FcRecord ''a'']"
  let ?cfg = "zero_tier\<lparr>MaxEvents := 2, MaxKeys := 2\<rparr>"
  have "int (card (set (map op_key ?ops))) \<le> fc_maxKeys (newFailureCounter ?cfg)" by code_simp
  moreover have "\<not> failures_since ''a'' ?ops 0 < fc_max (newFailureCounter ?cfg)" by code_simp
  ultimately show ?thesis
    using failure_counter_correct [where key = "''a''" and ops = ?ops and cfg = ?cfg and ord = "map fst"] by blast
qed

end
