(* ===== verification/Semaphores.thy ===== *)
theory Semaphores
  imports RateTiers
begin

text \<open>
  The concurrency caps (internal/ratelimit/semaphore.go). Semaphores live on a heap, since an
  evicted semaphore is still used by the requests that hold a pointer to it. The atomic
  steps of concurrent requests are events: the locked lookup of \<open>keyedSemaphore.acquire\<close>,
  the non-blocking send, the send or the refusal that ends the wait, the two halves of taking
  a slot (channel send, then the counter) and the two halves of a release. Time is not
  modelled: a waiting request may give up at any moment (its timer or its context).
\<close>

section \<open>Semaphores and the keyed map\<close>

record semaphore =
  sem_cap :: nat
  sem_slots :: nat
  sem_held :: int
  sem_timeout :: int

definition newSemaphore :: "int \<Rightarrow> int \<Rightarrow> semaphore" where
  "newSemaphore capacity waitBudget =
     \<lparr>sem_cap = (if capacity < 1 then 1 else nat capacity), sem_slots = 0, sem_held = 0,
      sem_timeout = (if waitBudget \<le> 0 then 2 * Second else waitBudget)\<rparr>"

record keyed_semaphore =
  ks_sems :: "(string, nat) go_map"
  ks_capacity :: int
  ks_waitBudget :: int
  ks_maxKeys :: int

definition newKeyedSemaphore :: "tier_config \<Rightarrow> int \<Rightarrow> keyed_semaphore" where
  "newKeyedSemaphore cfg waitBudget =
     \<lparr>ks_sems = [], ks_capacity = (if Concurrency cfg < 1 then 1 else Concurrency cfg),
      ks_waitBudget = waitBudget, ks_maxKeys = (if MaxKeys cfg \<le> 0 then 10000 else MaxKeys cfg)\<rparr>"

definition ks_reconfigure :: "keyed_semaphore \<Rightarrow> tier_config \<Rightarrow> keyed_semaphore" where
  "ks_reconfigure k cfg =
     k\<lparr>ks_capacity := (if Concurrency cfg > 0 then Concurrency cfg else ks_capacity k),
       ks_maxKeys := (if MaxKeys cfg > 0 then MaxKeys cfg else ks_maxKeys k)\<rparr>"

text \<open>The two passes of \<open>evictLocked\<close>: idle semaphores first, then any but the new one.\<close>

fun evict_idle :: "semaphore list \<Rightarrow> int \<Rightarrow> string \<Rightarrow> string list \<Rightarrow> (string, nat) go_map \<Rightarrow> (string, nat) go_map" where
  "evict_idle heap n skip [] sems = sems"
| "evict_idle heap n skip (k # ks) sems =
     (if k = skip then evict_idle heap n skip ks sems
      else case map_of sems k of
        None \<Rightarrow> evict_idle heap n skip ks sems
      | Some a \<Rightarrow>
          if a < length heap \<and> sem_held (heap ! a) = 0 then
            (if int (length (map_del k sems)) \<le> n then map_del k sems
             else evict_idle heap n skip ks (map_del k sems))
          else evict_idle heap n skip ks sems)"

fun evict_any :: "int \<Rightarrow> string \<Rightarrow> string list \<Rightarrow> (string, nat) go_map \<Rightarrow> (string, nat) go_map" where
  "evict_any n skip [] sems = sems"
| "evict_any n skip (k # ks) sems =
     (if k = skip then evict_any n skip ks sems
      else if int (length (map_del k sems)) \<le> n then map_del k sems
      else evict_any n skip ks (map_del k sems))"

definition evictLocked ::
  "((string, nat) go_map \<Rightarrow> string list) \<Rightarrow> semaphore list \<Rightarrow> string \<Rightarrow> keyed_semaphore \<Rightarrow> keyed_semaphore" where
  "evictLocked ord heap skip k =
     (if ks_maxKeys k \<le> 0 \<or> int (length (ks_sems k)) \<le> ks_maxKeys k then k
      else
        (let sems = evict_idle heap (ks_maxKeys k) skip (ord (ks_sems k)) (ks_sems k)
         in if int (length sems) \<le> ks_maxKeys k then k\<lparr>ks_sems := sems\<rparr>
            else k\<lparr>ks_sems := evict_any (ks_maxKeys k) skip (ord sems) sems\<rparr>))"

text \<open>The locked part of \<open>keyedSemaphore.acquire\<close>: the address of the key's semaphore.\<close>

definition ks_lookup ::
  "((string, nat) go_map \<Rightarrow> string list) \<Rightarrow> string \<Rightarrow> keyed_semaphore \<times> semaphore list \<Rightarrow> (keyed_semaphore \<times> semaphore list) \<times> nat" where
  "ks_lookup ord key kh =
     (let (k, heap) = kh in
      case map_of (ks_sems k) key of
        Some a \<Rightarrow> ((k, heap), a)
      | None \<Rightarrow>
          (let a = length heap;
               heap = heap @ [newSemaphore (ks_capacity k) (ks_waitBudget k)];
               k = k\<lparr>ks_sems := map_put key a (ks_sems k)\<rparr>
           in ((evictLocked ord heap key k, heap), a)))"

section \<open>Requests and events\<close>

datatype phase = Pending | Waiting | Taken | Holding | Releasing | Released | Denied

record request =
  rq_key :: string
  rq_addr :: nat
  rq_phase :: phase

record sem_world =
  w_ks :: keyed_semaphore
  w_heap :: "semaphore list"
  w_reqs :: "request list"

datatype sem_event =
    EvEnter string
  | EvFast nat
  | EvWake nat
  | EvGiveUp nat
  | EvCount nat
  | EvRelease nat
  | EvUncount nat
  | EvReconfigure tier_config

definition sem_full :: "semaphore \<Rightarrow> bool" where
  "sem_full s \<longleftrightarrow> sem_slots s \<ge> sem_cap s"

definition set_phase :: "nat \<Rightarrow> phase \<Rightarrow> sem_world \<Rightarrow> sem_world" where
  "set_phase i ph w = w\<lparr>w_reqs := (w_reqs w)[i := (w_reqs w ! i)\<lparr>rq_phase := ph\<rparr>]\<rparr>"

definition upd_sem :: "nat \<Rightarrow> (semaphore \<Rightarrow> semaphore) \<Rightarrow> sem_world \<Rightarrow> sem_world" where
  "upd_sem a g w = w\<lparr>w_heap := (w_heap w)[a := g (w_heap w ! a)]\<rparr>"

text \<open>
  One event, \<open>None\<close> when it cannot happen: a send needs a free slot, a receive a taken one.
  The release function runs its body once; calling it again does nothing.
\<close>

definition request_step :: "sem_event \<Rightarrow> nat \<Rightarrow> sem_world \<Rightarrow> sem_world option" where
  "request_step e i w =
     (if i \<ge> length (w_reqs w) then None
      else
        (let r = w_reqs w ! i; a = rq_addr r; s = w_heap w ! a in
         case (e, rq_phase r) of
           (EvFast _, Pending) \<Rightarrow>
             Some (if sem_full s then set_phase i Waiting w
                   else set_phase i Taken (upd_sem a (\<lambda>s. s\<lparr>sem_slots := sem_slots s + 1\<rparr>) w))
         | (EvWake _, Waiting) \<Rightarrow>
             (if sem_full s then None
              else Some (set_phase i Taken (upd_sem a (\<lambda>s. s\<lparr>sem_slots := sem_slots s + 1\<rparr>) w)))
         | (EvGiveUp _, Waiting) \<Rightarrow> Some (set_phase i Denied w)
         | (EvCount _, Taken) \<Rightarrow> Some (set_phase i Holding (upd_sem a (\<lambda>s. s\<lparr>sem_held := sem_held s + 1\<rparr>) w))
         | (EvRelease _, Holding) \<Rightarrow>
             (if sem_slots s = 0 then None
              else Some (set_phase i Releasing (upd_sem a (\<lambda>s. s\<lparr>sem_slots := sem_slots s - 1\<rparr>) w)))
         | (EvRelease _, Releasing) \<Rightarrow> Some w
         | (EvRelease _, Released) \<Rightarrow> Some w
         | (EvUncount _, Releasing) \<Rightarrow> Some (set_phase i Released (upd_sem a (\<lambda>s. s\<lparr>sem_held := sem_held s - 1\<rparr>) w))
         | _ \<Rightarrow> None))"

fun sem_step :: "((string, nat) go_map \<Rightarrow> string list) \<Rightarrow> sem_event \<Rightarrow> sem_world \<Rightarrow> sem_world option" where
  "sem_step ord (EvEnter key) w =
     (let ((k, heap), a) = ks_lookup ord key (w_ks w, w_heap w)
      in Some (w\<lparr>w_ks := k, w_heap := heap,
                 w_reqs := w_reqs w @ [\<lparr>rq_key = key, rq_addr = a, rq_phase = Pending\<rparr>]\<rparr>))"
| "sem_step ord (EvReconfigure cfg) w = Some (w\<lparr>w_ks := ks_reconfigure (w_ks w) cfg\<rparr>)"
| "sem_step ord (EvFast i) w = request_step (EvFast i) i w"
| "sem_step ord (EvWake i) w = request_step (EvWake i) i w"
| "sem_step ord (EvGiveUp i) w = request_step (EvGiveUp i) i w"
| "sem_step ord (EvCount i) w = request_step (EvCount i) i w"
| "sem_step ord (EvRelease i) w = request_step (EvRelease i) i w"
| "sem_step ord (EvUncount i) w = request_step (EvUncount i) i w"

fun sem_run :: "((string, nat) go_map \<Rightarrow> string list) \<Rightarrow> sem_event list \<Rightarrow> sem_world \<Rightarrow> sem_world option" where
  "sem_run ord [] w = Some w"
| "sem_run ord (e # es) w = (case sem_step ord e w of None \<Rightarrow> None | Some w' \<Rightarrow> sem_run ord es w')"

definition sem_start :: "tier_config \<Rightarrow> int \<Rightarrow> sem_world" where
  "sem_start cfg waitBudget = \<lparr>w_ks = newKeyedSemaphore cfg waitBudget, w_heap = [], w_reqs = []\<rparr>"

inductive sem_reach :: "((string, nat) go_map \<Rightarrow> string list) \<Rightarrow> tier_config \<Rightarrow> int \<Rightarrow> sem_world \<Rightarrow> bool"
  for ord cfg budget where
  start: "sem_reach ord cfg budget (sem_start cfg budget)"
| step: "sem_reach ord cfg budget w \<Longrightarrow> sem_step ord e w = Some w' \<Longrightarrow> sem_reach ord cfg budget w'"

lemma sem_run_reach:
  "sem_reach ord cfg b w \<Longrightarrow> sem_run ord es w = Some w' \<Longrightarrow> sem_reach ord cfg b w'"
  by (induction es arbitrary: w) (auto split: option.splits intro: sem_reach.step)

section \<open>Slots and counters agree with the requests\<close>

definition slots_of :: "sem_world \<Rightarrow> nat \<Rightarrow> nat" where
  "slots_of w a = length (filter (\<lambda>r. rq_addr r = a \<and> rq_phase r \<in> {Taken, Holding}) (w_reqs w))"

definition counted_of :: "sem_world \<Rightarrow> nat \<Rightarrow> nat" where
  "counted_of w a = length (filter (\<lambda>r. rq_addr r = a \<and> rq_phase r \<in> {Holding, Releasing}) (w_reqs w))"

definition sem_ok :: "sem_world \<Rightarrow> nat \<Rightarrow> bool" where
  "sem_ok w a \<longleftrightarrow> sem_slots (w_heap w ! a) = slots_of w a \<and> sem_held (w_heap w ! a) = int (counted_of w a)
     \<and> slots_of w a \<le> sem_cap (w_heap w ! a)"

definition sem_inv :: "sem_world \<Rightarrow> bool" where
  "sem_inv w \<longleftrightarrow> list_all (\<lambda>r. rq_addr r < length (w_heap w)) (w_reqs w)
     \<and> list_all (\<lambda>(k, a). a < length (w_heap w)) (ks_sems (w_ks w))
     \<and> (\<forall>a < length (w_heap w). sem_ok w a)"

lemma length_filter_update:
  assumes "i < length xs"
  shows "length (filter P (xs[i := y])) + (if P (xs ! i) then 1 else 0) = length (filter P xs) + (if P y then 1 else 0)"
  using assms
proof (induction xs arbitrary: i)
  case (Cons x xs)
  then show ?case by (cases i) auto
qed simp

lemma slots_of_phase:
  assumes "i < length (w_reqs w)"
  shows "slots_of (set_phase i ph w) a + (if rq_addr (w_reqs w ! i) = a \<and> rq_phase (w_reqs w ! i) \<in> {Taken, Holding} then 1 else 0)
       = slots_of w a + (if rq_addr (w_reqs w ! i) = a \<and> ph \<in> {Taken, Holding} then 1 else 0)"
    and "counted_of (set_phase i ph w) a + (if rq_addr (w_reqs w ! i) = a \<and> rq_phase (w_reqs w ! i) \<in> {Holding, Releasing} then 1 else 0)
       = counted_of w a + (if rq_addr (w_reqs w ! i) = a \<and> ph \<in> {Holding, Releasing} then 1 else 0)"
  using length_filter_update [OF assms, of "\<lambda>r. rq_addr r = a \<and> rq_phase r \<in> {Taken, Holding}" "(w_reqs w ! i)\<lparr>rq_phase := ph\<rparr>"]
    length_filter_update [OF assms, of "\<lambda>r. rq_addr r = a \<and> rq_phase r \<in> {Holding, Releasing}" "(w_reqs w ! i)\<lparr>rq_phase := ph\<rparr>"]
  by (simp_all add: slots_of_def counted_of_def set_phase_def)

lemma upd_sem_counts [simp]: "slots_of (upd_sem a g w) b = slots_of w b" "counted_of (upd_sem a g w) b = counted_of w b"
  by (simp_all add: slots_of_def counted_of_def upd_sem_def)

lemma world_parts [simp]:
  "w_heap (set_phase i ph w) = w_heap w" "w_ks (set_phase i ph w) = w_ks w" "length (w_reqs (set_phase i ph w)) = length (w_reqs w)"
  "w_reqs (upd_sem a g w) = w_reqs w" "w_ks (upd_sem a g w) = w_ks w" "length (w_heap (upd_sem a g w)) = length (w_heap w)"
  by (simp_all add: set_phase_def upd_sem_def)

lemma upd_sem_nth: "b < length (w_heap w) \<Longrightarrow> w_heap (upd_sem a g w) ! b = (if b = a then g (w_heap w ! a) else w_heap w ! b)"
  by (simp add: upd_sem_def nth_list_update)

lemma upd_sem_id: "upd_sem a (\<lambda>s. s) w = w"
  by (simp add: upd_sem_def)

text \<open>A step of one request that moves its semaphore along with its phase.\<close>

lemma phase_inv:
  assumes inv: "sem_inv w" and i: "i < length (w_reqs w)"
    and cap: "sem_cap (g s) = sem_cap s"
    and slots: "sem_slots (g s) + (if rq_phase (w_reqs w ! i) \<in> {Taken, Holding} then 1 else 0)
        = sem_slots s + (if ph \<in> {Taken, Holding} then 1 else 0)"
    and held: "sem_held (g s) + (if rq_phase (w_reqs w ! i) \<in> {Holding, Releasing} then 1 else 0)
        = sem_held s + (if ph \<in> {Holding, Releasing} then 1 else 0)"
    and bound: "sem_slots (g s) \<le> sem_cap s"
    and s: "s = w_heap w ! rq_addr (w_reqs w ! i)"
  shows "sem_inv (set_phase i ph (upd_sem (rq_addr (w_reqs w ! i)) g w))"
proof -
  let ?a = "rq_addr (w_reqs w ! i)" and ?u = "upd_sem (rq_addr (w_reqs w ! i)) g w"
  let ?w = "set_phase i ph ?u"
  have addr: "?a < length (w_heap w)" using inv i by (simp add: sem_inv_def list_all_length)
  have iu: "i < length (w_reqs ?u)" using i by simp
  have "sem_ok ?w b" if b: "b < length (w_heap w)" for b
  proof -
    have ok: "sem_ok w b" using inv b by (simp add: sem_inv_def)
    note c = slots_of_phase [OF iu, of ph b]
    show ?thesis
    proof (cases "b = ?a")
      case True
      have "slots_of ?w b = sem_slots (g s)" using c(1) slots ok True s by (simp add: sem_ok_def split: if_splits)
      moreover have "int (counted_of ?w b) = sem_held (g s)"
        using arg_cong [OF c(2), of int] held ok True s by (simp add: sem_ok_def split: if_splits)
      ultimately show ?thesis using True b cap bound s by (simp add: sem_ok_def upd_sem_nth)
    next
      case False
      then show ?thesis using c ok b by (simp add: sem_ok_def upd_sem_nth)
    qed
  qed
  moreover have "list_all (\<lambda>r. rq_addr r < length (w_heap ?w)) (w_reqs ?w)"
    using inv i by (auto simp: sem_inv_def list_all_length set_phase_def nth_list_update)
  ultimately show ?thesis using inv by (simp add: sem_inv_def)
qed

lemmas phase_inv_id = phase_inv [where g = "\<lambda>s. s", unfolded upd_sem_id]

lemma sem_inv_okD:
  "sem_inv w \<Longrightarrow> i < length (w_reqs w) \<Longrightarrow> sem_ok w (rq_addr (w_reqs w ! i))"
  by (simp add: sem_inv_def list_all_length)

lemma holding_slot:
  assumes "i < length (w_reqs w)" and "rq_phase (w_reqs w ! i) \<in> {Taken, Holding}"
  shows "slots_of w (rq_addr (w_reqs w ! i)) > 0"
  using assms nth_mem [OF assms(1)] by (auto simp: slots_of_def filter_empty_conv)

lemma request_step_inv: "sem_inv w \<Longrightarrow> request_step e i w = Some w' \<Longrightarrow> sem_inv w'"
proof -
  assume inv: "sem_inv w" and st: "request_step e i w = Some w'"
  then have i: "i < length (w_reqs w)" by (auto simp: request_step_def split: if_splits)
  note ok = sem_inv_okD [OF inv i]
  note phase_inv [OF inv i _ _ _ _ refl, simp] phase_inv_id [OF inv i _ _ _ _ refl, simp]
  from st i ok inv show ?thesis
    by (cases e; cases "rq_phase (w_reqs w ! i)")
       (auto simp: request_step_def Let_def sem_full_def sem_ok_def split: if_splits)
qed

lemma evict_idle_sub: "set (evict_idle heap n skip ks sems) \<subseteq> set sems"
proof (induction ks arbitrary: sems)
  case (Cons k ks)
  have "set (evict_idle heap n skip ks (map_del k sems)) \<subseteq> set sems"
    using Cons.IH map_del_sub by (rule order_trans)
  with Cons.IH [of sems] map_del_sub [of k sems] show ?case by (simp split: option.split)
qed simp

lemma evict_any_sub: "set (evict_any n skip ks sems) \<subseteq> set sems"
proof (induction ks arbitrary: sems)
  case (Cons k ks)
  have "set (evict_any n skip ks (map_del k sems)) \<subseteq> set sems"
    using Cons.IH map_del_sub by (rule order_trans)
  with Cons.IH [of sems] map_del_sub [of k sems] show ?case by simp
qed simp

lemma evictLocked_sub: "set (ks_sems (evictLocked ord heap skip k)) \<subseteq> set (ks_sems k)"
  unfolding evictLocked_def Let_def
  using evict_any_sub evict_idle_sub by (auto split: if_splits dest!: subsetD [OF evict_any_sub] subsetD [OF evict_idle_sub])

lemma filter_fresh_addr:
  assumes "list_all (\<lambda>r. rq_addr r < n) rs"
  shows "filter (\<lambda>r. rq_addr r = n \<and> P r) rs = []"
  using assms by (auto simp: list_all_iff filter_empty_conv)

lemma enter_inv:
  assumes inv: "sem_inv w" and st: "sem_step ord (EvEnter key) w = Some w'"
  shows "sem_inv w'"
proof (cases "map_of (ks_sems (w_ks w)) key")
  case (Some a)
  then have "a < length (w_heap w)" using inv by (auto simp: sem_inv_def list_all_iff dest!: map_of_SomeD)
  with Some inv st show ?thesis
    by (auto simp: ks_lookup_def sem_inv_def sem_ok_def slots_of_def counted_of_def)
next
  case None
  let ?n = "length (w_heap w)" and ?s = "newSemaphore (ks_capacity (w_ks w)) (ks_waitBudget (w_ks w))"
  let ?k = "(w_ks w)\<lparr>ks_sems := map_put key ?n (ks_sems (w_ks w))\<rparr>"
  have w': "w' = w\<lparr>w_ks := evictLocked ord (w_heap w @ [?s]) key ?k, w_heap := w_heap w @ [?s],
      w_reqs := w_reqs w @ [\<lparr>rq_key = key, rq_addr = ?n, rq_phase = Pending\<rparr>]\<rparr>"
    using st None by (simp add: ks_lookup_def Let_def)
  have addrs: "list_all (\<lambda>r. rq_addr r < ?n) (w_reqs w)" using inv by (simp add: sem_inv_def)
  have sub: "set (ks_sems (w_ks w')) \<subseteq> insert (key, ?n) (set (ks_sems (w_ks w)))"
    using evictLocked_sub [of ord "w_heap w @ [?s]" key ?k] set_map_put_subset [of key ?n "ks_sems (w_ks w)"]
    by (auto simp: w')
  have "sem_ok w' a" if "a < Suc ?n" for a
  proof (cases "a = ?n")
    case True
    then show ?thesis using filter_fresh_addr [OF addrs]
      by (simp add: w' sem_ok_def slots_of_def counted_of_def newSemaphore_def)
  next
    case False
    with that have a: "a < ?n" by simp
    with inv have "sem_ok w a" by (simp add: sem_inv_def)
    with a show ?thesis by (simp add: w' sem_ok_def slots_of_def counted_of_def nth_append)
  qed
  moreover have "list_all (\<lambda>(k, a). a < Suc ?n) (ks_sems (w_ks w'))"
    using sub inv by (fastforce simp: sem_inv_def list_all_iff)
  ultimately show ?thesis using addrs by (auto simp: sem_inv_def w' list_all_iff less_Suc_eq)
qed

lemma sem_step_inv: "sem_inv w \<Longrightarrow> sem_step ord e w = Some w' \<Longrightarrow> sem_inv w'"
proof (cases e)
  case (EvReconfigure cfg)
  assume "sem_inv w" "sem_step ord e w = Some w'"
  with EvReconfigure show ?thesis
    by (auto simp: sem_inv_def sem_ok_def slots_of_def counted_of_def ks_reconfigure_def)
qed (auto intro: request_step_inv enter_inv simp del: sem_step.simps(1))

lemma sem_start_inv: "sem_inv (sem_start cfg b)"
  by (simp add: sem_start_def sem_inv_def newKeyedSemaphore_def)

lemma sem_reach_inv: "sem_reach ord cfg b w \<Longrightarrow> sem_inv w"
  by (induction rule: sem_reach.induct) (blast intro: sem_start_inv sem_step_inv)+

section \<open>One semaphore per key while the keys fit\<close>

definition entered :: "sem_event list \<Rightarrow> string set" where
  "entered es = {k. EvEnter k \<in> set es}"

definition keyed_ok :: "int \<Rightarrow> string set \<Rightarrow> sem_world \<Rightarrow> bool" where
  "keyed_ok c K w \<longleftrightarrow> sem_inv w \<and> map_ok (ks_sems (w_ks w)) \<and> set (map fst (ks_sems (w_ks w))) \<subseteq> K
     \<and> int (card K) \<le> ks_maxKeys (w_ks w) \<and> ks_capacity (w_ks w) = c
     \<and> list_all (\<lambda>s. sem_cap s = nat c) (w_heap w)
     \<and> list_all (\<lambda>r. map_of (ks_sems (w_ks w)) (rq_key r) = Some (rq_addr r)) (w_reqs w)"

lemma request_step_shape:
  assumes "request_step e i w = Some w'"
  shows "w_ks w' = w_ks w \<and> map sem_cap (w_heap w') = map sem_cap (w_heap w)
       \<and> map rq_key (w_reqs w') = map rq_key (w_reqs w) \<and> map rq_addr (w_reqs w') = map rq_addr (w_reqs w)"
proof -
  have "map sem_cap (xs[a := g (xs ! a)]) = map sem_cap xs" if "\<And>s. sem_cap (g s) = sem_cap s" for a xs and g :: "semaphore \<Rightarrow> semaphore"
    using that by (metis list_update_id map_update)
  moreover have "map rq_key (xs[i := (xs ! i)\<lparr>rq_phase := ph\<rparr>]) = map rq_key xs"
    "map rq_addr (xs[i := (xs ! i)\<lparr>rq_phase := ph\<rparr>]) = map rq_addr xs" for xs :: "request list" and ph
    by (simp_all add: map_update, metis list_update_id map_update, metis list_update_id map_update)
  ultimately show ?thesis
    using assms
    by (cases e; cases "rq_phase (w_reqs w ! i)")
       (auto simp: request_step_def Let_def set_phase_def upd_sem_def split: if_splits)
qed

lemma list_all_map_eq: "map f xs = map f ys \<Longrightarrow> list_all (\<lambda>x. P (f x)) xs = list_all (\<lambda>x. P (f x)) ys"
  by (metis list.pred_map comp_def list.pred_cong)

lemma request_step_keyed:
  assumes "keyed_ok c K w" and "request_step e i w = Some w'"
  shows "keyed_ok c K w'"
proof -
  note sh = request_step_shape [OF assms(2)]
  have "list_all (\<lambda>s. sem_cap s = nat c) (w_heap w') = list_all (\<lambda>s. sem_cap s = nat c) (w_heap w)"
    using sh by (intro list_all_map_eq) simp
  moreover have "zip (map rq_key (w_reqs w')) (map rq_addr (w_reqs w')) = zip (map rq_key (w_reqs w)) (map rq_addr (w_reqs w))"
    using sh by simp
  then have "map (\<lambda>r. (rq_key r, rq_addr r)) (w_reqs w') = map (\<lambda>r. (rq_key r, rq_addr r)) (w_reqs w)"
    by (simp add: zip_map1 zip_map2 zip_same_conv_map comp_def)
  then have "list_all (\<lambda>r. (\<lambda>(k, a). map_of (ks_sems (w_ks w)) k = Some a) (rq_key r, rq_addr r)) (w_reqs w')
      = list_all (\<lambda>r. (\<lambda>(k, a). map_of (ks_sems (w_ks w)) k = Some a) (rq_key r, rq_addr r)) (w_reqs w)"
    by (rule list_all_map_eq)
  ultimately show ?thesis using assms sh request_step_inv [OF _ assms(2)] by (simp add: keyed_ok_def)
qed

lemma enter_keyed:
  assumes ok: "keyed_ok c K w" and K: "key \<in> K" "finite K" and c: "c \<ge> 1"
    and st: "sem_step ord (EvEnter key) w = Some w'"
  shows "keyed_ok c K w'"
proof -
  have inv': "sem_inv w'" using ok st by (auto simp: keyed_ok_def intro: enter_inv)
  show ?thesis
  proof (cases "map_of (ks_sems (w_ks w)) key")
    case (Some a)
    then have w': "w' = w\<lparr>w_reqs := w_reqs w @ [\<lparr>rq_key = key, rq_addr = a, rq_phase = Pending\<rparr>]\<rparr>"
      using st by (simp add: ks_lookup_def)
    from ok inv' Some show ?thesis unfolding keyed_ok_def w' by simp
  next
    case None
    let ?n = "length (w_heap w)" and ?s = "newSemaphore c (ks_waitBudget (w_ks w))"
    let ?sems = "map_put key ?n (ks_sems (w_ks w))"
    have cc: "ks_capacity (w_ks w) = c" using ok by (simp add: keyed_ok_def)
    have keys: "set (map fst ?sems) \<subseteq> K" using ok K unfolding keys_map_put by (auto simp: keyed_ok_def)
    have mok: "map_ok ?sems" using ok by (simp add: keyed_ok_def map_ok_put)
    then have "length ?sems = card (set (map fst ?sems))" using distinct_card [of "map fst ?sems"] by (simp add: map_ok_def)
    also have "\<dots> \<le> card K" using K(2) keys by (rule card_mono)
    finally have fits: "int (length ?sems) \<le> ks_maxKeys (w_ks w)" using ok by (simp add: keyed_ok_def)
    have w': "w' = w\<lparr>w_ks := (w_ks w)\<lparr>ks_sems := ?sems\<rparr>, w_heap := w_heap w @ [?s],
        w_reqs := w_reqs w @ [\<lparr>rq_key = key, rq_addr = ?n, rq_phase = Pending\<rparr>]\<rparr>"
      using st None fits cc by (simp add: ks_lookup_def Let_def evictLocked_def)
    have "list_all (\<lambda>r. map_of ?sems (rq_key r) = Some (rq_addr r)) (w_reqs w)"
      using ok None by (auto simp: keyed_ok_def list_all_iff)
    then show ?thesis using ok inv' mok keys c
      by (auto simp: keyed_ok_def w' newSemaphore_def simp del: set_map)
  qed
qed

lemma sem_event_kind:
  "(\<exists>k. e = EvEnter k) \<or> (\<exists>c. e = EvReconfigure c) \<or> (\<exists>i. sem_step ord e w = request_step e i w)"
  by (cases e) auto

lemma sem_run_keyed:
  assumes "keyed_ok c K w" and "entered es \<subseteq> K" and "finite K" and "c \<ge> 1"
    and "\<forall>cfg. EvReconfigure cfg \<notin> set es" and "sem_run ord es w = Some w'"
  shows "keyed_ok c K w'"
  using assms
proof (induction es arbitrary: w)
  case (Cons e es)
  from Cons.prems(6) obtain w1 where w1: "sem_step ord e w = Some w1" "sem_run ord es w1 = Some w'"
    by (auto split: option.splits)
  from sem_event_kind consider (enter) k where "e = EvEnter k" | (set) cf where "e = EvReconfigure cf"
    | (req) i where "sem_step ord e w = request_step e i w" by blast
  then have "keyed_ok c K w1"
  proof cases
    case enter
    have "k \<in> K" using Cons.prems(2) enter by (auto simp: entered_def)
    with Cons.prems(1,3,4) w1(1) enter show ?thesis by (blast intro: enter_keyed)
  next
    case set
    then show ?thesis using Cons.prems(5) by auto
  next
    case req
    then show ?thesis using Cons.prems(1) w1(1) by (auto intro: request_step_keyed)
  qed
  moreover have "entered es \<subseteq> K" using Cons.prems(2) by (auto simp: entered_def)
  ultimately show ?case using Cons.prems(3-5) w1(2) by (intro Cons.IH [of w1]) auto
qed simp

definition in_flight :: "string \<Rightarrow> sem_world \<Rightarrow> nat" where
  "in_flight key w = length (filter (\<lambda>r. rq_key r = key \<and> rq_phase r \<in> {Taken, Holding}) (w_reqs w))"

lemma in_flight_bound:
  assumes ok: "keyed_ok c K w"
  shows "in_flight key w \<le> nat c"
proof (cases "\<exists>r \<in> set (w_reqs w). rq_key r = key")
  case True
  have inv: "sem_inv w" and reqs: "\<forall>r \<in> set (w_reqs w). map_of (ks_sems (w_ks w)) (rq_key r) = Some (rq_addr r)"
    and caps: "\<forall>s \<in> set (w_heap w). sem_cap s = nat c"
    using ok by (simp_all add: keyed_ok_def list_all_iff)
  from True reqs obtain a where a: "map_of (ks_sems (w_ks w)) key = Some a" by auto
  then have "(key, a) \<in> set (ks_sems (w_ks w))" by (rule map_of_SomeD)
  then have len: "a < length (w_heap w)" using inv by (force simp: sem_inv_def list_all_iff)
  then have "sem_ok w a" using inv by (simp add: sem_inv_def)
  moreover have "sem_cap (w_heap w ! a) = nat c" using caps len by simp
  ultimately have "slots_of w a \<le> nat c" by (simp add: sem_ok_def)
  moreover have "length (filter (\<lambda>r. rq_key r = key \<and> rq_phase r \<in> {Taken, Holding}) rs)
      \<le> length (filter (\<lambda>r. rq_addr r = a \<and> rq_phase r \<in> {Taken, Holding}) rs)"
    if "\<forall>r \<in> set rs. rq_key r = key \<longrightarrow> rq_addr r = a" for rs
    using that by (induction rs) auto
  from this [of "w_reqs w"] reqs a have "in_flight key w \<le> slots_of w a"
    unfolding in_flight_def slots_of_def by force
  ultimately show ?thesis by simp
next
  case False
  then show ?thesis by (auto simp: in_flight_def filter_empty_conv)
qed

section \<open>Properties\<close>

text \<open>
  Claim C31. In every state that concurrent acquires, waits, refusals and releases can reach,
  with any eviction order, each semaphore (also one the map has already dropped) has
  exactly as many taken slots as requests that took one and have not released, and never
  more than its capacity; so a release always finds its slot, and releasing twice changes
  nothing.
\<close>

theorem semaphore_slots_exact:
  assumes "sem_reach ord cfg budget w"
  shows "(\<forall>a < length (w_heap w). sem_slots (w_heap w ! a) = slots_of w a \<and> slots_of w a \<le> sem_cap (w_heap w ! a))
       \<and> (\<forall>i < length (w_reqs w). rq_phase (w_reqs w ! i) = Holding \<longrightarrow>
            (\<exists>w'. sem_step ord (EvRelease i) w = Some w'
                 \<and> slots_of w' (rq_addr (w_reqs w ! i)) + 1 = slots_of w (rq_addr (w_reqs w ! i))
                 \<and> sem_step ord (EvRelease i) w' = Some w'))"
proof (intro conjI allI impI)
  note inv = sem_reach_inv [OF assms]
  show "sem_slots (w_heap w ! a) = slots_of w a" "slots_of w a \<le> sem_cap (w_heap w ! a)" if "a < length (w_heap w)" for a
    using inv that by (auto simp: sem_inv_def sem_ok_def)
  fix i assume i: "i < length (w_reqs w)" and h: "rq_phase (w_reqs w ! i) = Holding"
  let ?a = "rq_addr (w_reqs w ! i)"
  let ?u = "upd_sem ?a (\<lambda>s. s\<lparr>sem_slots := sem_slots s - 1\<rparr>) w"
  let ?w = "set_phase i Releasing ?u"
  have "sem_slots (w_heap w ! ?a) > 0" using holding_slot [OF i] h sem_inv_okD [OF inv i] by (simp add: sem_ok_def)
  then have "sem_step ord (EvRelease i) w = Some ?w" using i h by (simp add: request_step_def)
  moreover have "slots_of ?w ?a + 1 = slots_of w ?a"
    using slots_of_phase(1) [of i ?u Releasing ?a] i h by simp
  moreover have "sem_step ord (EvRelease i) ?w = Some ?w"
    using i by (simp add: request_step_def) (simp add: set_phase_def)
  ultimately show "\<exists>w'. sem_step ord (EvRelease i) w = Some w' \<and> slots_of w' ?a + 1 = slots_of w ?a
      \<and> sem_step ord (EvRelease i) w' = Some w'" by blast
qed

definition one_slot :: tier_config where
  "one_slot = zero_tier\<lparr>Concurrency := 1, MaxKeys := 1\<rparr>"

definition slot_events :: "sem_event list" where
  "slot_events = [EvEnter ''a'', EvFast 0, EvCount 0, EvEnter ''a'', EvFast 1]"

theorem semaphore_slots_exact_witness:
  "\<exists>w. sem_run (map fst) slot_events (sem_start one_slot Second) = Some w
     \<and> sem_slots (w_heap w ! 0) = slots_of w 0 \<and> slots_of w 0 = 1
     \<and> (\<exists>w'. sem_step (map fst) (EvRelease 0) w = Some w' \<and> slots_of w' 0 + 1 = slots_of w 0)"
proof -
  obtain w where w: "sem_run (map fst) slot_events (sem_start one_slot Second) = Some w"
    "length (w_heap w) = 1" "length (w_reqs w) = 2" "rq_phase (w_reqs w ! 0) = Holding" "rq_addr (w_reqs w ! 0) = 0" "slots_of w 0 = 1"
  proof -
    let ?w = "the (sem_run (map fst) slot_events (sem_start one_slot Second))"
    have "sem_run (map fst) slot_events (sem_start one_slot Second) \<noteq> None" by code_simp
    moreover have "length (w_heap ?w) = 1" "length (w_reqs ?w) = 2" "rq_phase (w_reqs ?w ! 0) = Holding" "rq_addr (w_reqs ?w ! 0) = 0" "slots_of ?w 0 = 1"
      by code_simp+
    ultimately show ?thesis using that [of ?w] by simp
  qed
  have "sem_reach (map fst) one_slot Second w" using w(1) by (rule sem_run_reach [OF sem_reach.start])
  from semaphore_slots_exact [OF this] w show ?thesis by fastforce
qed

text \<open>
  Claim C32. While no more distinct keys enter than the map tracks and the settings do not change,
  the requests of one key that hold a slot at the same time never exceed the configured
  concurrency, however the requests interleave.
\<close>

theorem concurrency_cap_per_key:
  assumes "sem_run ord es (sem_start cfg budget) = Some w" and "\<forall>cfg'. EvReconfigure cfg' \<notin> set es"
    and "finite (entered es)" and "int (card (entered es)) \<le> ks_maxKeys (w_ks (sem_start cfg budget))"
  shows "int (in_flight key w) \<le> max 1 (Concurrency cfg)"
proof -
  let ?c = "max 1 (Concurrency cfg)"
  have "keyed_ok ?c (entered es) (sem_start cfg budget)"
    using assms(4) sem_start_inv [of cfg budget]
    by (simp add: keyed_ok_def) (simp add: sem_start_def newKeyedSemaphore_def)
  moreover have "?c \<ge> 1" by simp
  ultimately have "keyed_ok ?c (entered es) w"
    using sem_run_keyed [OF _ subset_refl assms(3) _ assms(2,1)] by blast
  then have "in_flight key w \<le> nat ?c" by (rule in_flight_bound)
  then show ?thesis by linarith
qed

theorem concurrency_cap_per_key_witness:
  "int (in_flight ''a'' (the (sem_run (map fst) slot_events (sem_start one_slot Second)))) \<le> 1"
proof -
  have "sem_run (map fst) slot_events (sem_start one_slot Second) \<noteq> None" by code_simp
  then obtain w where w: "sem_run (map fst) slot_events (sem_start one_slot Second) = Some w" by auto
  have e: "entered slot_events = {''a''}"
    by (auto simp: slot_events_def entered_def)
  have "int (in_flight ''a'' w) \<le> max 1 (Concurrency one_slot)"
  proof (rule concurrency_cap_per_key [OF w])
    show "\<forall>cfg'. EvReconfigure cfg' \<notin> set slot_events" by (simp add: slot_events_def)
    show "finite (entered slot_events)" by (simp add: e)
    show "int (card (entered slot_events)) \<le> ks_maxKeys (w_ks (sem_start one_slot Second))"
      by (simp add: e sem_start_def newKeyedSemaphore_def one_slot_def)
  qed
  then show ?thesis using w by (simp add: one_slot_def)
qed

end
