(* ===== verification/Registry.thy ===== *)
theory Registry
  imports Sliding Bucket Failures Semaphores
begin

text \<open>
  The registry of all limiters (internal/ratelimit/registry.go) and the HTTP middleware around
  it (middleware.go). The per-tier arrays are functions from tiers; semaphores live on the
  registry's heap. An acquire is modelled at the moment of its decision: a free slot is
  taken, otherwise the wait ends in a refusal (the interleavings of waiting requests are the
  subject of \<open>Semaphores\<close>). The order in which \<open>range\<close> visits each kind of map is a parameter.
\<close>

section \<open>State\<close>

record range_orders =
  ob :: "(string, bucket) go_map \<Rightarrow> string list"
  os :: "(string, nat) go_map \<Rightarrow> string list"
  oc :: "(string, int) go_map \<Rightarrow> string list"

record registry =
  rg_cfg :: rl_config
  rg_sliding :: "tier \<Rightarrow> sliding_window option"
  rg_buckets :: "tier \<Rightarrow> token_bucket_map option"
  rg_kSemaphores :: "tier \<Rightarrow> keyed_semaphore option"
  rg_failures :: "tier \<Rightarrow> failure_counter option"
  rg_globalSem :: "nat option"
  rg_globalRate :: "token_bucket_map option"
  rg_heap :: "semaphore list"

text \<open>The release function of an acquire: nil, a no-op, or the release of a slot.\<close>

datatype release = NilRelease | NoopRelease | SlotRelease nat

definition empty_registry :: "rl_config \<Rightarrow> registry" where
  "empty_registry cfg =
     \<lparr>rg_cfg = cfg, rg_sliding = (\<lambda>_. None), rg_buckets = (\<lambda>_. None), rg_kSemaphores = (\<lambda>_. None),
      rg_failures = (\<lambda>_. None), rg_globalSem = None, rg_globalRate = None, rg_heap = []\<rparr>"

definition global_rate_cfg :: "rl_config \<Rightarrow> int \<Rightarrow> tier_config" where
  "global_rate_cfg cfg maxKeys =
     zero_tier\<lparr>Rate := Rate (Tiers cfg TierGlobal), Burst := Burst (Tiers cfg TierGlobal), MaxKeys := maxKeys\<rparr>"

definition build :: "rl_config \<Rightarrow> registry \<Rightarrow> registry" where
  "build cfg r =
     (if Off cfg then r
      else r\<lparr>
        rg_sliding := (\<lambda>t. if t \<noteq> TierGlobal \<and> Algorithm (Tiers cfg t) = AlgSliding
                           then Some (newSlidingWindow (Tiers cfg t)) else rg_sliding r t),
        rg_buckets := (\<lambda>t. if t \<noteq> TierGlobal \<and> Algorithm (Tiers cfg t) = AlgTokenBucket
                           then Some (newTokenBucketMap (Tiers cfg t)) else rg_buckets r t),
        rg_failures := (\<lambda>t. if t \<noteq> TierGlobal \<and> Algorithm (Tiers cfg t) = AlgFailureCounter
                           then Some (newFailureCounter (Tiers cfg t)) else rg_failures r t),
        rg_kSemaphores := (if Concurrency (Tiers cfg TierProxy) > 0
                           then (rg_kSemaphores r)(TierProxy \<mapsto> newKeyedSemaphore (Tiers cfg TierProxy) (2 * Second))
                           else rg_kSemaphores r),
        rg_globalSem := Some (length (rg_heap r)),
        rg_heap := rg_heap r @ [newSemaphore (Concurrency (Tiers cfg TierGlobal)) (Second div 2)],
        rg_globalRate := Some (newTokenBucketMap (global_rate_cfg cfg 1))\<rparr>)"

definition New :: "rl_config \<Rightarrow> registry" where
  "New cfg = build cfg (empty_registry cfg)"

definition Reload :: "rl_config \<Rightarrow> registry \<Rightarrow> registry" where
  "Reload newCfg r =
     (let old = rg_cfg r;
          r = r\<lparr>rg_cfg := newCfg,
            rg_sliding := (\<lambda>t. map_option (\<lambda>l. sw_reconfigure l (Tiers newCfg t)) (rg_sliding r t)),
            rg_buckets := (\<lambda>t. map_option (\<lambda>l. tb_reconfigure l (Tiers newCfg t)) (rg_buckets r t)),
            rg_kSemaphores := (\<lambda>t. case rg_kSemaphores r t of
                Some k \<Rightarrow> Some (ks_reconfigure k (Tiers newCfg t))
              | None \<Rightarrow> if t = TierProxy \<and> Concurrency (Tiers newCfg t) > 0
                        then Some (newKeyedSemaphore (Tiers newCfg t) (2 * Second)) else None),
            rg_failures := (\<lambda>t. map_option (\<lambda>f. fc_reconfigure f (Tiers newCfg t)) (rg_failures r t))\<rparr>;
          r = (if Concurrency (Tiers newCfg TierGlobal) \<noteq> Concurrency (Tiers old TierGlobal)
               then r\<lparr>rg_globalSem := Some (length (rg_heap r)),
                      rg_heap := rg_heap r @ [newSemaphore (Concurrency (Tiers newCfg TierGlobal)) (Second div 2)]\<rparr>
               else r)
      in r\<lparr>rg_globalRate := map_option (\<lambda>m. tb_reconfigure m (global_rate_cfg newCfg 0)) (rg_globalRate r)\<rparr>)"

section \<open>Rate checks\<close>

definition Check :: "registry \<Rightarrow> int \<Rightarrow> tier \<Rightarrow> string \<Rightarrow> registry \<times> decision" where
  "Check r now t key =
     (if Off (rg_cfg r) \<or> key = [] then (r, AllowOK 0 0)
      else case rg_sliding r t of
        Some l \<Rightarrow> (let (l', d) = sw_check l now key in (r\<lparr>rg_sliding := (rg_sliding r)(t \<mapsto> l')\<rparr>, d))
      | None \<Rightarrow> (r, AllowOK 0 0))"

definition Allow :: "range_orders \<Rightarrow> registry \<Rightarrow> int \<Rightarrow> tier \<Rightarrow> string \<Rightarrow> registry \<times> decision" where
  "Allow ro r now t key =
     (if Off (rg_cfg r) \<or> key = [] then (r, AllowOK 0 0)
      else case rg_sliding r t of
        Some l \<Rightarrow> (let (l', d) = sw_allow l now key in (r\<lparr>rg_sliding := (rg_sliding r)(t \<mapsto> l')\<rparr>, d))
      | None \<Rightarrow>
          (case rg_buckets r t of
             Some m \<Rightarrow> (let (m', d) = tb_allow (ob ro) m (now, key) in (r\<lparr>rg_buckets := (rg_buckets r)(t \<mapsto> m')\<rparr>, d))
           | None \<Rightarrow> (r, AllowOK 0 0)))"

definition AllowGlobalRPS :: "range_orders \<Rightarrow> registry \<Rightarrow> int \<Rightarrow> registry \<times> decision" where
  "AllowGlobalRPS ro r now =
     (if Off (rg_cfg r) then (r, AllowOK 0 0)
      else case rg_globalRate r of
        None \<Rightarrow> (r, AllowOK 0 0)
      | Some m \<Rightarrow> (let (m', d) = tb_allow (ob ro) m (now, ''global'') in (r\<lparr>rg_globalRate := Some m'\<rparr>, d)))"

section \<open>Concurrency\<close>

definition sem_acquire :: "semaphore list \<Rightarrow> nat \<Rightarrow> semaphore list \<times> release \<times> decision" where
  "sem_acquire heap a =
     (let s = heap ! a in
      if sem_full s then (heap, NilRelease, Deny ''concurrency'' Second (int (sem_cap s)))
      else (heap[a := s\<lparr>sem_slots := sem_slots s + 1, sem_held := sem_held s + 1\<rparr>], SlotRelease a,
            AllowOK (int (sem_cap s) - int (sem_slots s + 1)) (int (sem_cap s))))"

definition AcquireGlobal :: "registry \<Rightarrow> registry \<times> release \<times> decision" where
  "AcquireGlobal r =
     (if Off (rg_cfg r) then (r, NoopRelease, AllowOK 0 0)
      else case rg_globalSem r of
        None \<Rightarrow> (r, NoopRelease, AllowOK 0 0)
      | Some a \<Rightarrow> (let (heap, rel, d) = sem_acquire (rg_heap r) a in (r\<lparr>rg_heap := heap\<rparr>, rel, d)))"

definition acquireKeyed :: "range_orders \<Rightarrow> registry \<Rightarrow> tier \<Rightarrow> string \<Rightarrow> registry \<times> release \<times> decision" where
  "acquireKeyed ro r t key =
     (if Off (rg_cfg r) \<or> key = [] then (r, NoopRelease, AllowOK 0 0)
      else case rg_kSemaphores r t of
        None \<Rightarrow> (r, NoopRelease, AllowOK 0 0)
      | Some k \<Rightarrow>
          (let ((k, heap), a) = ks_lookup (os ro) key (k, rg_heap r);
               (heap, rel, d) = sem_acquire heap a
           in (r\<lparr>rg_kSemaphores := (rg_kSemaphores r)(t \<mapsto> k), rg_heap := heap\<rparr>, rel, d)))"

record proxy_enforcement =
  pe_Allowed :: bool
  pe_Release :: release
  pe_Decision :: decision
  pe_ErrCode :: string
  pe_Message :: string

definition zero_decision :: decision where
  "zero_decision = \<lparr>dec_Allow = False, RetryAfter = 0, Remaining = 0, Limit = 0, Reason = []\<rparr>"

definition scope_key :: "string \<Rightarrow> string \<Rightarrow> string" where
  "scope_key actorID vaultID = ''scope:'' @ actorID @ '':'' @ vaultID"

definition EnforceProxy :: "range_orders \<Rightarrow> registry \<Rightarrow> int \<Rightarrow> string \<Rightarrow> string \<Rightarrow> registry \<times> proxy_enforcement" where
  "EnforceProxy ro r now actorID vaultID =
     (if Off (rg_cfg r) \<or> actorID = [] \<or> vaultID = []
      then (r, \<lparr>pe_Allowed = True, pe_Release = NoopRelease, pe_Decision = zero_decision, pe_ErrCode = [], pe_Message = []\<rparr>)
      else
        (let key = scope_key actorID vaultID; (r, d) = Allow ro r now TierProxy key in
         if \<not> dec_Allow d
         then (r, \<lparr>pe_Allowed = False, pe_Release = NilRelease, pe_Decision = d, pe_ErrCode = ''rate_limit_scope'',
                   pe_Message = ''Proxy rate limit exceeded for this scope''\<rparr>)
         else
           (let (r, rel, d) = acquireKeyed ro r TierProxy key in
            if \<not> dec_Allow d
            then (r, \<lparr>pe_Allowed = False, pe_Release = NilRelease, pe_Decision = d, pe_ErrCode = ''concurrency_scope'',
                      pe_Message = ''Proxy at concurrency limit for this scope''\<rparr>)
            else (r, \<lparr>pe_Allowed = True, pe_Release = rel, pe_Decision = zero_decision, pe_ErrCode = [], pe_Message = []\<rparr>))))"

section \<open>Failure budgets\<close>

definition FailureCheck :: "registry \<Rightarrow> tier \<Rightarrow> string \<Rightarrow> bool" where
  "FailureCheck r t key \<longleftrightarrow>
     Off (rg_cfg r) \<or> key = [] \<or> (case rg_failures r t of None \<Rightarrow> True | Some f \<Rightarrow> fc_check f key)"

definition FailureRecord :: "range_orders \<Rightarrow> registry \<Rightarrow> tier \<Rightarrow> string \<Rightarrow> registry" where
  "FailureRecord ro r t key =
     (if Off (rg_cfg r) \<or> key = [] then r
      else case rg_failures r t of None \<Rightarrow> r
           | Some f \<Rightarrow> r\<lparr>rg_failures := (rg_failures r)(t \<mapsto> fc_record (oc ro) f key)\<rparr>)"

definition FailureReset :: "registry \<Rightarrow> tier \<Rightarrow> string \<Rightarrow> registry" where
  "FailureReset r t key =
     (if key = [] then r
      else case rg_failures r t of None \<Rightarrow> r
           | Some f \<Rightarrow> r\<lparr>rg_failures := (rg_failures r)(t \<mapsto> fc_reset f key)\<rparr>)"

section \<open>Middleware\<close>

text \<open>
  The middleware either calls the next handler, with the headers set so far and the slot it
  holds meanwhile, or writes a 429 with the headers of the refusal and its message.
\<close>

datatype mw_result =
    CallNext "(string, string) go_map" release
  | TooMany "(string, string) go_map" string

definition WriteDenial :: "decision \<Rightarrow> string \<Rightarrow> mw_result" where
  "WriteDenial d message =
     TooMany (rate_limit_headers d
              @ (case retry_after_header d of None \<Rightarrow> [] | Some v \<Rightarrow> [(''Retry-After'', v)])
              @ [(''Content-Type'', ''application/json'')]) message"

definition HandlerFunc :: "range_orders \<Rightarrow> registry \<Rightarrow> int \<Rightarrow> tier \<Rightarrow> string option \<Rightarrow> registry \<times> mw_result" where
  "HandlerFunc ro r now t keyer =
     (let key = (case keyer of None \<Rightarrow> [] | Some k \<Rightarrow> k) in
      if Off (rg_cfg r) \<or> key = [] then (r, CallNext [] NoopRelease)
      else
        (let (r, d) = Allow ro r now t key in
         if dec_Allow d then (r, CallNext (rate_limit_headers d) NoopRelease)
         else (r, WriteDenial d ''Too many requests, try again later'')))"

definition GlobalMiddleware :: "range_orders \<Rightarrow> registry \<Rightarrow> int \<Rightarrow> registry \<times> mw_result" where
  "GlobalMiddleware ro r now =
     (if Off (rg_cfg r) then (r, CallNext [] NoopRelease)
      else
        (let (r, d) = AllowGlobalRPS ro r now in
         if \<not> dec_Allow d then (r, WriteDenial d ''Server busy, try again shortly'')
         else
           (let (r, rel, d) = AcquireGlobal r in
            if \<not> dec_Allow d then (r, WriteDenial d ''Server at capacity, try again shortly'')
            else (r, CallNext [] rel))))"

section \<open>The registry's invariant\<close>

definition opt_all :: "('a \<Rightarrow> bool) \<Rightarrow> 'a option \<Rightarrow> bool" where
  "opt_all P x = (case x of None \<Rightarrow> True | Some y \<Rightarrow> P y)"

lemma opt_all_simps [simp]: "opt_all P None" "opt_all P (Some y) = P y"
  by (simp_all add: opt_all_def)

lemma opt_all_map [simp]: "opt_all P (map_option g x) = opt_all (\<lambda>y. P (g y)) x"
  by (cases x) simp_all

lemma opt_all_mono: "opt_all P x \<Longrightarrow> (\<And>y. P y \<Longrightarrow> Q y) \<Longrightarrow> opt_all Q x"
  by (cases x) simp_all

definition heap_ok :: "semaphore list \<Rightarrow> bool" where
  "heap_ok heap \<longleftrightarrow> list_all (\<lambda>s. sem_slots s \<le> sem_cap s \<and> sem_cap s \<ge> 1) heap"

definition ks_ok :: "semaphore list \<Rightarrow> keyed_semaphore \<Rightarrow> bool" where
  "ks_ok heap k \<longleftrightarrow> list_all (\<lambda>(key, a). a < length heap) (ks_sems k)"

definition rg_inv :: "registry \<Rightarrow> bool" where
  "rg_inv r \<longleftrightarrow> (\<forall>t. opt_all sw_inv (rg_sliding r t)) \<and> (\<forall>t. opt_all tb_inv (rg_buckets r t))
     \<and> (\<forall>t. opt_all fc_inv (rg_failures r t)) \<and> opt_all tb_inv (rg_globalRate r)
     \<and> (\<forall>t. opt_all (ks_ok (rg_heap r)) (rg_kSemaphores r t))
     \<and> opt_all (\<lambda>a. a < length (rg_heap r)) (rg_globalSem r) \<and> heap_ok (rg_heap r)"

lemma heap_ok_append [simp]: "heap_ok (h @ [newSemaphore c b]) = heap_ok h"
  by (auto simp: heap_ok_def newSemaphore_def)

lemma ks_ok_longer: "opt_all (ks_ok h) x \<Longrightarrow> length h \<le> length h' \<Longrightarrow> opt_all (ks_ok h') x"
  by (cases x) (auto simp: ks_ok_def list_all_iff)

lemma sem_acquire_ok:
  assumes "heap_ok heap" and "a < length heap"
  shows "heap_ok (fst (sem_acquire heap a))" and "length (fst (sem_acquire heap a)) = length heap"
  using assms by (auto simp: sem_acquire_def Let_def heap_ok_def sem_full_def list_all_length nth_list_update)

lemma sem_acquire_release: "(fst (snd (sem_acquire heap a)) = NilRelease) = (\<not> dec_Allow (snd (snd (sem_acquire heap a))))"
  by (simp add: sem_acquire_def Let_def)

lemma ks_lookup_ok:
  assumes "ks_ok heap k" and "heap_ok heap" and "ks_lookup ord key (k, heap) = ((k', heap'), a)"
  shows "a < length heap' \<and> ks_ok heap' k' \<and> heap_ok heap' \<and> (\<exists>h. heap' = heap @ h)"
proof (cases "map_of (ks_sems k) key")
  case (Some b)
  then show ?thesis using assms by (auto simp: ks_lookup_def ks_ok_def list_all_iff dest!: map_of_SomeD)
next
  case None
  let ?k = "k\<lparr>ks_sems := map_put key (length heap) (ks_sems k)\<rparr>" and ?h = "heap @ [newSemaphore (ks_capacity k) (ks_waitBudget k)]"
  have k': "k' = evictLocked ord ?h key ?k" "heap' = ?h" "a = length heap"
    using assms(3) None by (auto simp: ks_lookup_def Let_def)
  have "set (ks_sems k') \<subseteq> insert (key, length heap) (set (ks_sems k))"
    using evictLocked_sub [of ord ?h key ?k] set_map_put_subset [of key "length heap" "ks_sems k"] by (auto simp: k')
  then have "ks_ok heap' k'" using assms(1) by (fastforce simp: ks_ok_def list_all_iff k'(2))
  then show ?thesis using assms(2) by (simp add: k'(2,3))
qed

lemma build_inv: "rg_inv (New cfg)"
  by (auto simp: New_def build_def empty_registry_def rg_inv_def newSlidingWindow_inv newTokenBucketMap_inv heap_ok_def
      newSemaphore_def newFailureCounter_def fc_inv_def ks_ok_def newKeyedSemaphore_def)

lemma Reload_inv [inv_intros]: "rg_inv r \<Longrightarrow> rg_inv (Reload cfg r)"
proof -
  assume inv: "rg_inv r"
  have sw: "opt_all (\<lambda>l. sw_inv (sw_reconfigure l c)) (rg_sliding r t)" for c t
    using inv by (auto simp: rg_inv_def intro: opt_all_mono sw.reconfigure_inv)
  have tb: "opt_all (\<lambda>l. tb_inv (tb_reconfigure l c)) (rg_buckets r t)" "opt_all (\<lambda>l. tb_inv (tb_reconfigure l c)) (rg_globalRate r)" for c t
    using inv by (auto simp: rg_inv_def intro: opt_all_mono tb.reconfigure_inv)
  have fc: "opt_all (\<lambda>f. fc_inv (fc_reconfigure f c)) (rg_failures r t)" for c t
    using inv by (auto simp: rg_inv_def fc_inv_def fc_reconfigure_def intro: opt_all_mono)
  have ks: "opt_all (ks_ok h) (case rg_kSemaphores r t of Some k \<Rightarrow> Some (ks_reconfigure k (Tiers cfg t))
      | None \<Rightarrow> if P then Some (newKeyedSemaphore c b) else None)" if "length (rg_heap r) \<le> length h" for h t P c b
  proof (cases "rg_kSemaphores r t")
    case None
    then show ?thesis by (simp add: ks_ok_def newKeyedSemaphore_def)
  next
    case (Some k)
    then have "opt_all (ks_ok (rg_heap r)) (Some k)" using inv by (metis rg_inv_def)
    from ks_ok_longer [OF this that] Some show ?thesis by (simp add: ks_ok_def ks_reconfigure_def)
  qed
  from inv have "heap_ok (rg_heap r)" "opt_all (\<lambda>a. a < length (rg_heap r)) (rg_globalSem r)" by (simp_all add: rg_inv_def)
  with fc tb sw show ?thesis by (simp add: Reload_def Let_def rg_inv_def ks)
qed

lemma Check_inv [inv_intros]: "rg_inv r \<Longrightarrow> rg_inv (fst (Check r now t key))"
  using sw.allow_inv [where c = "SwCheck now key"]
  by (auto simp: Check_def rg_inv_def split_beta Let_def split: option.split dest!: spec [of _ t])

lemma Allow_inv [inv_intros]: "rg_inv r \<Longrightarrow> rg_inv (fst (Allow ro r now t key))"
  using sw.allow_inv [where c = "SwAllow now key"] tb.allow_inv [where ord = "ob ro" and c = "(now, key)"]
  by (auto simp: Allow_def rg_inv_def split_beta Let_def split: option.split dest!: spec [of _ t])

lemma AllowGlobalRPS_inv [inv_intros]: "rg_inv r \<Longrightarrow> rg_inv (fst (AllowGlobalRPS ro r now))"
  using tb.allow_inv [where ord = "ob ro" and c = "(now, ''global'')"]
  by (auto simp: AllowGlobalRPS_def rg_inv_def split_beta Let_def split: option.split)

lemma AcquireGlobal_inv [inv_intros]: "rg_inv r \<Longrightarrow> rg_inv (fst (AcquireGlobal r))"
  using sem_acquire_ok [of "rg_heap r"]
  by (auto simp: AcquireGlobal_def rg_inv_def split_beta Let_def split: option.split intro: ks_ok_longer)

lemma acquireKeyed_inv [inv_intros]: "rg_inv r \<Longrightarrow> rg_inv (fst (acquireKeyed ro r t key))"
proof -
  assume inv: "rg_inv r"
  show ?thesis
  proof (cases "Off (rg_cfg r) \<or> key = [] \<or> rg_kSemaphores r t = None")
    case True
    then show ?thesis using inv by (auto simp: acquireKeyed_def)
  next
    case False
    then obtain k where k: "rg_kSemaphores r t = Some k" and on: "\<not> Off (rg_cfg r)" "key \<noteq> []" by auto
    obtain k' heap a where l: "ks_lookup (os ro) key (k, rg_heap r) = ((k', heap), a)" by (metis prod.exhaust)
    have "ks_ok (rg_heap r) k" "heap_ok (rg_heap r)" using inv k by (auto simp: rg_inv_def dest!: spec [of _ t])
    from ks_lookup_ok [OF this l] obtain h where ok: "a < length heap" "ks_ok heap k'" "heap_ok heap" and h: "heap = rg_heap r @ h" by auto
    note acq = sem_acquire_ok [OF ok(3,1)]
    have "opt_all (ks_ok (fst (sem_acquire heap a))) (((rg_kSemaphores r)(t \<mapsto> k')) t')" for t'
      using inv ok(2) acq(2) ks_ok_longer [of heap "Some k'" "fst (sem_acquire heap a)"]
      by (auto simp: rg_inv_def h intro: ks_ok_longer)
    moreover have "opt_all (\<lambda>b. b < length (fst (sem_acquire heap a))) (rg_globalSem r)"
      using inv acq(2) by (auto simp: rg_inv_def h intro: opt_all_mono)
    ultimately show ?thesis
      using inv on k acq by (simp add: acquireKeyed_def l split_beta rg_inv_def)
  qed
qed

lemma EnforceProxy_inv [inv_intros]: "rg_inv r \<Longrightarrow> rg_inv (fst (EnforceProxy ro r now a v))"
  by (auto simp: EnforceProxy_def split_beta Let_def intro!: inv_intros)

lemma FailureRecord_inv [inv_intros]: "rg_inv r \<Longrightarrow> rg_inv (FailureRecord ro r t key)"
  using fc_exec_inv [where ord = "oc ro" and p = "FcRecord key"]
  by (auto simp: FailureRecord_def rg_inv_def split: option.split dest!: spec [of _ t])

lemma FailureReset_inv [inv_intros]: "rg_inv r \<Longrightarrow> rg_inv (FailureReset r t key)"
  using fc_exec_inv [where p = "FcReset key"]
  by (auto simp: FailureReset_def rg_inv_def split: option.split dest!: spec [of _ t])

lemma HandlerFunc_inv [inv_intros]: "rg_inv r \<Longrightarrow> rg_inv (fst (HandlerFunc ro r now t keyer))"
  by (auto simp: HandlerFunc_def Let_def split_beta intro!: inv_intros)

lemma GlobalMiddleware_inv [inv_intros]: "rg_inv r \<Longrightarrow> rg_inv (fst (GlobalMiddleware ro r now))"
  by (auto simp: GlobalMiddleware_def Let_def split_beta intro!: inv_intros)

section \<open>Runs of the registry\<close>

datatype rg_op =
    OpReload rl_config
  | OpCheck int tier string
  | OpAllow int tier string
  | OpGlobalRPS int
  | OpAcquireGlobal
  | OpEnforceProxy int string string
  | OpFailureRecord tier string
  | OpFailureReset tier string

fun rg_exec :: "range_orders \<Rightarrow> registry \<Rightarrow> rg_op \<Rightarrow> registry" where
  "rg_exec ro r (OpReload cfg) = Reload cfg r"
| "rg_exec ro r (OpCheck now t key) = fst (Check r now t key)"
| "rg_exec ro r (OpAllow now t key) = fst (Allow ro r now t key)"
| "rg_exec ro r (OpGlobalRPS now) = fst (AllowGlobalRPS ro r now)"
| "rg_exec ro r OpAcquireGlobal = fst (AcquireGlobal r)"
| "rg_exec ro r (OpEnforceProxy now a v) = fst (EnforceProxy ro r now a v)"
| "rg_exec ro r (OpFailureRecord t key) = FailureRecord ro r t key"
| "rg_exec ro r (OpFailureReset t key) = FailureReset r t key"

lemma rg_exec_inv: "rg_inv r \<Longrightarrow> rg_inv (rg_exec ro r p)"
  by (cases p) (auto intro: inv_intros)

lemma rg_run_inv: "rg_inv r \<Longrightarrow> rg_inv (foldl (rg_exec ro) r ops)"
  by (induction ops arbitrary: r) (simp_all add: rg_exec_inv)

lemma good_denial_OK [simp]: "good_denial (AllowOK m n)"
  by (simp add: good_denial_def)

lemma Allow_good_denial:
  assumes "rg_inv r" shows "good_denial (snd (Allow ro r now t key))"
  using assms sw.allow_denial [where c = "SwAllow now key"] tb.allow_denial [where ord = "ob ro" and c = "(now, key)"]
  by (auto simp: Allow_def split_beta Let_def rg_inv_def split: option.split dest!: spec [of _ t])

lemma Check_good_denial:
  assumes "rg_inv r" shows "good_denial (snd (Check r now t key))"
  using assms sw.allow_denial [where c = "SwCheck now key"]
  by (auto simp: Check_def split_beta Let_def rg_inv_def split: option.split dest!: spec [of _ t])

lemma Allow_frame:
  "rg_heap (fst (Allow ro r now t key)) = rg_heap r \<and> rg_kSemaphores (fst (Allow ro r now t key)) = rg_kSemaphores r
   \<and> rg_cfg (fst (Allow ro r now t key)) = rg_cfg r"
  by (simp add: Allow_def split_beta Let_def split: option.split)

lemma acquireKeyed_release:
  "(fst (snd (acquireKeyed ro r t key)) = NilRelease) = (\<not> dec_Allow (snd (snd (acquireKeyed ro r t key))))"
  using sem_acquire_release by (auto simp: acquireKeyed_def split_beta Let_def split: option.split)

section \<open>Properties\<close>

text \<open>
  After any sequence of registry operations, reloads included, every refusal of a rate
  check asks for a wait of at least one second, and no semaphore has more slots taken than
  its capacity.
\<close>

theorem registry_safe:
  fixes cfg :: rl_config and ro :: range_orders and ops :: "rg_op list"
  defines "r \<equiv> foldl (rg_exec ro) (New cfg) ops"
  shows "good_denial (snd (Allow ro r now t key)) \<and> good_denial (snd (Check r now t key))
       \<and> list_all (\<lambda>s. sem_slots s \<le> sem_cap s) (rg_heap r)"
proof -
  have "rg_inv r" unfolding r_def by (intro rg_run_inv build_inv)
  then show ?thesis
    by (auto simp: Allow_good_denial Check_good_denial rg_inv_def heap_ok_def list_all_iff)
qed

text \<open>
  The gate of the proxy path: a request is let through exactly when both the rate
  check and the concurrency check pass; the rate check comes first, and when it refuses, no
  semaphore is touched; the caller gets a release function exactly when it is let through,
  and a refusal names which check made it.
\<close>

theorem enforce_proxy_gate:
  assumes "EnforceProxy ro r now actorID vaultID = (r', pe)"
    and "\<not> Off (rg_cfg r)" and "actorID \<noteq> []" and "vaultID \<noteq> []"
    and "Allow ro r now TierProxy (scope_key actorID vaultID) = (r1, d1)"
    and "acquireKeyed ro r1 TierProxy (scope_key actorID vaultID) = (r2, rel, d2)"
  shows "pe_Allowed pe = (dec_Allow d1 \<and> dec_Allow d2) \<and> (pe_Release pe = NilRelease) = (\<not> pe_Allowed pe)
       \<and> (\<not> dec_Allow d1 \<longrightarrow> pe_ErrCode pe = ''rate_limit_scope'' \<and> rg_heap r' = rg_heap r
             \<and> rg_kSemaphores r' = rg_kSemaphores r)
       \<and> (dec_Allow d1 \<and> \<not> dec_Allow d2 \<longrightarrow> pe_ErrCode pe = ''concurrency_scope'')"
  using assms Allow_frame [of ro r now TierProxy "scope_key actorID vaultID"]
    acquireKeyed_release [of ro r1 TierProxy "scope_key actorID vaultID"]
  by (auto simp: EnforceProxy_def Let_def split: if_splits)

definition simple_orders :: range_orders where
  "simple_orders = \<lparr>ob = map fst, os = map fst, oc = map fst\<rparr>"

theorem enforce_proxy_gate_witness:
  "pe_Allowed (snd (EnforceProxy simple_orders (New (DefaultsFor ''default'')) 0 ''agent'' ''vault''))"
proof -
  let ?r = "New (DefaultsFor ''default'')" and ?k = "scope_key ''agent'' ''vault''"
  let ?e = "EnforceProxy simple_orders ?r 0 ''agent'' ''vault''"
  let ?a = "Allow simple_orders ?r 0 TierProxy ?k"
  let ?q = "acquireKeyed simple_orders (fst ?a) TierProxy ?k"
  have e: "?e = (fst ?e, snd ?e)" by simp
  have on: "\<not> Off (rg_cfg ?r)"
    by (simp add: New_def build_def empty_registry_def DefaultsFor_def ProfileOff_def Let_def)
  have a: "?a = (fst ?a, snd ?a)" by simp
  have q: "?q = (fst ?q, fst (snd ?q), snd (snd ?q))" by simp
  have "dec_Allow (snd ?a)" "dec_Allow (snd (snd ?q))" by code_simp+
  with enforce_proxy_gate [OF e on _ _ a q] show ?thesis by simp
qed

text \<open>
  A registry built from a configuration that is off has no limiters, and reloading it
  never creates them: whatever configuration is loaded later, no tier limits any key and no
  failure budget is enforced.
\<close>

theorem reload_after_off_limits_nothing:
  assumes "Off cfg"
  shows "snd (Allow ro (Reload newCfg (New cfg)) now t key) = AllowOK 0 0
       \<and> snd (Check (Reload newCfg (New cfg)) now t key) = AllowOK 0 0
       \<and> FailureCheck (FailureRecord ro (Reload newCfg (New cfg)) t key) t key
       \<and> snd (AllowGlobalRPS ro (Reload newCfg (New cfg)) now) = AllowOK 0 0"
  using assms
  by (simp add: New_def build_def empty_registry_def Reload_def Let_def Allow_def Check_def FailureCheck_def
      FailureRecord_def AllowGlobalRPS_def)

theorem reload_after_off_limits_nothing_witness:
  "snd (Allow simple_orders (Reload (DefaultsFor ''strict'') (New (DefaultsFor ''off''))) 0 TierAuth ''ip:10.0.0.1'') = AllowOK 0 0"
proof -
  have "Off (DefaultsFor ''off'')" by (simp add: DefaultsFor_def ProfileOff_def)
  then show ?thesis using reload_after_off_limits_nothing by blast
qed

end
