(* ===== verification/AuditRow.thy ===== *)
theory AuditRow
  imports GoStrings "HOL-Library.Word"
begin

text \<open>
  The rows of the audit trail (internal/auditchain/row.go): what a row holds, the input of its
  MAC in each MAC version, and the input of a checkpoint signature. HMAC-SHA-256 is an
  argument (\<open>hmac key message\<close>, the raw bytes). Shown: the encoding is injective, so
  that under one key two rows that verification accepts have the same MAC input only if they
  agree in every field.
\<close>

section \<open>Rows\<close>

definition RowType :: string where "RowType = ''gatehouse.audit.v1''"

definition EventChainStart :: string where "EventChainStart = ''chain_start''"
definition EventSessionOpen :: string where "EventSessionOpen = ''session_open''"
definition EventSessionClose :: string where "EventSessionClose = ''session_close''"
definition EventDenied :: string where "EventDenied = ''denied''"
definition EventCheckpoint :: string where "EventCheckpoint = ''checkpoint''"
definition EventCheckpointFailed :: string where "EventCheckpointFailed = ''checkpoint_failed''"
definition EventKeyRotated :: string where "EventKeyRotated = ''key_rotated''"
definition EventHTTPRequest :: string where "EventHTTPRequest = ''http_request''"
definition EventHTTPResponse :: string where "EventHTTPResponse = ''http_response''"
definition EventTransaction :: string where "EventTransaction = ''transaction''"
definition EventStateLeak :: string where "EventStateLeak = ''state_leak_caught''"
definition EventCertificate :: string where "EventCertificate = ''proxy_certificate''"

lemmas event_defs = EventChainStart_def EventSessionOpen_def EventSessionClose_def EventDenied_def EventCheckpoint_def
  EventCheckpointFailed_def EventKeyRotated_def EventHTTPRequest_def EventHTTPResponse_def EventTransaction_def
  EventStateLeak_def EventCertificate_def

text \<open>What a caller records (\<open>Event\<close> of chain.go), and the row around it.\<close>

record event =
  ev_Event :: string
  ev_Pool :: string
  ev_Agent :: string
  ev_PodUID :: string
  ev_Binding :: string
  ev_Session :: string
  ev_Outcome :: string
  ev_Requester :: string
  ev_RequesterKind :: string
  ev_RequesterOID :: string
  ev_TokenSHA256 :: string
  ev_Tier :: string
  ev_Decision :: string
  ev_Groups :: string
  ev_CacheAgeSec :: int
  ev_Kid :: string
  ev_KidSHA256 :: string
  ev_Peer :: string
  ev_Serial :: string
  ev_NotAfter :: string
  ev_DNSNames :: string
  ev_Target :: string
  ev_Method :: string
  ev_Status :: int
  ev_Duration :: int

record row = event +
  rw_Type :: string
  rw_Replica :: string
  rw_Boot :: "64 word"
  rw_Seq :: "64 word"
  rw_Time :: string
  rw_SignedSeq :: "64 word"
  rw_SignedMAC :: string
  rw_Signature :: string
  rw_PrevKey :: int
  rw_PrevBoot :: "64 word"
  rw_PrevCheckpointSeq :: "64 word"
  rw_PrevCheckpointMAC :: string
  rw_KeyVersion :: int
  rw_Prev :: string
  rw_MACVersion :: int
  rw_MAC :: string

section \<open>Encodings\<close>

definition FormatUint :: "64 word \<Rightarrow> string" where
  "FormatUint w = show_nat (unat w)"

text \<open>\<open>binary.BigEndian.PutUint32(uint32(n))\<close>: the four low bytes.\<close>

definition be32 :: "nat \<Rightarrow> string" where
  "be32 n = [char_of (n div 2 ^ 24 mod 256), char_of (n div 2 ^ 16 mod 256), char_of (n div 2 ^ 8 mod 256), char_of (n mod 256)]"

definition length_prefixed_field :: "string \<Rightarrow> string" where
  "length_prefixed_field f = be32 (length f) @ f"

definition lengthPrefixed :: "string \<Rightarrow> string list \<Rightarrow> string" where
  "lengthPrefixed domain fs = domain @ [char_of (0 :: nat)] @ concat (map length_prefixed_field fs)"

definition v1_fields :: "row \<Rightarrow> string list" where
  "v1_fields r =
     [rw_Type r, rw_Replica r, FormatUint (rw_Boot r), FormatUint (rw_Seq r), rw_Time r, ev_Event r,
      ev_Pool r, ev_Agent r, ev_PodUID r, ev_Binding r, ev_Session r, ev_Outcome r, ev_Requester r, ev_Method r,
      itoa (ev_Status r), itoa (ev_Duration r),
      FormatUint (rw_SignedSeq r), rw_SignedMAC r, rw_Signature r,
      itoa (rw_PrevKey r), FormatUint (rw_PrevBoot r), FormatUint (rw_PrevCheckpointSeq r), rw_PrevCheckpointMAC r,
      itoa (rw_KeyVersion r), rw_Prev r]"

definition v2_fields :: "row \<Rightarrow> string list" where
  "v2_fields r = v1_fields r @
     [itoa (rw_MACVersion r), ev_RequesterKind r, ev_RequesterOID r, ev_TokenSHA256 r, ev_Tier r, ev_Decision r, ev_Groups r,
      itoa (ev_CacheAgeSec r)]"

definition v3_fields :: "row \<Rightarrow> string list" where
  "v3_fields r = v2_fields r @ [ev_Kid r, ev_KidSHA256 r, ev_Peer r]"

definition v4_fields :: "row \<Rightarrow> string list" where
  "v4_fields r = v3_fields r @ [ev_Serial r, ev_NotAfter r, ev_DNSNames r]"

definition v5_fields :: "row \<Rightarrow> string list" where
  "v5_fields r = v4_fields r @ [ev_Target r]"

definition macInput :: "row \<Rightarrow> string" where
  "macInput r =
     (if rw_MACVersion r < 2 then lengthPrefixed ''gatehouse-audit-v1'' (v1_fields r)
      else if rw_MACVersion r < 3 then lengthPrefixed ''gatehouse-audit-v2'' (v2_fields r)
      else if rw_MACVersion r < 4 then lengthPrefixed ''gatehouse-audit-v3'' (v3_fields r)
      else if rw_MACVersion r < 5 then lengthPrefixed ''gatehouse-audit-v4'' (v4_fields r)
      else lengthPrefixed ''gatehouse-audit-v5'' (v5_fields r))"

definition v2Only :: "row \<Rightarrow> bool" where
  "v2Only r \<longleftrightarrow> ev_RequesterKind r \<noteq> [] \<or> ev_RequesterOID r \<noteq> [] \<or> ev_TokenSHA256 r \<noteq> [] \<or> ev_Tier r \<noteq> []
     \<or> ev_Decision r \<noteq> [] \<or> ev_Groups r \<noteq> [] \<or> ev_CacheAgeSec r \<noteq> 0"

definition v3Only :: "row \<Rightarrow> bool" where
  "v3Only r \<longleftrightarrow> ev_Kid r \<noteq> [] \<or> ev_KidSHA256 r \<noteq> [] \<or> ev_Peer r \<noteq> []"

definition v4Only :: "row \<Rightarrow> bool" where
  "v4Only r \<longleftrightarrow> ev_Serial r \<noteq> [] \<or> ev_NotAfter r \<noteq> [] \<or> ev_DNSNames r \<noteq> []"

definition v5Only :: "row \<Rightarrow> bool" where
  "v5Only r \<longleftrightarrow> ev_Target r \<noteq> []"

definition hex_byte :: "char \<Rightarrow> string" where
  "hex_byte c = (let d = (\<lambda>n. if n < 10 then char_of (48 + n) else char_of (87 + n :: nat))
                 in [d (byte_of c div 16), d (byte_of c mod 16)])"

definition hex_encode :: "string \<Rightarrow> string" where
  "hex_encode s = concat (map hex_byte s)"

definition computeMAC :: "(string \<Rightarrow> string \<Rightarrow> string) \<Rightarrow> row \<Rightarrow> string \<Rightarrow> string" where
  "computeMAC hmac r key = hex_encode (hmac key (macInput r))"

definition checkpointInput :: "string \<Rightarrow> 64 word \<Rightarrow> 64 word \<Rightarrow> string \<Rightarrow> string" where
  "checkpointInput replica boot seq mac =
     lengthPrefixed ''gatehouse-checkpoint-v1'' [replica, FormatUint boot, FormatUint seq, mac]"

definition MACVersionCurrent :: int where "MACVersionCurrent = 5"

section \<open>The encodings are injective\<close>

lemma FormatUint_inject [simp]: "FormatUint a = FormatUint b \<longleftrightarrow> a = b"
  by (simp add: FormatUint_def show_nat_inject word_unat_eq_iff)

lemma itoa_inject [simp]: "itoa i = itoa j \<longleftrightarrow> i = j"
proof
  assume eq: "itoa i = itoa j"
  have no: "CHR ''-'' # s \<noteq> show_nat n" for s n
    using show_nat_Cons [of n "CHR ''-''" s] by (auto simp: is_digit_def)
  show "i = j"
    using eq no no [symmetric] by (auto simp: itoa_def show_nat_inject split: if_splits)
qed simp

lemma char_of_inject: "a < 256 \<Longrightarrow> b < 256 \<Longrightarrow> (char_of a = (char_of (b :: nat) :: char)) = (a = b)"
  by (metis char_of_eq_iff mod_less of_char_of)

lemma be32_inject:
  assumes "m < 2 ^ 32" and "n < 2 ^ 32"
  shows "be32 m = be32 n \<longleftrightarrow> m = n"
proof
  have split: "k = (k div 2 ^ 24 mod 256) * 2 ^ 24 + (k div 2 ^ 16 mod 256) * 2 ^ 16 + (k div 2 ^ 8 mod 256) * 2 ^ 8 + k mod 256"
    if "k < 2 ^ 32" for k :: nat
  proof -
    define q1 q2 q3 where q: "q1 = k div 256" "q2 = q1 div 256" "q3 = q2 div 256"
    have div: "k div 2 ^ 8 = q1" "k div 2 ^ 16 = q2" "k div 2 ^ 24 = q3" by (simp_all add: q div_mult2_eq [symmetric])
    have "q3 < 256" using that by (simp add: div(3) [symmetric] less_mult_imp_div_less)
    then have "q3 mod 256 = q3" by simp
    moreover have "k = q1 * 256 + k mod 256" "q1 = q2 * 256 + q1 mod 256" "q2 = q3 * 256 + q2 mod 256" by (simp_all add: q)
    ultimately show ?thesis unfolding div by simp
  qed
  assume "be32 m = be32 n"
  then have "m div 2 ^ 24 mod 256 = n div 2 ^ 24 mod 256" "m div 2 ^ 16 mod 256 = n div 2 ^ 16 mod 256"
    "m div 2 ^ 8 mod 256 = n div 2 ^ 8 mod 256" "m mod 256 = n mod 256"
    by (simp_all add: be32_def char_of_inject)
  with split [OF assms(1)] split [OF assms(2)] show "m = n" by metis
qed simp

definition short :: "string \<Rightarrow> bool" where
  "short f \<longleftrightarrow> length f < 2 ^ 32"

lemma fields_inject:
  assumes "list_all short fs" and "list_all short gs"
    and "concat (map length_prefixed_field fs) = concat (map length_prefixed_field gs)"
  shows "fs = gs"
  using assms
proof (induction fs arbitrary: gs)
  case Nil
  then show ?case by (cases gs) (auto simp: length_prefixed_field_def be32_def)
next
  case (Cons f fs)
  then obtain g gs' where gs: "gs = g # gs'" by (cases gs) (auto simp: length_prefixed_field_def be32_def)
  have eq: "be32 (length f) @ f @ concat (map length_prefixed_field fs) = be32 (length g) @ g @ concat (map length_prefixed_field gs')"
    using Cons.prems(3) by (simp add: gs length_prefixed_field_def [of f] length_prefixed_field_def [of g])
  have "length (be32 (length f)) = length (be32 (length g))" by (simp add: be32_def)
  with eq have "be32 (length f) = be32 (length g)" and rest: "f @ concat (map length_prefixed_field fs) = g @ concat (map length_prefixed_field gs')"
    by simp_all
  then have "length f = length g" using Cons.prems(1,2) by (simp add: gs short_def be32_inject)
  with rest have "f = g" "concat (map length_prefixed_field fs) = concat (map length_prefixed_field gs')" by simp_all
  with Cons.IH [of gs'] Cons.prems(1,2) show ?case by (simp add: gs)
qed

definition nul :: char where "nul = char_of (0 :: nat)"

lemma split_nul:
  assumes "nul \<notin> set d" and "nul \<notin> set e" and "d @ [nul] @ xs = e @ [nul] @ ys"
  shows "d = e \<and> xs = ys"
proof -
  have "takeWhile (\<lambda>c. c \<noteq> nul) (d @ [nul] @ xs) = d" "takeWhile (\<lambda>c. c \<noteq> nul) (e @ [nul] @ ys) = e"
    using assms(1,2) by (auto simp: takeWhile_append takeWhile_eq_all_conv)
  with assms(3) have "d = e" by simp
  with assms(3) show ?thesis by simp
qed

lemma lengthPrefixed_inject:
  assumes "nul \<notin> set d" and "nul \<notin> set e" and "list_all short fs" and "list_all short gs"
    and "lengthPrefixed d fs = lengthPrefixed e gs"
  shows "d = e \<and> fs = gs"
  using split_nul [OF assms(1,2)] fields_inject [OF assms(3,4)] assms(5)
  unfolding lengthPrefixed_def nul_def by blast

text \<open>
  What verification asks of a row beside its MAC: a known MAC version and no field that its
  version does not cover.
\<close>

definition covered :: "row \<Rightarrow> bool" where
  "covered r \<longleftrightarrow> (rw_MACVersion r = 0 \<or> 2 \<le> rw_MACVersion r \<and> rw_MACVersion r \<le> MACVersionCurrent)
     \<and> \<not> (rw_MACVersion r < 2 \<and> v2Only r) \<and> \<not> (rw_MACVersion r < 3 \<and> v3Only r)
     \<and> \<not> (rw_MACVersion r < 4 \<and> v4Only r) \<and> \<not> (rw_MACVersion r < 5 \<and> v5Only r)"

definition short_row :: "row \<Rightarrow> bool" where
  "short_row r \<longleftrightarrow> list_all short (v5_fields r)"

lemmas fields_defs = v5_fields_def v4_fields_def v3_fields_def v2_fields_def v1_fields_def

definition mac_domain :: "row \<Rightarrow> string \<times> string list" where
  "mac_domain r =
     (if rw_MACVersion r < 2 then (''gatehouse-audit-v1'', v1_fields r)
      else if rw_MACVersion r < 3 then (''gatehouse-audit-v2'', v2_fields r)
      else if rw_MACVersion r < 4 then (''gatehouse-audit-v3'', v3_fields r)
      else if rw_MACVersion r < 5 then (''gatehouse-audit-v4'', v4_fields r)
      else (''gatehouse-audit-v5'', v5_fields r))"

lemma macInput_domain: "macInput r = lengthPrefixed (fst (mac_domain r)) (snd (mac_domain r))"
  by (simp add: macInput_def mac_domain_def)

lemma mac_domain_ok: "nul \<notin> set (fst (mac_domain r)) \<and> (short_row r \<longrightarrow> list_all short (snd (mac_domain r)))"
  by (simp add: mac_domain_def nul_def short_row_def v5_fields_def v4_fields_def v3_fields_def v2_fields_def char_of_eq_iff)

lemma mac_domain_eq:
  assumes "short_row r" and "short_row s" and "macInput r = macInput s"
  shows "mac_domain r = mac_domain s"
  using lengthPrefixed_inject [of "fst (mac_domain r)" "fst (mac_domain s)" "snd (mac_domain r)" "snd (mac_domain s)"]
    mac_domain_ok [of r] mac_domain_ok [of s] assms
  by (simp add: macInput_domain prod_eq_iff)

lemma row_ext:
  assumes "v5_fields r = v5_fields s"
  shows "r\<lparr>rw_MAC := m\<rparr> = s\<lparr>rw_MAC := m\<rparr>"
  using assms by (cases r; cases s) (simp add: fields_defs)

lemma v5_fields_covered:
  assumes "covered r" and "covered s" and "mac_domain r = mac_domain s"
  shows "v5_fields r = v5_fields s"
  using assms
  by (auto simp: covered_def mac_domain_def v2Only_def v3Only_def v4Only_def v5Only_def fields_defs MACVersionCurrent_def split: if_splits)

definition empty_event :: event where
  "empty_event =
     \<lparr>ev_Event = [], ev_Pool = [], ev_Agent = [], ev_PodUID = [], ev_Binding = [], ev_Session = [], ev_Outcome = [], ev_Requester = [],
      ev_RequesterKind = [], ev_RequesterOID = [], ev_TokenSHA256 = [], ev_Tier = [], ev_Decision = [], ev_Groups = [], ev_CacheAgeSec = 0,
      ev_Kid = [], ev_KidSHA256 = [], ev_Peer = [], ev_Serial = [], ev_NotAfter = [], ev_DNSNames = [], ev_Target = [],
      ev_Method = [], ev_Status = 0, ev_Duration = 0\<rparr>"

text \<open>A row that holds an event and is otherwise zero.\<close>

definition event_row :: "event \<Rightarrow> row" where
  "event_row e = event.extend e
     \<lparr>rw_Type = [], rw_Replica = [], rw_Boot = 0, rw_Seq = 0, rw_Time = [], rw_SignedSeq = 0, rw_SignedMAC = [], rw_Signature = [],
      rw_PrevKey = 0, rw_PrevBoot = 0, rw_PrevCheckpointSeq = 0, rw_PrevCheckpointMAC = [], rw_KeyVersion = 0, rw_Prev = [],
      rw_MACVersion = 0, rw_MAC = []\<rparr>"

section \<open>Properties\<close>

text \<open>
  Claim C3. No two rows that verification can accept share a MAC input: when two rows carry a
  known MAC version, set no field their version does not cover and have fields shorter than
  4 GiB, equal MAC inputs mean equal rows, the MAC itself apart.
\<close>

theorem mac_input_injective:
  assumes "covered r" and "covered s" and "short_row r" and "short_row s" and "macInput r = macInput s"
  shows "r\<lparr>rw_MAC := m\<rparr> = s\<lparr>rw_MAC := m\<rparr>"
  by (rule row_ext, rule v5_fields_covered [OF assms(1,2)], rule mac_domain_eq [OF assms(3-5)])

definition row_ab_c :: row where "row_ab_c = event_row (empty_event\<lparr>ev_Pool := ''ab'', ev_Agent := ''c''\<rparr>)"
definition row_a_bc :: row where "row_a_bc = event_row (empty_event\<lparr>ev_Pool := ''a'', ev_Agent := ''bc''\<rparr>)"

theorem mac_input_injective_witness: "macInput row_ab_c \<noteq> macInput row_a_bc"
proof
  assume eq: "macInput row_ab_c = macInput row_a_bc"
  have c: "covered row_ab_c" "covered row_a_bc" by code_simp+
  have sh: "short_row row_ab_c" "short_row row_a_bc" by code_simp+
  from mac_input_injective [OF c sh eq, of "[]"] have "ev_Pool (row_ab_c\<lparr>rw_MAC := []\<rparr>) = ev_Pool (row_a_bc\<lparr>rw_MAC := []\<rparr>)" by simp
  then show False by (simp add: row_ab_c_def row_a_bc_def event_row_def event.defs empty_event_def)
qed

end
