(* ===== verification/AuditEvent.thy ===== *)
theory AuditEvent
  imports AuditRow IPAddr
begin

text \<open>
  What may enter the audit trail (\<open>Event.Validate\<close> and its helpers in
  internal/auditchain/chain.go): fixed event names and methods, bounded printable
  identifiers, lists of group IDs and DNS names, canonical targets.
\<close>

section \<open>Text fields\<close>

definition audit_identifier :: "string \<Rightarrow> bool \<Rightarrow> bool" where
  "audit_identifier s optional =
     (if s = [] then optional
      else if length s > 512 then False
      else list_all (\<lambda>c. \<not> (byte_of c \<le> 32 \<or> byte_of c > 126 \<or> byte_of c = 34 \<or> byte_of c = 92)) s)"

definition lower_hex :: "char \<Rightarrow> bool" where
  "lower_hex c \<longleftrightarrow> is_digit c \<or> (97 \<le> byte_of c \<and> byte_of c \<le> 102)"

definition serialHex :: "string \<Rightarrow> bool" where
  "serialHex s \<longleftrightarrow> s = ''0'' \<or>
     (case s of [] \<Rightarrow> False | c # t \<Rightarrow> lower_hex c \<and> c \<noteq> CHR ''0'' \<and> length t \<le> 39 \<and> list_all lower_hex t)"

definition dns_label :: "string \<Rightarrow> bool" where
  "dns_label l \<longleftrightarrow> l \<noteq> [] \<and> length l \<le> 63 \<and> (is_lower (hd l) \<or> is_digit (hd l)) \<and> (is_lower (last l) \<or> is_digit (last l))
     \<and> list_all (\<lambda>c. is_lower c \<or> is_digit c \<or> c = CHR ''-'') l"

definition dnsName :: "string \<Rightarrow> bool" where
  "dnsName s \<longleftrightarrow> list_all dns_label (split_on (CHR ''.'') s)"

definition dnsNameList :: "string \<Rightarrow> bool" where
  "dnsNameList s \<longleftrightarrow> s = [] \<or> list_all (\<lambda>n. \<not> (length n > 253 \<or> \<not> dnsName n)) (split_on (CHR '','') s)"

definition groupID :: "string \<Rightarrow> bool" where
  "groupID s \<longleftrightarrow> map length (split_on (CHR ''-'') s) = [8, 4, 4, 4, 12] \<and> list_all (list_all lower_hex) (split_on (CHR ''-'') s)"

definition groupList :: "string \<Rightarrow> bool" where
  "groupList s \<longleftrightarrow> s = [] \<or> list_all groupID (split_on (CHR '','') s)"

text \<open>
  \<open>strings.ToLower\<close> of a host, \<open>None\<close> when the result is not ASCII: then it is neither an
  address nor a DNS name.
\<close>

definition lower_ascii :: "string \<Rightarrow> string option" where
  "lower_ascii s = (if list_all (\<lambda>r. r < 128) (lower_runes s) then Some (map char_of (lower_runes s)) else None)"

definition canonical_host :: "string \<Rightarrow> string option" where
  "canonical_host h =
     (case lower_ascii h of
        None \<Rightarrow> None
      | Some host \<Rightarrow>
          (case ParseIP host of
             Some a \<Rightarrow> Some (ip_string a)
           | None \<Rightarrow> if length host > 253 \<or> \<not> dnsName host then None else Some host))"

definition TargetField :: "string \<Rightarrow> string" where
  "TargetField hostport =
     (if hostport = [] then []
      else
        (let (host, port) = (case SplitHostPort hostport of
               Some hp \<Rightarrow> hp
             | None \<Rightarrow> (TrimSuffix (TrimPrefix hostport ''['') '']'', []))
         in case canonical_host host of
              None \<Rightarrow> ''invalid''
            | Some h \<Rightarrow>
                if port = [] then h
                else case atoi port of
                  None \<Rightarrow> ''invalid''
                | Some n \<Rightarrow> if n < 1 \<or> n > 65535 \<or> itoa n \<noteq> port then ''invalid'' else JoinHostPort h port))"

text \<open>
  A time that \<open>time.Parse(time.RFC3339)\<close> reads and that is already in its own UTC form:
  \<open>YYYY-MM-DDTHH:MM:SSZ\<close> with a valid date and time of day.
\<close>

definition days_in :: "nat \<Rightarrow> nat \<Rightarrow> nat" where
  "days_in y m =
     (if m = 2 then (if y mod 4 = 0 \<and> (y mod 100 \<noteq> 0 \<or> y mod 400 = 0) then 29 else 28)
      else if m \<in> {4, 6, 9, 11} then 30 else 31)"

definition rfc3339_utc :: "string \<Rightarrow> bool" where
  "rfc3339_utc s \<longleftrightarrow> length s = 20 \<and> list_all is_digit (map (nth s) [0, 1, 2, 3, 5, 6, 8, 9, 11, 12, 14, 15, 17, 18])
     \<and> s ! 4 = CHR ''-'' \<and> s ! 7 = CHR ''-'' \<and> s ! 10 = CHR ''T'' \<and> s ! 13 = CHR '':'' \<and> s ! 16 = CHR '':'' \<and> s ! 19 = CHR ''Z''
     \<and> (let num = (\<lambda>i n. read_nat (take n (drop i s))) in
         1 \<le> num 5 2 \<and> num 5 2 \<le> 12 \<and> 1 \<le> num 8 2 \<and> num 8 2 \<le> days_in (num 0 4) (num 5 2)
         \<and> num 11 2 \<le> 23 \<and> num 14 2 \<le> 59 \<and> num 17 2 \<le> 59)"

section \<open>Events\<close>

definition caller_events :: "string list" where
  "caller_events = [EventSessionOpen, EventSessionClose, EventDenied, EventHTTPRequest, EventHTTPResponse, EventTransaction,
     EventStateLeak, EventCertificate]"

definition audit_methods :: "string list" where
  "audit_methods = [[], ''GET'', ''HEAD'', ''POST'', ''PUT'', ''PATCH'', ''DELETE'', ''OPTIONS'', ''CONNECT'', ''TRACE'']"

definition event_identifiers :: "event \<Rightarrow> string list" where
  "event_identifiers e =
     [ev_Pool e, ev_Agent e, ev_PodUID e, ev_Binding e, ev_Session e, ev_Outcome e, ev_Requester e, ev_RequesterKind e,
      ev_RequesterOID e, ev_TokenSHA256 e, ev_Tier e, ev_Decision e, ev_Kid e, ev_KidSHA256 e, ev_Peer e]"

definition event_Validate :: "event \<Rightarrow> bool" where
  "event_Validate e =
     (if ev_Event e \<notin> set caller_events then False
      else if ev_Method e \<notin> set audit_methods then False
      else if ev_Status e \<noteq> 0 \<and> (ev_Status e < 100 \<or> ev_Status e > 599) \<or> ev_Duration e < 0 then False
      else if ev_CacheAgeSec e < 0 then False
      else if \<not> list_all (\<lambda>v. audit_identifier v True) (event_identifiers e) then False
      else if \<not> groupList (ev_Groups e) then False
      else if \<not> dnsNameList (ev_DNSNames e) then False
      else if ev_Target e \<noteq> [] \<and> TargetField (ev_Target e) \<noteq> ev_Target e then False
      else if ev_Serial e \<noteq> [] \<and> \<not> serialHex (ev_Serial e) then False
      else if ev_NotAfter e \<noteq> [] \<and> \<not> rfc3339_utc (ev_NotAfter e) then False
      else True)"

text \<open>A caller cannot write the rows the chain writes about itself.\<close>

lemma caller_event_not_chain:
  "event_Validate e \<Longrightarrow> ev_Event e \<noteq> EventChainStart \<and> ev_Event e \<noteq> EventCheckpoint \<and> ev_Event e \<noteq> EventKeyRotated
     \<and> ev_Event e \<noteq> EventCheckpointFailed"
  by (auto simp: event_Validate_def caller_events_def event_defs split: if_splits)

end
