(* ===== verification/AuditChain.thy ===== *)
theory AuditChain
  imports AuditEvent
begin

text \<open>
  The writer of the audit trail (internal/auditchain/chain.go) and the table of boots it
  persists (internal/store/audit_chain.go). The clock, the key source, the signer and
  the outcome of each write are arguments; \<open>ch_out\<close> is the list of rows written so far. A
  checkpoint signs outside the lock, so it is split into the atomic parts between which other
  rows may be written: capturing the head, appending the signed row, persisting it.
\<close>

section \<open>The boot table\<close>

text \<open>
  One row per replica: the current boot and its newest persisted checkpoint. The code
  stores both counters as int64.
\<close>

record audit_boot =
  ab_Boot :: "64 word"
  ab_CheckpointSeq :: "64 word"
  ab_CheckpointMAC :: string

record replica_row =
  rr_boot :: int
  rr_checkpoint_seq :: int
  rr_checkpoint_mac :: string

type_synonym boot_table = "(string, replica_row) go_map"

definition zero_boot :: audit_boot where
  "zero_boot = \<lparr>ab_Boot = 0, ab_CheckpointSeq = 0, ab_CheckpointMAC = []\<rparr>"

definition BeginAuditBoot :: "boot_table \<Rightarrow> string \<Rightarrow> boot_table \<times> (64 word \<times> audit_boot) option" where
  "BeginAuditBoot tab replica =
     (if replica = [] then (tab, None)
      else case map_of tab replica of
        None \<Rightarrow>
          (map_put replica \<lparr>rr_boot = 1, rr_checkpoint_seq = 0, rr_checkpoint_mac = []\<rparr> tab, Some (1, zero_boot))
      | Some r \<Rightarrow>
          (let previous = \<lparr>ab_Boot = word_of_int (rr_boot r), ab_CheckpointSeq = word_of_int (rr_checkpoint_seq r),
                           ab_CheckpointMAC = rr_checkpoint_mac r\<rparr>
           in (map_put replica \<lparr>rr_boot = rr_boot r + 1, rr_checkpoint_seq = 0, rr_checkpoint_mac = []\<rparr> tab,
               Some (ab_Boot previous + 1, previous))))"

definition RecordAuditCheckpoint :: "boot_table \<Rightarrow> string \<Rightarrow> 64 word \<Rightarrow> 64 word \<Rightarrow> string \<Rightarrow> boot_table option" where
  "RecordAuditCheckpoint tab replica boot seq mac =
     (if replica = [] \<or> boot = 0 \<or> mac = [] then None
      else case map_of tab replica of
        None \<Rightarrow> None
      | Some r \<Rightarrow>
          if rr_boot r = sint boot \<and> rr_checkpoint_seq r < sint seq
          then Some (map_put replica (r\<lparr>rr_checkpoint_seq := sint seq, rr_checkpoint_mac := mac\<rparr>) tab)
          else None)"

record audit_head =
  hd_Replica :: string
  hd_Boot :: "64 word"
  hd_CheckpointSeq :: "64 word"
  hd_CheckpointMAC :: string

definition head_of_row :: "string \<times> replica_row \<Rightarrow> audit_head" where
  "head_of_row p = \<lparr>hd_Replica = fst p, hd_Boot = word_of_int (rr_boot (snd p)),
     hd_CheckpointSeq = word_of_int (rr_checkpoint_seq (snd p)), hd_CheckpointMAC = rr_checkpoint_mac (snd p)\<rparr>"

section \<open>The chain\<close>

datatype audit_error =
    ErrAuditFailed | ErrCheckpointOverdue | ErrInvalidEvent
  | ErrAuditOptions | ErrKeyUnavailable | ErrBootUnavailable

record audit_key =
  key_Version :: int
  key_secret :: string

definition NewKey :: "int \<Rightarrow> string \<Rightarrow> audit_key option" where
  "NewKey version secret =
     (if version < 1 \<or> length secret < 32 then None else Some \<lparr>key_Version = version, key_secret = secret\<rparr>)"

record chain =
  ch_Replica :: string
  ch_Grace :: int
  ch_boot :: "64 word"
  ch_seq :: "64 word"
  ch_prev :: string
  ch_key :: audit_key
  ch_lastCheckpoint :: int
  ch_failed :: bool
  ch_out :: "row list"

text \<open>The environment of the writer: HMAC and the rendering of a time in RFC 3339.\<close>

record audit_env =
  env_hmac :: "string \<Rightarrow> string \<Rightarrow> string"
  env_time :: "int \<Rightarrow> string"

definition stamp :: "audit_env \<Rightarrow> int \<Rightarrow> chain \<Rightarrow> row \<Rightarrow> row" where
  "stamp E now c r =
     (let r = r\<lparr>rw_Type := RowType, rw_Replica := ch_Replica c, rw_Boot := ch_boot c, rw_Seq := ch_seq c,
                rw_Time := env_time E now, rw_KeyVersion := key_Version (ch_key c), rw_Prev := ch_prev c,
                rw_MACVersion := MACVersionCurrent\<rparr>
      in r\<lparr>rw_MAC := computeMAC (env_hmac E) r (key_secret (ch_key c))\<rparr>)"

text \<open>\<open>written\<close> tells whether the output accepted the line; a failed write stops the chain for good.\<close>

definition appendLocked :: "audit_env \<Rightarrow> int \<Rightarrow> bool \<Rightarrow> chain \<Rightarrow> row \<Rightarrow> chain \<times> (audit_error + row)" where
  "appendLocked E now written c r =
     (if ch_failed c then (c, Inl ErrAuditFailed)
      else
        (let r = stamp E now c r in
         if \<not> written then (c\<lparr>ch_failed := True\<rparr>, Inl ErrAuditFailed)
         else (c\<lparr>ch_seq := ch_seq c + 1, ch_prev := rw_MAC r, ch_out := ch_out c @ [r]\<rparr>, Inr r)))"

definition start_row :: "audit_boot \<Rightarrow> row" where
  "start_row previous = (event_row (empty_event\<lparr>ev_Event := EventChainStart\<rparr>))
     \<lparr>rw_PrevBoot := ab_Boot previous, rw_PrevCheckpointSeq := ab_CheckpointSeq previous,
      rw_PrevCheckpointMAC := ab_CheckpointMAC previous\<rparr>"

definition chain_New ::
  "audit_env \<Rightarrow> string \<Rightarrow> int \<Rightarrow> audit_key option \<Rightarrow> boot_table \<Rightarrow> int \<Rightarrow> bool \<Rightarrow> boot_table \<times> (audit_error + chain)" where
  "chain_New E replica grace currentKey tab now written =
     (if \<not> audit_identifier replica False then (tab, Inl ErrAuditOptions)
      else case currentKey of
        None \<Rightarrow> (tab, Inl ErrKeyUnavailable)
      | Some key \<Rightarrow>
          (case BeginAuditBoot tab replica of
             (tab, None) \<Rightarrow> (tab, Inl ErrBootUnavailable)
           | (tab, Some (boot, previous)) \<Rightarrow>
               (let c = \<lparr>ch_Replica = replica, ch_Grace = (if grace \<le> 0 then 300000000000 else grace), ch_boot = boot,
                         ch_seq = 0, ch_prev = [], ch_key = key, ch_lastCheckpoint = now, ch_failed = False, ch_out = []\<rparr>
                in case appendLocked E now written c (start_row previous) of
                     (_, Inl e) \<Rightarrow> (tab, Inl e)
                   | (c, Inr _) \<Rightarrow> (tab, Inr c))))"

definition Admit :: "int \<Rightarrow> chain \<Rightarrow> audit_error go_error" where
  "Admit now c =
     (if ch_failed c then Some ErrAuditFailed
      else if now - ch_lastCheckpoint c > ch_Grace c then Some ErrCheckpointOverdue
      else None)"

definition Record :: "audit_env \<Rightarrow> int \<Rightarrow> bool \<Rightarrow> event \<Rightarrow> chain \<Rightarrow> chain \<times> audit_error go_error" where
  "Record E now written e c =
     (if \<not> event_Validate e then (c, Some ErrInvalidEvent)
      else case appendLocked E now written c (event_row e) of
        (c, Inl err) \<Rightarrow> (c, Some err)
      | (c, Inr _) \<Rightarrow> (c, None))"

section \<open>Checkpoints and key rotation\<close>

definition checkpoint_head :: "chain \<Rightarrow> audit_error + 64 word \<times> string" where
  "checkpoint_head c = (if ch_failed c then Inl ErrAuditFailed else Inr (ch_seq c - 1, ch_prev c))"

definition failed_row :: "string \<Rightarrow> row" where
  "failed_row outcome = event_row (empty_event\<lparr>ev_Event := EventCheckpointFailed, ev_Outcome := outcome\<rparr>)"

definition checkpoint_row :: "64 word \<Rightarrow> string \<Rightarrow> string \<Rightarrow> row" where
  "checkpoint_row seq mac signature = (event_row (empty_event\<lparr>ev_Event := EventCheckpoint\<rparr>))
     \<lparr>rw_SignedSeq := seq, rw_SignedMAC := mac, rw_Signature := signature\<rparr>"

definition checkpoint_sign ::
  "audit_env \<Rightarrow> int \<Rightarrow> bool \<Rightarrow> 64 word \<times> string \<Rightarrow> string option \<Rightarrow> chain \<Rightarrow> chain \<times> (audit_error + row)" where
  "checkpoint_sign E now written head signature c =
     (case signature of
        Some s \<Rightarrow>
          if audit_identifier s False then appendLocked E now written c (checkpoint_row (fst head) (snd head) s)
          else (case appendLocked E now written c (failed_row ''signer_unavailable'') of
                  (c, Inl err) \<Rightarrow> (c, Inl err) | (c, Inr _) \<Rightarrow> (c, Inl ErrCheckpointOverdue))
      | None \<Rightarrow>
          (case appendLocked E now written c (failed_row ''signer_unavailable'') of
             (c, Inl err) \<Rightarrow> (c, Inl err) | (c, Inr _) \<Rightarrow> (c, Inl ErrCheckpointOverdue)))"

definition checkpoint_persisted :: "audit_env \<Rightarrow> int \<Rightarrow> bool \<Rightarrow> bool \<Rightarrow> chain \<Rightarrow> chain \<times> audit_error go_error" where
  "checkpoint_persisted E now written persisted c =
     (if persisted then (c\<lparr>ch_lastCheckpoint := now\<rparr>, None)
      else case appendLocked E now written c (failed_row ''store_unavailable'') of
        (c, Inl err) \<Rightarrow> (c, Some err)
      | (c, Inr _) \<Rightarrow> (c, Some ErrCheckpointOverdue))"

text \<open>
  A whole checkpoint, when no other row is written meanwhile. \<open>sign\<close> is the signer, \<open>w1\<close> and \<open>w2\<close>
  are the outcomes of its writes.
\<close>

definition Checkpoint ::
  "audit_env \<Rightarrow> int \<Rightarrow> bool \<Rightarrow> bool \<Rightarrow> (string \<Rightarrow> string option) \<Rightarrow> boot_table \<Rightarrow> chain \<Rightarrow> (boot_table \<times> chain) \<times> audit_error go_error" where
  "Checkpoint E now w1 w2 sign tab c =
     (case checkpoint_head c of
        Inl err \<Rightarrow> ((tab, c), Some err)
      | Inr (seq, mac) \<Rightarrow>
          (case checkpoint_sign E now w1 (seq, mac) (sign (checkpointInput (ch_Replica c) (ch_boot c) seq mac)) c of
             (c, Inl err) \<Rightarrow> ((tab, c), Some err)
           | (c, Inr row) \<Rightarrow>
               (case RecordAuditCheckpoint tab (ch_Replica c) (ch_boot c) (rw_Seq row) (rw_MAC row) of
                  Some tab' \<Rightarrow> (let (c, e) = checkpoint_persisted E now w2 True c in ((tab', c), e))
                | None \<Rightarrow> (let (c, e) = checkpoint_persisted E now w2 False c in ((tab, c), e)))))"

definition RefreshKey :: "audit_env \<Rightarrow> int \<Rightarrow> bool \<Rightarrow> audit_key option \<Rightarrow> chain \<Rightarrow> chain \<times> audit_error go_error" where
  "RefreshKey E now written currentKey c =
     (case currentKey of
        None \<Rightarrow> (c, Some ErrKeyUnavailable)
      | Some key \<Rightarrow>
          if key_Version key \<le> key_Version (ch_key c) then (c, None)
          else
            (let previous = key_Version (ch_key c); c = c\<lparr>ch_key := key\<rparr> in
             case appendLocked E now written c ((event_row (empty_event\<lparr>ev_Event := EventKeyRotated\<rparr>))\<lparr>rw_PrevKey := previous\<rparr>) of
               (c, Inl err) \<Rightarrow> (c, Some err)
             | (c, Inr _) \<Rightarrow> (c, None)))"

end
