(* ===== verification/AuditTrail.thy ===== *)
theory AuditTrail
  imports AuditChain
begin

text \<open>
  What every run of the audit writer leaves behind: a trail of rows numbered from zero, each
  linked to the one before it, under keys that only a rotation row changes, with
  checkpoints that sign an earlier row. The runs interleave records, checkpoints and
  rotations as the lock of the chain lets them.
\<close>

section \<open>Trails\<close>

text \<open>
  \<open>K\<close> gives the secret of a key version, \<open>S\<close> says that a checkpoint row carries a good
  signature.
\<close>

record trail_spec =
  sp_keys :: "int \<Rightarrow> string option"
  sp_signed :: "row \<Rightarrow> bool"
  sp_replica :: string
  sp_boot :: "64 word"

definition key_step :: "row \<Rightarrow> row \<Rightarrow> bool" where
  "key_step p r \<longleftrightarrow>
     (if ev_Event r = EventKeyRotated then rw_PrevKey r = rw_KeyVersion p \<and> rw_KeyVersion r > rw_PrevKey r
      else rw_KeyVersion r = rw_KeyVersion p)"

definition next_ok :: "audit_env \<Rightarrow> trail_spec \<Rightarrow> row list \<Rightarrow> row \<Rightarrow> bool" where
  "next_ok E T rows r \<longleftrightarrow>
     rw_Type r = RowType \<and> rw_Replica r = sp_replica T \<and> rw_Boot r = sp_boot T \<and> rw_Seq r = of_nat (length rows)
     \<and> rw_MACVersion r = MACVersionCurrent
     \<and> (\<exists>key. sp_keys T (rw_KeyVersion r) = Some key \<and> rw_MAC r = computeMAC (env_hmac E) r key)
     \<and> (if rows = [] then ev_Event r = EventChainStart \<and> rw_Prev r = []
        else rw_Prev r = rw_MAC (last rows) \<and> key_step (last rows) r)
     \<and> (ev_Event r = EventCheckpoint \<longrightarrow>
          (\<exists>j < length rows. rw_SignedSeq r = of_nat j \<and> rw_SignedMAC r = rw_MAC (rows ! j)) \<and> sp_signed T r)"

inductive trail :: "audit_env \<Rightarrow> trail_spec \<Rightarrow> row list \<Rightarrow> bool" for E T where
  Nil: "trail E T []"
| snoc: "trail E T rows \<Longrightarrow> next_ok E T rows r \<Longrightarrow> trail E T (rows @ [r])"

lemma trail_snocD: "trail E T (rows @ [r]) \<Longrightarrow> trail E T rows \<and> next_ok E T rows r"
  by (auto elim: trail.cases)

lemma trail_take: "trail E T rows \<Longrightarrow> trail E T (take n rows)"
proof (induction rule: trail.induct)
  case (snoc rows r)
  then show ?case by (cases "n \<le> length rows") (auto intro: trail.snoc)
qed (simp add: trail.Nil)

lemma trail_nth:
  assumes "trail E T rows" and "i < length rows"
  shows "next_ok E T (take i rows) (rows ! i)"
  using trail_snocD [of E T "take i rows" "rows ! i"] trail_take [OF assms(1), of "Suc i"] assms(2)
  by (simp add: take_Suc_conv_app_nth)

section \<open>Runs of the writer\<close>

datatype audit_op =
    OpRecord int bool event
  | OpHead
  | OpSign nat int bool "string option"
  | OpPersist int bool bool
  | OpRefresh int bool "audit_key option"

fun audit_exec :: "audit_env \<Rightarrow> chain \<times> (64 word \<times> string) list \<Rightarrow> audit_op \<Rightarrow> chain \<times> (64 word \<times> string) list" where
  "audit_exec E (c, hs) (OpRecord now w e) = (fst (Record E now w e c), hs)"
| "audit_exec E (c, hs) OpHead = (case checkpoint_head c of Inr h \<Rightarrow> (c, hs @ [h]) | Inl _ \<Rightarrow> (c, hs))"
| "audit_exec E (c, hs) (OpSign i now w sig) =
     (if i < length hs then (fst (checkpoint_sign E now w (hs ! i) sig c), hs) else (c, hs))"
| "audit_exec E (c, hs) (OpPersist now w ok) = (fst (checkpoint_persisted E now w ok c), hs)"
| "audit_exec E (c, hs) (OpRefresh now w k) = (fst (RefreshKey E now w k c), hs)"

text \<open>What the parties around the chain owe it: true keys and true signatures.\<close>

fun op_honest :: "trail_spec \<Rightarrow> chain \<times> (64 word \<times> string) list \<Rightarrow> audit_op \<Rightarrow> bool" where
  "op_honest T (c, hs) (OpSign i now w sig) =
     (\<forall>s. sig = Some s \<longrightarrow> i < length hs \<longrightarrow>
        (\<forall>r. rw_Replica r = ch_Replica c \<and> rw_Boot r = ch_boot c \<and> rw_SignedSeq r = fst (hs ! i) \<and> rw_SignedMAC r = snd (hs ! i)
             \<and> rw_Signature r = s \<longrightarrow> sp_signed T r))"
| "op_honest T (c, hs) (OpRefresh now w k) = (\<forall>key. k = Some key \<longrightarrow> sp_keys T (key_Version key) = Some (key_secret key))"
| "op_honest T st _ = True"

inductive audit_reach :: "audit_env \<Rightarrow> trail_spec \<Rightarrow> chain \<times> (64 word \<times> string) list \<Rightarrow> bool" for E T where
  start: "chain_New E replica grace (Some key) tab now w = (tab', Inr c) \<Longrightarrow>
    sp_keys T (key_Version key) = Some (key_secret key) \<Longrightarrow> sp_replica T = replica \<Longrightarrow> sp_boot T = ch_boot c \<Longrightarrow>
    audit_reach E T (c, [])"
| step: "audit_reach E T st \<Longrightarrow> op_honest T st p \<Longrightarrow> audit_reach E T (audit_exec E st p)"

section \<open>Every run leaves a trail\<close>

definition chain_inv :: "audit_env \<Rightarrow> trail_spec \<Rightarrow> chain \<Rightarrow> bool" where
  "chain_inv E T c \<longleftrightarrow>
     trail E T (ch_out c) \<and> ch_out c \<noteq> [] \<and> ch_Replica c = sp_replica T \<and> ch_boot c = sp_boot T
     \<and> ch_seq c = of_nat (length (ch_out c)) \<and> ch_prev c = rw_MAC (last (ch_out c))
     \<and> (\<not> ch_failed c \<longrightarrow> rw_KeyVersion (last (ch_out c)) = key_Version (ch_key c)
          \<and> sp_keys T (key_Version (ch_key c)) = Some (key_secret (ch_key c)))"

definition heads_ok :: "chain \<Rightarrow> (64 word \<times> string) list \<Rightarrow> bool" where
  "heads_ok c hs \<longleftrightarrow> (\<forall>(s, m) \<in> set hs. \<exists>j < length (ch_out c). s = of_nat j \<and> m = rw_MAC (ch_out c ! j))"

lemma computeMAC_MAC [simp]: "computeMAC hmac (r\<lparr>rw_MAC := m\<rparr>) key = computeMAC hmac r key"
  by (simp add: computeMAC_def macInput_def fields_defs)

lemma stamp_fields [simp]:
  "rw_Type (stamp E now c r) = RowType" "rw_Replica (stamp E now c r) = ch_Replica c" "rw_Boot (stamp E now c r) = ch_boot c"
  "rw_Seq (stamp E now c r) = ch_seq c" "rw_KeyVersion (stamp E now c r) = key_Version (ch_key c)"
  "rw_Prev (stamp E now c r) = ch_prev c" "rw_MACVersion (stamp E now c r) = MACVersionCurrent"
  "ev_Event (stamp E now c r) = ev_Event r" "rw_PrevKey (stamp E now c r) = rw_PrevKey r"
  "rw_SignedSeq (stamp E now c r) = rw_SignedSeq r" "rw_SignedMAC (stamp E now c r) = rw_SignedMAC r"
  "rw_Signature (stamp E now c r) = rw_Signature r"
  "rw_MAC (stamp E now c r) = computeMAC (env_hmac E) (stamp E now c r) (key_secret (ch_key c))"
  by (simp_all add: stamp_def Let_def)

lemma event_row_Event [simp]: "ev_Event (event_row e) = ev_Event e"
  by (simp add: event_row_def event.defs)

text \<open>
  Appending a row: it needs a key step from the last row and, for a checkpoint, an earlier
  row that it signs.
\<close>

lemma append_inv:
  assumes inv: "chain_inv E T c" and rep: "\<And>now. \<not> ch_failed c \<Longrightarrow> next_ok E T (ch_out c) (stamp E now c' r)"
    and c': "c' = c\<lparr>ch_key := k\<rparr>" "sp_keys T (key_Version k) = Some (key_secret k)"
  shows "chain_inv E T (fst (appendLocked E now w c' r))"
  using assms
  by (auto simp: appendLocked_def Let_def chain_inv_def simp del: stamp_fields(13) intro: trail.snoc)

lemma append_failed: "ch_failed c \<Longrightarrow> fst (appendLocked E now w c r) = c"
  by (simp add: appendLocked_def)

lemma append_same_key:
  assumes inv: "chain_inv E T c" and ev: "ev_Event r \<noteq> EventKeyRotated"
    and cp: "ev_Event r = EventCheckpoint \<Longrightarrow>
      (\<exists>j < length (ch_out c). rw_SignedSeq r = of_nat j \<and> rw_SignedMAC r = rw_MAC (ch_out c ! j)) \<and> (\<forall>now. sp_signed T (stamp E now c r))"
  shows "chain_inv E T (fst (appendLocked E now w c r))"
proof (cases "ch_failed c")
  case True
  then show ?thesis using inv by (simp add: append_failed)
next
  case False
  have k: "sp_keys T (key_Version (ch_key c)) = Some (key_secret (ch_key c))" using inv False by (simp add: chain_inv_def)
  have "next_ok E T (ch_out c) (stamp E now c r)" for now
    using inv False ev cp k by (auto simp: next_ok_def chain_inv_def key_step_def)
  with inv k show ?thesis by (intro append_inv [where k = "ch_key c" and c = c]) auto
qed

lemma Record_inv: "chain_inv E T c \<Longrightarrow> chain_inv E T (fst (Record E now w e c))"
  using append_same_key [of E T c "event_row e" now w] caller_event_not_chain [of e]
  by (auto simp: Record_def split: prod.splits sum.splits)

lemma failed_row_inv: "chain_inv E T c \<Longrightarrow> chain_inv E T (fst (appendLocked E now w c (failed_row oc)))"
  by (rule append_same_key) (auto simp: failed_row_def empty_event_def event_defs)

lemma checkpoint_row_fields [simp]:
  "ev_Event (checkpoint_row s m g) = EventCheckpoint" "rw_SignedSeq (checkpoint_row s m g) = s"
  "rw_SignedMAC (checkpoint_row s m g) = m" "rw_Signature (checkpoint_row s m g) = g"
  by (simp_all add: checkpoint_row_def empty_event_def)

lemma checkpoint_sign_inv:
  assumes inv: "chain_inv E T c" and hs: "heads_ok c hs" and i: "i < length hs"
    and honest: "op_honest T (c, hs) (OpSign i now w sig)"
  shows "chain_inv E T (fst (checkpoint_sign E now w (hs ! i) sig c))"
proof -
  have head: "\<exists>j < length (ch_out c). fst (hs ! i) = of_nat j \<and> snd (hs ! i) = rw_MAC (ch_out c ! j)"
    using hs nth_mem [OF i] by (cases "hs ! i") (auto simp: heads_ok_def)
  have "chain_inv E T (fst (appendLocked E now w c (checkpoint_row (fst (hs ! i)) (snd (hs ! i)) s)))" if "sig = Some s" for s
    using that honest head i by (intro append_same_key [OF inv]) (auto simp: event_defs)
  then show ?thesis using failed_row_inv [OF inv]
    by (auto simp: checkpoint_sign_def split: option.splits prod.splits sum.splits) (metis fst_conv)+
qed

lemma checkpoint_persisted_inv: "chain_inv E T c \<Longrightarrow> chain_inv E T (fst (checkpoint_persisted E now w ok c))"
  using failed_row_inv [of E T c now w "''store_unavailable''"]
  by (auto simp: checkpoint_persisted_def chain_inv_def split: prod.splits sum.splits)

definition rotated_row :: "int \<Rightarrow> row" where
  "rotated_row v = (event_row (empty_event\<lparr>ev_Event := EventKeyRotated\<rparr>))\<lparr>rw_PrevKey := v\<rparr>"

lemma rotated_row_fields [simp]: "ev_Event (rotated_row v) = EventKeyRotated" "rw_PrevKey (rotated_row v) = v"
  by (simp_all add: rotated_row_def empty_event_def)

lemma RefreshKey_inv:
  assumes inv: "chain_inv E T c" and k: "\<And>key. k = Some key \<Longrightarrow> sp_keys T (key_Version key) = Some (key_secret key)"
  shows "chain_inv E T (fst (RefreshKey E now w k c))"
proof (cases "\<exists>key. k = Some key \<and> key_Version key > key_Version (ch_key c)")
  case False
  then show ?thesis using inv by (auto simp: RefreshKey_def split: option.splits)
next
  case True
  then obtain key where key: "k = Some key" "key_Version key > key_Version (ch_key c)" by blast
  let ?c = "c\<lparr>ch_key := key\<rparr>" and ?r = "rotated_row (key_Version (ch_key c))"
  have "next_ok E T (ch_out c) (stamp E now ?c ?r)" if "\<not> ch_failed c" for now
    using inv that key k [OF key(1)] by (auto simp: next_ok_def chain_inv_def key_step_def event_defs)
  then have "chain_inv E T (fst (appendLocked E now w ?c ?r))"
    using inv k [OF key(1)] by (intro append_inv) auto
  then show ?thesis using key by (auto simp: RefreshKey_def rotated_row_def Let_def split: prod.splits sum.splits)
qed

section \<open>Captured heads stay valid\<close>

lemma heads_grow: "heads_ok c hs \<Longrightarrow> \<exists>rs. ch_out c' = ch_out c @ rs \<Longrightarrow> heads_ok c' hs"
  by (fastforce simp: heads_ok_def nth_append)

lemma append_grows: "\<exists>rs. ch_out (fst (appendLocked E now w c r)) = ch_out c @ rs"
  by (simp add: appendLocked_def Let_def)

lemma audit_exec_grows: "\<exists>rs. ch_out (fst (audit_exec E (c, hs) p)) = ch_out c @ rs"
proof (cases p)
  case (OpRecord now w e)
  then show ?thesis using append_grows [of E now w c "event_row e"]
    by (auto simp: Record_def split: prod.splits sum.splits)
next
  case (OpSign i now w sig)
  then show ?thesis
    using append_grows [of E now w c "failed_row ''signer_unavailable''"]
      append_grows [of E now w c "checkpoint_row (fst (hs ! i)) (snd (hs ! i)) (the sig)"]
    by (auto simp: checkpoint_sign_def split: option.splits prod.splits sum.splits)
next
  case (OpPersist now w ok)
  then show ?thesis using append_grows [of E now w c "failed_row ''store_unavailable''"]
    by (auto simp: checkpoint_persisted_def split: prod.splits sum.splits)
next
  case (OpRefresh now w k)
  then show ?thesis using append_grows [of E now w "c\<lparr>ch_key := the k\<rparr>" "rotated_row (key_Version (ch_key c))"]
    by (auto simp: RefreshKey_def Let_def rotated_row_def split: option.splits prod.splits sum.splits)
qed (auto simp: checkpoint_head_def)

lemma head_ok: "chain_inv E T c \<Longrightarrow> checkpoint_head c = Inr h \<Longrightarrow> heads_ok c [h]"
  by (cases "ch_out c" rule: rev_cases) (auto simp: chain_inv_def checkpoint_head_def heads_ok_def split: if_splits)

lemma audit_exec_inv:
  assumes inv: "chain_inv E T c" and hs: "heads_ok c hs" and h: "op_honest T (c, hs) p"
  shows "chain_inv E T (fst (audit_exec E (c, hs) p)) \<and> heads_ok (fst (audit_exec E (c, hs) p)) (snd (audit_exec E (c, hs) p))"
proof
  show "chain_inv E T (fst (audit_exec E (c, hs) p))"
    using inv hs h by (cases p) (auto simp: Record_inv checkpoint_sign_inv checkpoint_persisted_inv RefreshKey_inv split: sum.split simp del: op_honest.simps(1))
  have "heads_ok (fst (audit_exec E (c, hs) p)) hs" using hs audit_exec_grows by (rule heads_grow)
  then show "heads_ok (fst (audit_exec E (c, hs) p)) (snd (audit_exec E (c, hs) p))"
    using head_ok [OF inv] by (cases p) (auto simp: heads_ok_def split: sum.split)
qed

lemma start_inv:
  assumes "chain_New E replica grace (Some key) tab now w = (tab', Inr c)"
    and "sp_keys T (key_Version key) = Some (key_secret key)" and "sp_replica T = replica" and "sp_boot T = ch_boot c"
  shows "chain_inv E T c"
proof -
  let ?c0 = "\<lambda>boot. \<lparr>ch_Replica = replica, ch_Grace = (if grace \<le> 0 then 300000000000 else grace), ch_boot = boot,
      ch_seq = 0, ch_prev = [], ch_key = key, ch_lastCheckpoint = now, ch_failed = False, ch_out = []\<rparr>"
  from assms(1) obtain boot previous where
    c: "c = fst (appendLocked E now True (?c0 boot) (start_row previous))"
    by (auto simp: chain_New_def Let_def appendLocked_def split: if_splits prod.splits option.splits sum.splits)
  then have out: "ch_out c = [stamp E now (?c0 boot) (start_row previous)]" and boot: "ch_boot c = boot"
    by (simp_all add: appendLocked_def Let_def)
  have "next_ok E T [] (stamp E now (?c0 boot) (start_row previous))"
    using assms(2-4) boot by (simp add: next_ok_def start_row_def empty_event_def event_defs)
  then have "trail E T (ch_out c)" unfolding out using trail.snoc [OF trail.Nil] by fastforce
  then show ?thesis using assms(2-4) boot out by (auto simp: chain_inv_def) (simp_all add: c appendLocked_def Let_def)
qed

lemma audit_reach_inv: "audit_reach E T st \<Longrightarrow> chain_inv E T (fst st) \<and> heads_ok (fst st) (snd st)"
proof (induction rule: audit_reach.induct)
  case (start replica grace key tab now w tab' c)
  then show ?case using start_inv [OF start] by (simp add: heads_ok_def)
next
  case (step st p)
  then show ?case using audit_exec_inv [of E T "fst st" "snd st" p] by simp
qed

end
