(* ===== verification/AuditVerify.thy ===== *)
theory AuditVerify
  imports AuditTrail Base64 "HOL-Library.Char_ord" "HOL-Library.List_Lexorder" "HOL-Library.Product_Lexorder"
begin

text \<open>
  The offline verifier of audit exports (internal/auditchain/verify.go), from parsed lines on:
  decoding a JSON line is not modelled. HMAC, ed25519 and the parsing of timestamps are
  arguments. The verifier caches the keys it fetches; since a key version names one key,
  the cache has no effect and is left out.
\<close>

section \<open>Findings\<close>

datatype finding_kind =
    FindingEdit | FindingGap | FindingReorder | FindingDuplicate | FindingBrokenLink | FindingNoStart
  | FindingBadCheckpoint | FindingUnsigned | FindingKeyUnavailable | FindingKeyChange | FindingMalformed
  | FindingMissingBoot | FindingTruncatedTail | FindingBootLink | FindingMissingHead | FindingUnknownBoot
  | FindingKeyDowngrade

record finding =
  f_Kind :: finding_kind
  f_Replica :: string
  f_Boot :: "64 word"
  f_Seq :: "64 word"

record verifier =
  vf_hmac :: "string \<Rightarrow> string \<Rightarrow> string"
  vf_HMACKey :: "int \<Rightarrow> string option"
  vf_PublicKeys :: "(int, string) go_map"
  vf_ed25519 :: "string \<Rightarrow> string \<Rightarrow> string \<Rightarrow> bool"
  vf_parse :: "string \<Rightarrow> int option"
  MaxUnsigned :: int
  SortBySeq :: bool
  PartialHistory :: bool
  Heads :: "audit_head list option"

type_synonym chain_key = "string \<times> 64 word"

section \<open>Checkpoint signatures\<close>

definition parseTransitSignature :: "string \<Rightarrow> (int \<times> string) option" where
  "parseTransitSignature s =
     (case split_on (CHR '':'') s of
        [a, b, c] \<Rightarrow>
          if a \<noteq> ''vault'' \<or> \<not> HasPrefix b ''v'' then None
          else
            (case atoi (TrimPrefix b ''v'') of
               None \<Rightarrow> None
             | Some version \<Rightarrow>
                 if version < 1 then None
                 else (case b64_decode c of None \<Rightarrow> None | Some signature \<Rightarrow> Some (version, signature)))
      | _ \<Rightarrow> None)"

definition signature_valid :: "verifier \<Rightarrow> row \<Rightarrow> bool" where
  "signature_valid v row =
     (case parseTransitSignature (rw_Signature row) of
        None \<Rightarrow> False
      | Some (version, signature) \<Rightarrow>
          (case map_of (vf_PublicKeys v) version of
             None \<Rightarrow> False
           | Some public \<Rightarrow>
               vf_ed25519 v public (checkpointInput (rw_Replica row) (rw_Boot row) (rw_SignedSeq row) (rw_SignedMAC row)) signature))"

definition checkpointValid :: "verifier \<Rightarrow> row \<Rightarrow> (64 word, string) go_map \<Rightarrow> bool" where
  "checkpointValid v row macs =
     (case map_of macs (rw_SignedSeq row) of
        None \<Rightarrow> False
      | Some signedMac \<Rightarrow>
          if rw_SignedSeq row \<ge> rw_Seq row \<or> signedMac \<noteq> rw_SignedMAC row then False
          else signature_valid v row)"

section \<open>One chain\<close>

text \<open>The state of the loop over the rows; \<open>cs_signed\<close> is the time of the last good checkpoint.\<close>

record chain_state =
  cs_findings :: "(finding_kind \<times> 64 word) list"
  cs_macs :: "(64 word, string) go_map"
  cs_rows :: "(64 word, row) go_map"
  cs_prev :: "row option"
  cs_signed :: "int option"
  cs_start :: "row option"
  cs_maxSeq :: "64 word"
  cs_lastKey :: int

definition empty_state :: chain_state where
  "empty_state = \<lparr>cs_findings = [], cs_macs = [], cs_rows = [], cs_prev = None, cs_signed = None, cs_start = None,
     cs_maxSeq = 0, cs_lastKey = 0\<rparr>"

definition mac_finding :: "verifier \<Rightarrow> row option \<Rightarrow> row \<Rightarrow> finding_kind option" where
  "mac_finding v prev row =
     (case vf_HMACKey v (rw_KeyVersion row) of
        None \<Rightarrow> Some FindingKeyUnavailable
      | Some key \<Rightarrow>
          if computeMAC (vf_hmac v) row key \<noteq> rw_MAC row then Some FindingEdit
          else if rw_MACVersion row \<noteq> 0 \<and> (rw_MACVersion row < 2 \<or> rw_MACVersion row > MACVersionCurrent) then Some FindingEdit
          else if rw_MACVersion row < 2 \<and> v2Only row then Some FindingEdit
          else if rw_MACVersion row < 3 \<and> v3Only row then Some FindingEdit
          else if rw_MACVersion row < 4 \<and> v4Only row then Some FindingEdit
          else if rw_MACVersion row < 5 \<and> v5Only row then Some FindingEdit
          else (case prev of
                  None \<Rightarrow> None
                | Some p \<Rightarrow> if rw_MACVersion row < rw_MACVersion p then Some FindingEdit else None))"

definition rotated :: "row \<Rightarrow> row \<Rightarrow> bool" where
  "rotated p row \<longleftrightarrow> ev_Event row = EventKeyRotated \<and> rw_PrevKey row = rw_KeyVersion p \<and> rw_KeyVersion row > rw_PrevKey row"

definition link_findings :: "row option \<Rightarrow> row \<Rightarrow> (finding_kind \<times> 64 word) list" where
  "link_findings prev row =
     (case prev of
        None \<Rightarrow>
          if rw_Seq row \<noteq> 0 \<or> ev_Event row \<noteq> EventChainStart \<or> rw_Prev row \<noteq> [] then [(FindingNoStart, rw_Seq row)] else []
      | Some p \<Rightarrow>
          (if rw_Seq row = rw_Seq p then [(FindingDuplicate, rw_Seq row)]
           else if rw_Seq row < rw_Seq p then [(FindingReorder, rw_Seq row)]
           else if rw_Seq row > rw_Seq p + 1 then [(FindingGap, rw_Seq p + 1)] else [])
          @ (if rw_Seq row = rw_Seq p + 1 \<and> rw_Prev row \<noteq> rw_MAC p then [(FindingBrokenLink, rw_Seq row)] else [])
          @ (if rw_KeyVersion row \<noteq> rw_KeyVersion p \<and> \<not> rotated p row \<or> ev_Event row = EventKeyRotated \<and> \<not> rotated p row
             then [(FindingKeyChange, rw_Seq row)] else []))"

definition verify_row :: "verifier \<Rightarrow> chain_state \<Rightarrow> row \<Rightarrow> chain_state" where
  "verify_row v st row =
     (let prev = cs_prev st;
          mac = (case mac_finding v prev row of None \<Rightarrow> [] | Some k \<Rightarrow> [(k, rw_Seq row)]);
          good = checkpointValid v row (cs_macs st);
          cp = (if ev_Event row = EventCheckpoint \<and> \<not> good then [(FindingBadCheckpoint, rw_Seq row)] else []);
          signedAt = (if ev_Event row = EventCheckpoint \<and> good
                    then (case vf_parse v (rw_Time row) of Some t \<Rightarrow> Some t | None \<Rightarrow> cs_signed st) else cs_signed st);
          dup = (map_of (cs_macs st) (rw_Seq row) \<noteq> None)
      in st\<lparr>cs_findings := cs_findings st @ mac @ link_findings prev row @ cp,
            cs_signed := signedAt,
            cs_macs := (if dup then cs_macs st else map_put (rw_Seq row) (rw_MAC row) (cs_macs st)),
            cs_rows := (if dup then cs_rows st else map_put (rw_Seq row) row (cs_rows st)),
            cs_start := (if rw_Seq row = 0 \<and> ev_Event row = EventChainStart \<and> cs_start st = None then Some row else cs_start st),
            cs_maxSeq := (if rw_Seq row \<ge> cs_maxSeq st then rw_Seq row else cs_maxSeq st),
            cs_lastKey := (if rw_Seq row \<ge> cs_maxSeq st then rw_KeyVersion row else cs_lastKey st),
            cs_prev := (case prev of None \<Rightarrow> Some row | Some p \<Rightarrow> if rw_Seq row > rw_Seq p then Some row else prev)\<rparr>)"

definition unsigned_tail :: "verifier \<Rightarrow> chain_state \<Rightarrow> (finding_kind \<times> 64 word) list" where
  "unsigned_tail v st =
     (case cs_prev st of
        None \<Rightarrow> []
      | Some p \<Rightarrow>
          (case cs_signed st of
             None \<Rightarrow> [(FindingUnsigned, rw_Seq p)]
           | Some lastSigned \<Rightarrow>
               if MaxUnsigned v > 0 then
                 (case vf_parse v (rw_Time p) of
                    None \<Rightarrow> [(FindingUnsigned, rw_Seq p)]
                  | Some t \<Rightarrow> if t - lastSigned > MaxUnsigned v then [(FindingUnsigned, rw_Seq p)] else [])
               else []))"

definition chain_scan :: "verifier \<Rightarrow> row list \<Rightarrow> chain_state" where
  "chain_scan v rows = foldl (verify_row v) empty_state rows"

definition verifyChain :: "verifier \<Rightarrow> chain_key \<Rightarrow> row list \<Rightarrow> finding list \<times> chain_state" where
  "verifyChain v k rows =
     (let st = chain_scan v rows
      in (map (\<lambda>(kind, seq). \<lparr>f_Kind = kind, f_Replica = fst k, f_Boot = snd k, f_Seq = seq\<rparr>)
              (cs_findings st @ unsigned_tail v st), st))"

section \<open>Boots and heads\<close>

definition verifyBootLink :: "verifier \<Rightarrow> chain_key \<Rightarrow> (chain_key, chain_state) go_map \<Rightarrow> bool \<Rightarrow> finding list" where
  "verifyBootLink v k states earliest =
     (case Option.bind (map_of states k) cs_start of
        None \<Rightarrow> []
      | Some start \<Rightarrow>
          (let finding = (\<lambda>kind boot seq. [\<lparr>f_Kind = kind, f_Replica = fst k, f_Boot = boot, f_Seq = seq\<rparr>]) in
           if snd k = 0 \<or> rw_PrevBoot start \<noteq> snd k - 1
              \<or> rw_PrevBoot start = 0 \<and> (rw_PrevCheckpointSeq start \<noteq> 0 \<or> rw_PrevCheckpointMAC start \<noteq> [])
           then finding FindingBootLink (snd k) 0
           else if rw_PrevBoot start = 0 then []
           else
             (case map_of states (fst k, rw_PrevBoot start) of
                None \<Rightarrow> if earliest \<and> PartialHistory v then [] else finding FindingMissingBoot (rw_PrevBoot start) 0
              | Some previous \<Rightarrow>
                  if rw_KeyVersion start < cs_lastKey previous then finding FindingKeyDowngrade (snd k) 0
                  else if rw_PrevCheckpointMAC start = [] then []
                  else
                    (case map_of (cs_rows previous) (rw_PrevCheckpointSeq start) of
                       None \<Rightarrow>
                         if rw_PrevCheckpointSeq start > cs_maxSeq previous
                         then finding FindingTruncatedTail (rw_PrevBoot start) (cs_maxSeq previous + 1) else []
                     | Some linked \<Rightarrow>
                         if ev_Event linked \<noteq> EventCheckpoint \<or> rw_MAC linked \<noteq> rw_PrevCheckpointMAC start
                         then finding FindingBootLink (snd k) 0 else []))))"

definition head_finding :: "(chain_key, chain_state) go_map \<Rightarrow> audit_head \<Rightarrow> finding list" where
  "head_finding states head =
     (case map_of states (hd_Replica head, hd_Boot head) of
        None \<Rightarrow> [\<lparr>f_Kind = FindingMissingHead, f_Replica = hd_Replica head, f_Boot = hd_Boot head, f_Seq = 0\<rparr>]
      | Some st \<Rightarrow>
          if hd_CheckpointMAC head = [] then []
          else
            (let bad = [\<lparr>f_Kind = FindingMissingHead, f_Replica = hd_Replica head, f_Boot = hd_Boot head, f_Seq = hd_CheckpointSeq head\<rparr>] in
             case map_of (cs_rows st) (hd_CheckpointSeq head) of
               None \<Rightarrow> bad
             | Some row \<Rightarrow> if ev_Event row \<noteq> EventCheckpoint \<or> rw_MAC row \<noteq> hd_CheckpointMAC head then bad else []))"

text \<open>A later head of the same replica overwrites an earlier one in the map of heads.\<close>

definition verifyHeads :: "audit_head list \<Rightarrow> chain_key list \<Rightarrow> (chain_key, chain_state) go_map \<Rightarrow> finding list" where
  "verifyHeads hs order states =
     (let heads = foldl (\<lambda>m h. map_put (hd_Replica h) h m) [] hs in
      concat (map (head_finding states) hs)
      @ concat (map (\<lambda>k. case map_of heads (fst k) of
            Some h \<Rightarrow> if snd k > hd_Boot h
                      then [\<lparr>f_Kind = FindingUnknownBoot, f_Replica = fst k, f_Boot = snd k, f_Seq = 0\<rparr>] else []
          | None \<Rightarrow> [\<lparr>f_Kind = FindingUnknownBoot, f_Replica = fst k, f_Boot = snd k, f_Seq = 0\<rparr>]) order))"

section \<open>A whole export\<close>

text \<open>A line of the export: not an audit row, an audit row that does not decode, or a row.\<close>

datatype audit_line = OtherLine | MalformedRow | AuditRow row

fun group_lines :: "(chain_key, row list) go_map \<Rightarrow> audit_line list \<Rightarrow> (chain_key, row list) go_map" where
  "group_lines m [] = m"
| "group_lines m (AuditRow r # ls) =
     (let k = (rw_Replica r, rw_Boot r);
          old = (case map_of m k of None \<Rightarrow> [] | Some rs \<Rightarrow> rs)
      in group_lines (map_put k (old @ [r]) m) ls)"
| "group_lines m (_ # ls) = group_lines m ls"

record report =
  rp_Chains :: nat
  rp_Rows :: nat
  rp_Findings :: "finding list"

definition Verify :: "verifier \<Rightarrow> audit_line list \<Rightarrow> report" where
  "Verify v ls =
     (let malformed = [\<lparr>f_Kind = FindingMalformed, f_Replica = [], f_Boot = 0, f_Seq = 0\<rparr>. l \<leftarrow> ls, l = MalformedRow];
          chains = group_lines [] ls;
          order = sort (map fst chains);
          rows_of = (\<lambda>k. case map_of chains k of None \<Rightarrow> [] | Some rs \<Rightarrow> if SortBySeq v then sort_key rw_Seq rs else rs);
          results = map (\<lambda>k. (k, verifyChain v k (rows_of k))) order;
          states = map (\<lambda>(k, fs, st). (k, st)) results;
          earliest = (\<lambda>k. list_all (\<lambda>k'. fst k' = fst k \<longrightarrow> snd k \<le> snd k') order)
      in \<lparr>rp_Chains = length order, rp_Rows = length [r. AuditRow r \<leftarrow> ls],
          rp_Findings = malformed @ concat (map (\<lambda>(k, fs, st). fs) results)
            @ concat (map (\<lambda>k. verifyBootLink v k states (earliest k)) order)
            @ (case Heads v of None \<Rightarrow> [] | Some hs \<Rightarrow> verifyHeads hs order states)\<rparr>)"

end
