(* ===== verification/AuditProofs.thy ===== *)
theory AuditProofs
  imports AuditVerify
begin

text \<open>
  The writer and the verifier of the audit trail fit together: what any run of the writer
  leaves verifies without a finding, and what verifies without a finding, under an
  unforgeable MAC, is an exact prefix of what was written, at least up to the head that the
  store holds.
\<close>

section \<open>The scan, row by row\<close>

lemma chain_scan_snoc: "chain_scan v (rows @ [r]) = verify_row v (chain_scan v rows) r"
  by (simp add: chain_scan_def)

definition accepted :: "verifier \<Rightarrow> row list \<Rightarrow> bool" where
  "accepted v rows \<longleftrightarrow> cs_findings (chain_scan v rows) = []"

lemma accepted_Nil [simp]: "accepted v []"
  by (simp add: accepted_def chain_scan_def empty_state_def)

lemma accepted_snoc_iff:
  "accepted v (rows @ [r]) \<longleftrightarrow> accepted v rows
     \<and> mac_finding v (cs_prev (chain_scan v rows)) r = None \<and> link_findings (cs_prev (chain_scan v rows)) r = []
     \<and> (ev_Event r = EventCheckpoint \<longrightarrow> checkpointValid v r (cs_macs (chain_scan v rows)))"
  by (auto simp: accepted_def chain_scan_snoc verify_row_def Let_def split: option.splits)

text \<open>What the scan remembers of rows that are numbered from zero.\<close>

definition numbered :: "row list \<Rightarrow> bool" where
  "numbered rows \<longleftrightarrow> (\<forall>i < length rows. unat (rw_Seq (rows ! i)) = i)"

lemma numbered_Nil [simp]: "numbered []"
  by (simp add: numbered_def)

lemma numbered_snoc [simp]: "numbered (rows @ [r]) \<longleftrightarrow> numbered rows \<and> unat (rw_Seq r) = length rows"
  by (auto simp: numbered_def nth_append less_Suc_eq)

definition remembers :: "chain_state \<Rightarrow> row list \<Rightarrow> bool" where
  "remembers st rows \<longleftrightarrow>
     cs_prev st = (if rows = [] then None else Some (last rows))
     \<and> (\<forall>s. map_of (cs_macs st) s = (if unat s < length rows then Some (rw_MAC (rows ! unat s)) else None))
     \<and> (\<forall>s. map_of (cs_rows st) s = (if unat s < length rows then Some (rows ! unat s) else None))"

lemma unat_eq_Suc_cases: "unat (s :: 64 word) < Suc n \<longleftrightarrow> unat s < n \<or> unat s = n"
  by auto

lemma last_seq:
  assumes "numbered rows" and "rows \<noteq> []"
  shows "unat (rw_Seq (last rows)) = length rows - 1"
  using assms by (cases rows rule: rev_cases) auto

lemma remembers_scan: "numbered rows \<Longrightarrow> remembers (chain_scan v rows) rows"
proof (induction rows rule: rev_induct)
  case Nil
  then show ?case by (simp add: remembers_def chain_scan_def empty_state_def)
next
  case (snoc r rows)
  let ?st = "chain_scan v rows"
  have rem: "remembers ?st rows" and n: "unat (rw_Seq r) = length rows" using snoc by simp_all
  have eq: "s = rw_Seq r \<longleftrightarrow> unat s = length rows" for s using n by (metis word_unat_eq_iff)
  have fresh: "map_of (cs_macs ?st) (rw_Seq r) = None" using rem n by (simp add: remembers_def)
  have prev: "cs_prev (verify_row v ?st r) = Some r"
  proof (cases "rows = []")
    case True
    then show ?thesis using rem by (simp add: remembers_def verify_row_def Let_def)
  next
    case False
    then have "rw_Seq (last rows) < rw_Seq r" using last_seq [of rows] snoc.prems n by (simp add: word_less_nat_alt)
    then show ?thesis using rem False by (simp add: remembers_def verify_row_def Let_def)
  qed
  have macs: "cs_macs (verify_row v ?st r) = map_put (rw_Seq r) (rw_MAC r) (cs_macs ?st)"
    and rws: "cs_rows (verify_row v ?st r) = map_put (rw_Seq r) r (cs_rows ?st)"
    using fresh by (simp_all add: verify_row_def Let_def)
  have m: "map_of (cs_macs ?st) s = (if unat s < length rows then Some (rw_MAC (rows ! unat s)) else None)"
    and q: "map_of (cs_rows ?st) s = (if unat s < length rows then Some (rows ! unat s) else None)" for s
    using rem by (simp_all add: remembers_def)
  show ?case unfolding chain_scan_snoc remembers_def prev macs rws
    by (auto simp: m q eq nth_append less_Suc_eq)
qed

lemma remembers_prev: "numbered rows \<Longrightarrow> cs_prev (chain_scan v rows) = (if rows = [] then None else Some (last rows))"
  using remembers_scan by (simp add: remembers_def)

section \<open>What acceptance means\<close>

lemma unat_eq_nat_word: "unat (w :: 64 word) = n \<Longrightarrow> w = of_nat n"
  by auto

lemma word_between:
  assumes "(p :: 64 word) \<noteq> q" and "\<not> q < p" and "\<not> q > p + 1"
  shows "unat q = Suc (unat p)"
proof -
  have "p < q" using assms(1,2) by simp
  have "1 + p \<noteq> 0"
  proof
    assume "1 + p = 0"
    then have "p = - 1" by (metis add.commute eq_neg_iff_add_eq_0)
    with \<open>p < q\<close> word_n1_ge [of q] show False by simp
  qed
  moreover have "unat p < unat q" using \<open>p < q\<close> by (simp add: word_less_nat_alt)
  moreover from \<open>1 + p \<noteq> 0\<close> have "unat (1 + p) = Suc (unat p)" by (rule unatSuc)
  moreover have "unat q \<le> unat (1 + p)" using assms(3) by (simp add: word_le_nat_alt not_less add.commute)
  ultimately show ?thesis by linarith
qed

lemma key_step_findings:
  "(rw_KeyVersion r \<noteq> rw_KeyVersion p \<and> \<not> rotated p r \<or> ev_Event r = EventKeyRotated \<and> \<not> rotated p r) = (\<not> key_step p r)"
  by (auto simp: key_step_def rotated_def)

lemma link_ok:
  "link_findings (Some p) r = [] \<Longrightarrow> unat (rw_Seq r) = Suc (unat (rw_Seq p)) \<and> rw_Prev r = rw_MAC p \<and> key_step p r"
proof -
  assume lf: "link_findings (Some p) r = []"
  then have seq: "rw_Seq p \<noteq> rw_Seq r" "\<not> rw_Seq r < rw_Seq p" "\<not> rw_Seq r > rw_Seq p + 1"
    and link: "rw_Seq r = rw_Seq p + 1 \<longrightarrow> rw_Prev r = rw_MAC p" and key: "key_step p r"
    by (simp_all add: link_findings_def key_step_findings split: if_splits)
  from seq have u: "unat (rw_Seq r) = Suc (unat (rw_Seq p))" by (rule word_between)
  have "rw_Seq r = word_of_nat (Suc (unat (rw_Seq p)))" unfolding u [symmetric] by simp
  then have "rw_Seq r = rw_Seq p + 1" by (simp add: add.commute)
  with u link key show ?thesis by simp
qed

lemma unat_seq: "n < 2 ^ 64 \<Longrightarrow> unat (of_nat n :: 64 word) = n"
  by (simp add: unat_of_nat)

lemma accepted_numbered: "accepted v rows \<Longrightarrow> numbered rows"
proof (induction rows rule: rev_induct)
  case (snoc r rows)
  then have acc: "accepted v rows" and lf: "link_findings (cs_prev (chain_scan v rows)) r = []" by (simp_all add: accepted_snoc_iff)
  have num: "numbered rows" using snoc.IH [OF acc] .
  show ?case
  proof (cases "rows = []")
    case True
    then show ?thesis using lf by (auto simp: remembers_prev link_findings_def numbered_def split: if_splits)
  next
    case False
    then have "unat (rw_Seq r) = Suc (unat (rw_Seq (last rows)))" using lf num link_ok by (simp add: remembers_prev)
    with False num last_seq [OF num] show ?thesis by simp
  qed
qed simp

lemma mac_finding_None:
  assumes "mac_finding v prev r = None"
  shows "covered r \<and> (\<exists>key. vf_HMACKey v (rw_KeyVersion r) = Some key \<and> computeMAC (vf_hmac v) r key = rw_MAC r)"
  using assms by (auto simp: mac_finding_def covered_def split: option.splits if_splits)

lemma accepted_nth:
  assumes "accepted v rows" and "i < length rows"
  shows "covered (rows ! i) \<and> (\<exists>key. vf_HMACKey v (rw_KeyVersion (rows ! i)) = Some key \<and> computeMAC (vf_hmac v) (rows ! i) key = rw_MAC (rows ! i))"
  using assms
proof (induction rows rule: rev_induct)
  case (snoc r rows)
  then show ?case
    by (cases "i < length rows") (auto simp: accepted_snoc_iff nth_append less_Suc_eq dest: mac_finding_None)
qed simp

section \<open>Honest trails are accepted\<close>

lemma trail_numbered: "trail E T rows \<Longrightarrow> length rows < 2 ^ 64 \<Longrightarrow> numbered rows"
proof (induction rule: trail.induct)
  case (snoc rows r)
  then have "unat (rw_Seq r) = length rows" by (simp add: next_ok_def unat_seq)
  with snoc show ?case by simp
qed simp

lemma covered_current: "rw_MACVersion r = MACVersionCurrent \<Longrightarrow> covered r"
  by (simp add: covered_def MACVersionCurrent_def)

lemma next_ok_accepted:
  assumes num: "numbered rows" and len: "Suc (length rows) < 2 ^ 64" and nx: "next_ok E T rows r"
    and prevs: "\<forall>p \<in> set rows. rw_MACVersion p = MACVersionCurrent"
    and v: "vf_hmac v = env_hmac E" "vf_HMACKey v = sp_keys T" "\<And>r. sp_signed T r \<Longrightarrow> signature_valid v r"
  shows "mac_finding v (cs_prev (chain_scan v rows)) r = None \<and> link_findings (cs_prev (chain_scan v rows)) r = []
     \<and> (ev_Event r = EventCheckpoint \<longrightarrow> checkpointValid v r (cs_macs (chain_scan v rows)))"
proof (intro conjI impI)
  have seq: "unat (rw_Seq r) = length rows" using nx len by (simp add: next_ok_def unat_seq)
  note rem = remembers_scan [OF num, of v]
  have ver: "rw_MACVersion p = MACVersionCurrent" if "cs_prev (chain_scan v rows) = Some p" for p
    using that prevs num by (auto simp: remembers_prev split: if_splits)
  show "mac_finding v (cs_prev (chain_scan v rows)) r = None"
    using nx v(1,2) ver by (auto simp: next_ok_def mac_finding_def MACVersionCurrent_def split: option.splits)
  show "link_findings (cs_prev (chain_scan v rows)) r = []"
  proof (cases "rows = []")
    case True
    then show ?thesis using nx by (simp add: remembers_prev link_findings_def next_ok_def)
  next
    case False
    let ?p = "last rows"
    have up: "unat (rw_Seq ?p) = length rows - 1" using num False by (rule last_seq)
    have lt: "rw_Seq ?p < rw_Seq r" using up seq False by (simp add: word_less_nat_alt)
    have "rw_Seq r = rw_Seq ?p + 1"
    proof -
      have "of_nat (length rows) = of_nat (length rows - 1) + (1 :: 64 word)" using False by (cases rows) simp_all
      moreover have "rw_Seq ?p = of_nat (length rows - 1)" using up by (metis unat_eq_nat_word)
      ultimately show ?thesis using nx by (simp add: next_ok_def)
    qed
    with lt False nx num show ?thesis
      unfolding link_findings_def key_step_findings by (auto simp: remembers_prev key_step_findings next_ok_def)
  qed
  assume "ev_Event r = EventCheckpoint"
  then obtain j where j: "j < length rows" "rw_SignedSeq r = of_nat j" "rw_SignedMAC r = rw_MAC (rows ! j)" "sp_signed T r"
    using nx by (auto simp: next_ok_def)
  have uj: "unat (rw_SignedSeq r) = j" using j len by (simp add: unat_seq)
  then have "rw_SignedSeq r < rw_Seq r" using j seq by (simp add: word_less_nat_alt)
  moreover have "map_of (cs_macs (chain_scan v rows)) (rw_SignedSeq r) = Some (rw_MAC (rows ! j))"
    using rem uj j(1) by (simp add: remembers_def)
  ultimately show "checkpointValid v r (cs_macs (chain_scan v rows))"
    using j(3,4) v(3) by (simp add: checkpointValid_def)
qed

lemma trail_versions: "trail E T rows \<Longrightarrow> \<forall>p \<in> set rows. rw_MACVersion p = MACVersionCurrent"
  by (induction rule: trail.induct) (auto simp: next_ok_def)

lemma trail_accepted:
  assumes "trail E T rows" and "length rows < 2 ^ 64"
    and v: "vf_hmac v = env_hmac E" "vf_HMACKey v = sp_keys T" "\<And>r. sp_signed T r \<Longrightarrow> signature_valid v r"
  shows "accepted v rows"
  using assms(1,2)
proof (induction rule: trail.induct)
  case (snoc rows r)
  then have "accepted v rows" "numbered rows" "\<forall>p \<in> set rows. rw_MACVersion p = MACVersionCurrent"
    by (auto simp: trail_numbered trail_versions)
  with next_ok_accepted [OF this(2) _ snoc.hyps(2) this(3) v] snoc.prems show ?case by (simp add: accepted_snoc_iff)
qed simp

section \<open>Accepted rows were written\<close>

lemma accepted_row_written:
  assumes acc: "accepted v rows" and i: "i < length rows" and tr: "trail E T honest" and len: "length honest < 2 ^ 64"
    and v: "vf_hmac v = env_hmac E" "vf_HMACKey v = sp_keys T"
    and h: "h \<in> set honest" "macInput h = macInput (rows ! i)" and sh: "short_row h" "short_row (rows ! i)"
  shows "i < length honest \<and> rows ! i = honest ! i"
proof -
  let ?r = "rows ! i"
  obtain key where key: "sp_keys T (rw_KeyVersion ?r) = Some key" "computeMAC (env_hmac E) ?r key = rw_MAC ?r" and cov: "covered ?r"
    using accepted_nth [OF acc i] v by auto
  obtain j where j: "j < length honest" "h = honest ! j" using h(1) by (auto simp: in_set_conv_nth)
  have nx: "next_ok E T (take j honest) h" using trail_nth [OF tr j(1)] j(2) by simp
  then have "covered h" by (simp add: next_ok_def covered_current)
  then have eq: "h\<lparr>rw_MAC := m\<rparr> = ?r\<lparr>rw_MAC := m\<rparr>" for m
    using row_ext v5_fields_covered [OF _ cov mac_domain_eq [OF sh h(2)]] by blast
  have kv: "rw_KeyVersion h = rw_KeyVersion ?r" and sq: "rw_Seq h = rw_Seq ?r"
    using arg_cong [OF eq, of rw_KeyVersion] arg_cong [OF eq, of rw_Seq] by simp_all
  have "rw_MAC h = computeMAC (env_hmac E) h key" using nx kv key(1) by (auto simp: next_ok_def)
  also have "\<dots> = rw_MAC ?r" using key(2) h(2) by (simp add: computeMAC_def)
  finally have m: "rw_MAC h = rw_MAC ?r" .
  have "h = h\<lparr>rw_MAC := rw_MAC h\<rparr>" by simp
  also have "\<dots> = ?r\<lparr>rw_MAC := rw_MAC ?r\<rparr>" unfolding m by (rule eq)
  finally have "h = ?r" by simp
  moreover have "j = i"
  proof -
    have "unat (rw_Seq h) = j" using trail_numbered [OF tr len] j by (simp add: numbered_def)
    moreover have "unat (rw_Seq ?r) = i" using accepted_numbered [OF acc] i by (simp add: numbered_def)
    ultimately show ?thesis using sq by simp
  qed
  ultimately show ?thesis using j by simp
qed

lemma verifyChain_clean:
  assumes "fst (verifyChain v k rows) = []"
  shows "accepted v rows"
  using assms by (simp add: verifyChain_def Let_def accepted_def)

lemma head_reached:
  assumes acc: "accepted v rows" and hd: "head_finding [((hd_Replica h, hd_Boot h), chain_scan v rows)] h = []"
    and mac: "hd_CheckpointMAC h \<noteq> []"
  shows "unat (hd_CheckpointSeq h) < length rows"
  using hd mac remembers_scan [OF accepted_numbered [OF acc], of v]
  by (auto simp: head_finding_def remembers_def Let_def split: if_splits)

section \<open>Properties\<close>

text \<open>
  Claim C2. Whatever a replica's audit writer does, with records, checkpoints and key rotations
  interleaved and write or signer failures at any point, the rows it has written verify: under the
  true keys and signatures the verifier reports nothing about them but, at most, a tail not
  yet covered by a checkpoint.
\<close>

theorem audit_trail_verifies:
  assumes "audit_reach E T (c, hs)" and "length (ch_out c) < 2 ^ 64"
    and "vf_hmac v = env_hmac E" and "vf_HMACKey v = sp_keys T" and "\<forall>r. sp_signed T r \<longrightarrow> signature_valid v r"
  shows "list_all (\<lambda>f. f_Kind f = FindingUnsigned) (fst (verifyChain v k (ch_out c)))"
proof -
  have "trail E T (ch_out c)" using audit_reach_inv [OF assms(1)] by (simp add: chain_inv_def)
  then have "accepted v (ch_out c)" using assms(2-5) by (intro trail_accepted) auto
  then show ?thesis
    by (auto simp: verifyChain_def Let_def accepted_def unsigned_tail_def list_all_iff split: option.splits)
qed

definition demo_env :: audit_env where
  "demo_env = \<lparr>env_hmac = (\<lambda>key m. ''mac''), env_time = (\<lambda>_. ''2025-01-01T00:00:00Z'')\<rparr>"

definition demo_verifier :: verifier where
  "demo_verifier = \<lparr>vf_hmac = (\<lambda>key m. ''mac''), vf_HMACKey = (\<lambda>ver. Some ''secret''), vf_PublicKeys = [(1, ''pub'')],
     vf_ed25519 = (\<lambda>pub m sig. True), vf_parse = (\<lambda>t. Some 0), MaxUnsigned = 60, SortBySeq = False, PartialHistory = False, Heads = None\<rparr>"

definition demo_start :: chain where
  "demo_start = projr (snd (chain_New demo_env ''pod-0'' 0 (Some \<lparr>key_Version = 1, key_secret = ''secret''\<rparr>) [] 0 True))"

definition demo_spec :: trail_spec where
  "demo_spec = \<lparr>sp_keys = (\<lambda>ver. Some ''secret''), sp_signed = signature_valid demo_verifier, sp_replica = ''pod-0'', sp_boot = 1\<rparr>"

definition demo_state :: "chain \<times> (64 word \<times> string) list" where
  "demo_state = audit_exec demo_env (audit_exec demo_env (demo_start, []) OpHead) (OpSign 0 0 True (Some ''vault:v1:AAAA''))"

lemma demo_reach: "audit_reach demo_env demo_spec demo_state"
proof -
  have "snd (chain_New demo_env ''pod-0'' 0 (Some \<lparr>key_Version = 1, key_secret = ''secret''\<rparr>) [] 0 True) = Inr demo_start"
    by (simp add: demo_start_def chain_New_def audit_identifier_def BeginAuditBoot_def appendLocked_def Let_def)
  then obtain tab where new: "chain_New demo_env ''pod-0'' 0 (Some \<lparr>key_Version = 1, key_secret = ''secret''\<rparr>) [] 0 True = (tab, Inr demo_start)"
    by (metis prod.collapse)
  have "ch_boot demo_start = 1" by code_simp
  then have "audit_reach demo_env demo_spec (demo_start, [])"
    by (intro audit_reach.start [OF new]) (simp_all add: demo_spec_def)
  then have h: "audit_reach demo_env demo_spec (audit_exec demo_env (demo_start, []) OpHead)" by (rule audit_reach.step) simp
  have sig: "signature_valid demo_verifier r" if "rw_Signature r = ''vault:v1:AAAA''" for r
  proof -
    have "parseTransitSignature ''vault:v1:AAAA'' = Some (1, map char_of [0 :: nat, 0, 0])" by code_simp
    with that show ?thesis by (simp add: signature_valid_def demo_verifier_def)
  qed
  show ?thesis unfolding demo_state_def
    by (rule audit_reach.step [OF h], cases "audit_exec demo_env (demo_start, []) OpHead") (simp add: demo_spec_def sig)
qed

lemma demo_values:
  "vf_hmac demo_verifier = env_hmac demo_env" "vf_HMACKey demo_verifier = sp_keys demo_spec"
  "sp_signed demo_spec = signature_valid demo_verifier"
  by (simp_all add: demo_verifier_def demo_env_def demo_spec_def)

theorem audit_trail_verifies_witness:
  "list_all (\<lambda>f. f_Kind f = FindingUnsigned) (fst (verifyChain demo_verifier (''pod-0'', 1) (ch_out (fst demo_state))))"
proof -
  have "audit_reach demo_env demo_spec (fst demo_state, snd demo_state)" using demo_reach by simp
  moreover have "length (ch_out (fst demo_state)) = 2" by code_simp
  ultimately show ?thesis
    using audit_trail_verifies [of demo_env demo_spec "fst demo_state" "snd demo_state" demo_verifier]
    by (simp add: demo_values)
qed

text \<open>
  Claim C1. Tamper evidence. Let \<open>W\<close> be all rows ever written by any replica, and let the MAC be
  unforgeable: a row of the export whose MAC is right has the MAC input of a written row. When
  the rows exported for one boot verify without a finding, they are exactly the first rows that
  boot wrote, unchanged and in order; and when the head that the store holds for
  the boot also checks, they reach at least its persisted checkpoint.
\<close>

theorem clean_export_is_prefix:
  assumes clean: "fst (verifyChain v k rows) = []" and mine: "\<forall>r \<in> set rows. (rw_Replica r, rw_Boot r) = k"
    and unforgeable: "\<forall>r \<in> set rows. \<forall>key. vf_HMACKey v (rw_KeyVersion r) = Some key \<longrightarrow>
        computeMAC (vf_hmac v) r key = rw_MAC r \<longrightarrow> (\<exists>h \<in> W. macInput h = macInput r)"
    and written: "\<forall>h \<in> W. covered h \<and> short_row h \<and> ((rw_Replica h, rw_Boot h) = k \<longrightarrow> h \<in> set honest)"
    and honest: "trail E T honest" "length honest < 2 ^ 64" "vf_hmac v = env_hmac E" "vf_HMACKey v = sp_keys T"
    and short: "\<forall>r \<in> set rows. short_row r"
  shows "rows = take (length rows) honest
       \<and> (\<forall>h. (hd_Replica h, hd_Boot h) = k \<longrightarrow> hd_CheckpointMAC h \<noteq> [] \<longrightarrow>
            head_finding [(k, snd (verifyChain v k rows))] h = [] \<longrightarrow> unat (hd_CheckpointSeq h) < length rows)"
proof -
  note acc = verifyChain_clean [OF clean]
  have row: "i < length honest \<and> rows ! i = honest ! i" if i: "i < length rows" for i
  proof -
    have r: "rows ! i \<in> set rows" using i by simp
    from accepted_nth [OF acc i] unforgeable r obtain h where h: "h \<in> W" "macInput h = macInput (rows ! i)" by blast
    have cov: "covered h" "covered (rows ! i)" and sh: "short_row h" "short_row (rows ! i)"
      using written h(1) short r accepted_nth [OF acc i] by blast+
    have eq: "h\<lparr>rw_MAC := []\<rparr> = (rows ! i)\<lparr>rw_MAC := []\<rparr>"
      by (intro row_ext v5_fields_covered [OF cov] mac_domain_eq [OF sh h(2)])
    have "rw_Replica h = rw_Replica (rows ! i)" "rw_Boot h = rw_Boot (rows ! i)"
      using arg_cong [OF eq, of rw_Replica] arg_cong [OF eq, of rw_Boot] by simp_all
    then have "(rw_Replica h, rw_Boot h) = k" using mine r by simp
    then have "h \<in> set honest" using written h(1) by blast
    then show ?thesis by (rule accepted_row_written [OF acc i honest _ h(2) sh])
  qed
  have "length rows \<le> length honest" using row [of "length honest"] by (cases "length honest < length rows") simp_all
  then have "rows = take (length rows) honest" using row by (intro nth_equalityI) auto
  moreover have "snd (verifyChain v k rows) = chain_scan v rows" by (simp add: verifyChain_def Let_def)
  ultimately show ?thesis using head_reached [OF acc] by metis
qed

definition demo_later :: "chain \<times> (64 word \<times> string) list" where
  "demo_later = audit_exec demo_env demo_state (OpSign 0 0 True None)"

lemma op_honest_unsigned: "op_honest T st (OpSign i now w None)"
  by (cases st) simp

lemma demo_later_reach: "audit_reach demo_env demo_spec demo_later"
  unfolding demo_later_def by (rule audit_reach.step [OF demo_reach op_honest_unsigned])

theorem clean_export_is_prefix_witness:
  "length (ch_out (fst demo_later)) = 3 \<and> ch_out (fst demo_state) = take 2 (ch_out (fst demo_later))"
proof -
  let ?rows = "ch_out (fst demo_state)" and ?honest = "ch_out (fst demo_later)"
  have clean: "fst (verifyChain demo_verifier (''pod-0'', 1) ?rows) = []" by code_simp
  have mine: "\<forall>r \<in> set ?rows. (rw_Replica r, rw_Boot r) = (''pod-0'', 1)" by code_simp
  have sub: "list_all (\<lambda>r. list_ex (\<lambda>h. macInput h = macInput r) ?honest) ?rows" by code_simp
  have W: "\<forall>h \<in> set ?honest. covered h \<and> short_row h \<and> ((rw_Replica h, rw_Boot h) = (''pod-0'', 1) \<longrightarrow> h \<in> set ?honest)"
  proof -
    have "list_all (\<lambda>h. covered h \<and> short_row h) ?honest" by code_simp
    then show ?thesis by (auto simp: list_all_iff)
  qed
  have short: "\<forall>r \<in> set ?rows. short_row r" by code_simp
  have tr: "trail demo_env demo_spec ?honest" using audit_reach_inv [OF demo_later_reach] by (simp add: chain_inv_def)
  have len: "length ?honest = 3" "length ?rows = 2" by code_simp+
  then have lt: "length ?honest < 2 ^ 64" by simp
  have "?rows = take (length ?rows) ?honest"
    using clean_export_is_prefix [OF clean mine _ W tr lt demo_values(1,2) short] sub by (auto simp: list_all_iff list_ex_iff)
  with len show ?thesis by simp
qed

end
