(* ===== verification/AuditBoots.thy ===== *)
theory AuditBoots
  imports AuditChain
begin

text \<open>
  The boot table under any sequence of operations: each start of a replica gets the next number,
  and only the newest boot of a replica can still persist checkpoints.
\<close>

datatype boot_op = BeginBoot string | RecordCheckpoint string "64 word" "64 word" string

text \<open>The table and the boots issued so far, newest last.\<close>

fun boot_exec :: "boot_table \<times> (string \<times> 64 word) list \<Rightarrow> boot_op \<Rightarrow> boot_table \<times> (string \<times> 64 word) list" where
  "boot_exec (tab, issued) (BeginBoot r) =
     (case BeginAuditBoot tab r of (tab', None) \<Rightarrow> (tab', issued) | (tab', Some (b, p)) \<Rightarrow> (tab', issued @ [(r, b)]))"
| "boot_exec (tab, issued) (RecordCheckpoint r b s m) =
     (case RecordAuditCheckpoint tab r b s m of None \<Rightarrow> (tab, issued) | Some tab' \<Rightarrow> (tab', issued))"

definition boots_of :: "string \<Rightarrow> (string \<times> 64 word) list \<Rightarrow> 64 word list" where
  "boots_of r issued = map snd (filter (\<lambda>p. fst p = r) issued)"

definition boots_ok :: "boot_table \<Rightarrow> (string \<times> 64 word) list \<Rightarrow> bool" where
  "boots_ok tab issued \<longleftrightarrow>
     (\<forall>r. (case map_of tab r of None \<Rightarrow> boots_of r issued = [] | Some row \<Rightarrow> rr_boot row = int (length (boots_of r issued)))
          \<and> boots_of r issued = map word_of_nat [1..<Suc (length (boots_of r issued))])"

lemma boots_of_snoc: "boots_of r (issued @ [(q, b)]) = boots_of r issued @ (if q = r then [b] else [])"
  by (simp add: boots_of_def)

lemma boots_ok_begin:
  assumes "boots_ok tab issued"
  shows "boots_ok (fst (boot_exec (tab, issued) (BeginBoot q))) (snd (boot_exec (tab, issued) (BeginBoot q)))"
proof (cases "q = []")
  case True
  then show ?thesis using assms by (simp add: BeginAuditBoot_def)
next
  case False
  let ?bs = "boots_of q issued" and ?n = "length (boots_of q issued)"
  have seq: "?bs = map word_of_nat [1..<Suc ?n]" using assms by (simp add: boots_ok_def)
  have ex: "\<exists>tab' row. boot_exec (tab, issued) (BeginBoot q) = (tab', issued @ [(q, word_of_nat (Suc ?n))])
      \<and> map_of tab' = (map_of tab)(q \<mapsto> row) \<and> rr_boot row = int (Suc ?n)"
  proof (cases "map_of tab q")
    case None
    then have "?n = 0" using assms by (simp add: boots_ok_def) (metis (mono_tags) None option.simps(4) list.size(3))
    with None False show ?thesis
      by (intro exI [of _ "map_put q \<lparr>rr_boot = 1, rr_checkpoint_seq = 0, rr_checkpoint_mac = []\<rparr> tab"]
          exI [of _ "\<lparr>rr_boot = 1, rr_checkpoint_seq = 0, rr_checkpoint_mac = []\<rparr>"]) (simp add: BeginAuditBoot_def)
  next
    case (Some row)
    then have "rr_boot row = int ?n" using assms by (simp add: boots_ok_def) (metis (mono_tags) Some option.simps(5))
    with Some False show ?thesis
      by (intro exI [of _ "map_put q \<lparr>rr_boot = rr_boot row + 1, rr_checkpoint_seq = 0, rr_checkpoint_mac = []\<rparr> tab"]
          exI [of _ "\<lparr>rr_boot = rr_boot row + 1, rr_checkpoint_seq = 0, rr_checkpoint_mac = []\<rparr>"])
         (simp add: BeginAuditBoot_def Let_def add.commute)
  qed
  then obtain tab' row where e: "boot_exec (tab, issued) (BeginBoot q) = (tab', issued @ [(q, word_of_nat (Suc ?n))])"
    and t: "map_of tab' = (map_of tab)(q \<mapsto> row)" and b: "rr_boot row = int (Suc ?n)" by blast
  let ?issued = "issued @ [(q, word_of_nat (Suc ?n))]"
  have q: "boots_of q ?issued = map word_of_nat [1..<Suc (Suc ?n)]" "length (boots_of q ?issued) = Suc ?n"
    using seq by (simp_all add: boots_of_snoc)
  have "(case map_of tab' r of None \<Rightarrow> boots_of r ?issued = [] | Some row \<Rightarrow> rr_boot row = int (length (boots_of r ?issued)))
      \<and> boots_of r ?issued = map word_of_nat [1..<Suc (length (boots_of r ?issued))]" for r
  proof (cases "r = q")
    case True
    then show ?thesis using t b q by (simp del: upt_Suc)
  next
    case False
    then have "boots_of r ?issued = boots_of r issued" "map_of tab' r = map_of tab r" using t by (simp_all add: boots_of_snoc)
    then show ?thesis using assms by (simp only: boots_ok_def)
  qed
  then show ?thesis unfolding e boots_ok_def fst_conv snd_conv by blast
qed

lemma boots_ok_record:
  assumes "boots_ok tab issued"
  shows "boots_ok (fst (boot_exec (tab, issued) (RecordCheckpoint q b s m))) (snd (boot_exec (tab, issued) (RecordCheckpoint q b s m)))"
proof (cases "RecordAuditCheckpoint tab q b s m")
  case None
  then show ?thesis using assms by simp
next
  case (Some tab')
  then obtain row row' where t: "map_of tab q = Some row" "map_of tab' = (map_of tab)(q \<mapsto> row')" "rr_boot row' = rr_boot row"
    by (auto simp: RecordAuditCheckpoint_def split: option.splits if_splits)
  have "(case map_of tab' r of None \<Rightarrow> boots_of r issued = [] | Some row \<Rightarrow> rr_boot row = int (length (boots_of r issued)))
      = (case map_of tab r of None \<Rightarrow> boots_of r issued = [] | Some row \<Rightarrow> rr_boot row = int (length (boots_of r issued)))" for r
    using t by simp
  with Some assms show ?thesis by (simp add: boots_ok_def del: upt_Suc)
qed

lemma boots_ok_run:
  "boots_ok (fst st) (snd st) \<Longrightarrow> boots_ok (fst (foldl boot_exec st ops)) (snd (foldl boot_exec st ops))"
proof (induction ops arbitrary: st)
  case (Cons p ops)
  have "boots_ok (fst (boot_exec st p)) (snd (boot_exec st p))"
    using Cons.prems boots_ok_begin [of "fst st" "snd st"] boots_ok_record [of "fst st" "snd st"]
    by (cases p) (simp_all del: boot_exec.simps)
  then show ?case using Cons.IH by simp
qed simp

section \<open>Properties\<close>

text \<open>
  Claim C7. Boot numbers fence out old processes. After any starts and checkpoints, the boots issued
  to a replica are 1, 2, 3 and so on in the order of its starts, and a checkpoint is
  accepted only for the newest of them: a process whose replica name has been taken over
  cannot overwrite its successor's head.
\<close>

theorem boot_numbers_fence:
  assumes "foldl boot_exec ([], []) ops = (tab, issued)"
  shows "boots_of r issued = map word_of_nat [1..<Suc (length (boots_of r issued))]
       \<and> (length (boots_of r issued) < 2 ^ 63 \<longrightarrow> RecordAuditCheckpoint tab r b s m \<noteq> None \<longrightarrow>
            boots_of r issued \<noteq> [] \<and> b = last (boots_of r issued))"
proof -
  let ?n = "length (boots_of r issued)"
  have "boots_ok [] []" by (simp add: boots_ok_def boots_of_def)
  then have ok: "boots_ok tab issued" using boots_ok_run [of "([], [])" ops] assms by simp
  then have seq: "boots_of r issued = map word_of_nat [1..<Suc ?n]" by (simp add: boots_ok_def)
  have "boots_of r issued \<noteq> [] \<and> b = last (boots_of r issued)"
    if n: "?n < 2 ^ 63" and rec: "RecordAuditCheckpoint tab r b s m \<noteq> None"
  proof -
    from rec obtain row where row: "map_of tab r = Some row" "rr_boot row = sint b" "b \<noteq> 0"
      by (auto simp: RecordAuditCheckpoint_def split: option.splits if_splits)
    then have "sint b = int ?n" using ok by (metis (mono_tags, lifting) boots_ok_def option.simps(5))
    then have "of_int (sint b) = (of_int (int ?n) :: 64 word)" by simp
    then have b: "b = word_of_nat ?n" by simp
    with row(3) have "?n \<noteq> 0" by auto
    moreover from this have "last (map word_of_nat [1..<Suc ?n]) = (word_of_nat ?n :: 64 word)" by (simp add: last_map Suc_le_eq)
    ultimately show ?thesis using b seq by (metis length_0_conv)
  qed
  with seq show ?thesis by blast
qed

theorem boot_numbers_fence_witness:
  "RecordAuditCheckpoint (fst (foldl boot_exec ([], []) [BeginBoot ''pod-0'', BeginBoot ''pod-0''])) ''pod-0'' 1 5 ''mac'' = None"
proof (rule ccontr)
  let ?st = "foldl boot_exec ([], []) [BeginBoot ''pod-0'', BeginBoot ''pod-0'']"
  have st: "foldl boot_exec ([], []) [BeginBoot ''pod-0'', BeginBoot ''pod-0''] = (fst ?st, snd ?st)" by simp
  have b: "boots_of ''pod-0'' (snd ?st) = [1, 2]" by code_simp
  assume "RecordAuditCheckpoint (fst ?st) ''pod-0'' 1 5 ''mac'' \<noteq> None"
  with boot_numbers_fence [OF st, of "''pod-0''" 1 5 "''mac''"] b have "(1 :: 64 word) = 2" by simp
  then show False by simp
qed

end
