(* ===== verification/Sessions.thy ===== *)
theory Sessions
  imports GoStrings Base64 IPAddr
begin

text \<open>
  Who is asking (internal/brokercore): the Proxy-Authorization header (proxyauth.go), the
  resolution of a session token and vault hint to a scope (session.go), the identity kinds
  of listeners (kinds.go) and the PROXY protocol header (proxyheader.go). The session store
  is an interface: its lookups are functions, \<open>None\<close> an error or a missing row.
\<close>

section \<open>Proxy-Authorization\<close>

datatype broker_error =
    ErrInvalidSession | ErrNoVaultContext | ErrAgentVaultAmbiguous | ErrVaultHintMismatch | ErrVaultNotFound
  | ErrVaultAccessDenied | ErrServiceNotFound | ErrCredentialMissing | ErrServiceDisabled | ErrOAuthNotConnected
  | ErrOAuthRefreshFailed

definition lower_is :: "string \<Rightarrow> string \<Rightarrow> bool" where
  "lower_is s t \<longleftrightarrow> lower_runes s = map byte_of t"

text \<open>The argument is the value of the header, empty when it is absent.\<close>

definition ParseProxyAuth :: "string \<Rightarrow> broker_error + string \<times> string" where
  "ParseProxyAuth h =
     (if h = [] then Inl ErrInvalidSession
      else case index_byte (CHR '' '') h of
        None \<Rightarrow> Inl ErrInvalidSession
      | Some i \<Rightarrow>
          (let scheme = take i h; rest = drop (i + 1) h in
           if rest = [] then Inl ErrInvalidSession
           else
             (let rest = TrimSpace rest in
              if lower_is scheme ''bearer'' then
                (if rest = [] then Inl ErrInvalidSession else Inr (rest, []))
              else if lower_is scheme ''basic'' then
                (case b64_decode rest of
                   None \<Rightarrow> Inl ErrInvalidSession
                 | Some userinfo \<Rightarrow>
                     if userinfo = [] then Inl ErrInvalidSession
                     else case index_byte (CHR '':'') userinfo of
                       Some k \<Rightarrow>
                         if take k userinfo = [] then Inl ErrInvalidSession
                         else Inr (take k userinfo, drop (k + 1) userinfo)
                     | None \<Rightarrow> Inr (userinfo, []))
              else Inl ErrInvalidSession)))"

section \<open>Scopes\<close>

record session =
  se_VaultID :: string
  se_VaultRole :: string
  se_UserID :: string
  se_AgentID :: string
  se_ExpiresAt :: "int option"
  se_IdleTTL :: int
  se_LastUsedAt :: "int option"

record vault =
  va_ID :: string
  va_Name :: string

record vault_grant =
  gr_ActorID :: string
  gr_ActorType :: string
  gr_VaultID :: string
  gr_VaultName :: string
  gr_Role :: string
  gr_CreatedAt :: int

text \<open>\<open>Session.IsExpired\<close> of internal/store.\<close>

definition IsExpired :: "session \<Rightarrow> int \<Rightarrow> bool" where
  "IsExpired s now =
     (if (case se_ExpiresAt s of None \<Rightarrow> False | Some t \<Rightarrow> now > t) then True
      else if se_IdleTTL s > 0 \<and> (case se_LastUsedAt s of None \<Rightarrow> False | Some t \<Rightarrow> now - t > se_IdleTTL s) then True
      else False)"

record session_store =
  GetSession :: "string \<Rightarrow> session option"
  GetVault :: "string \<Rightarrow> vault option"
  GetVaultByID :: "string \<Rightarrow> vault option"
  GetVaultRole :: "string \<Rightarrow> string \<Rightarrow> string option"
  ListActorGrants :: "string \<Rightarrow> vault_grant list option"

record proxy_scope =
  ps_AgentID :: string
  ps_UserID :: string
  ps_VaultID :: string
  ps_VaultName :: string
  ps_VaultRole :: string

definition ActorID :: "proxy_scope \<Rightarrow> string" where
  "ActorID s = (if ps_UserID s \<noteq> [] then ps_UserID s else ps_AgentID s)"

definition ResolveForProxy :: "session_store \<Rightarrow> int \<Rightarrow> string \<Rightarrow> string \<Rightarrow> broker_error + proxy_scope" where
  "ResolveForProxy st now token vaultHint =
     (if token = [] then Inl ErrInvalidSession
      else case GetSession st token of
        None \<Rightarrow> Inl ErrInvalidSession
      | Some sess \<Rightarrow>
          if IsExpired sess now then Inl ErrInvalidSession
          else if se_VaultID sess \<noteq> [] then
            (case GetVaultByID st (se_VaultID sess) of
               None \<Rightarrow> Inl ErrVaultNotFound
             | Some v \<Rightarrow>
                 if vaultHint \<noteq> [] \<and> vaultHint \<noteq> va_Name v then Inl ErrVaultHintMismatch
                 else Inr \<lparr>ps_AgentID = se_AgentID sess, ps_UserID = se_UserID sess, ps_VaultID = va_ID v,
                           ps_VaultName = va_Name v, ps_VaultRole = se_VaultRole sess\<rparr>)
          else if se_AgentID sess = [] then Inl ErrNoVaultContext
          else if vaultHint \<noteq> [] then
            (case GetVault st vaultHint of
               None \<Rightarrow> Inl ErrVaultNotFound
             | Some v \<Rightarrow>
                 (case GetVaultRole st (se_AgentID sess) (va_ID v) of
                    None \<Rightarrow> Inl ErrVaultAccessDenied
                  | Some role \<Rightarrow>
                      if role = [] then Inl ErrVaultAccessDenied
                      else Inr \<lparr>ps_AgentID = se_AgentID sess, ps_UserID = [], ps_VaultID = va_ID v,
                                ps_VaultName = va_Name v, ps_VaultRole = role\<rparr>))
          else
            (case ListActorGrants st (se_AgentID sess) of
               None \<Rightarrow> Inl ErrNoVaultContext
             | Some [] \<Rightarrow> Inl ErrNoVaultContext
             | Some [g] \<Rightarrow>
                 Inr \<lparr>ps_AgentID = se_AgentID sess, ps_UserID = [], ps_VaultID = gr_VaultID g,
                      ps_VaultName = gr_VaultName g, ps_VaultRole = gr_Role g\<rparr>
             | Some _ \<Rightarrow> Inl ErrAgentVaultAmbiguous))"

subsection \<open>What a store promises, and what a scope then is\<close>

text \<open>
  A store with an invariant: a vault found by identifier or by name has that identifier or name, and
  the grants it lists for an actor are the roles it reports, on vaults that exist.
\<close>

locale session_backend =
  fixes view :: "'d \<Rightarrow> session_store" and inv :: "'d \<Rightarrow> bool"
  assumes vault_by_id: "inv d \<Longrightarrow> GetVaultByID (view d) i = Some v \<Longrightarrow> va_ID v = i"
    and vault_by_name: "inv d \<Longrightarrow> GetVault (view d) n = Some v \<Longrightarrow> va_Name v = n \<and> GetVaultByID (view d) (va_ID v) = Some v"
    and grants_are_roles: "inv d \<Longrightarrow> ListActorGrants (view d) a = Some gs \<Longrightarrow> g \<in> set gs
      \<Longrightarrow> GetVaultRole (view d) a (gr_VaultID g) = Some (gr_Role g)
        \<and> (\<exists>v. GetVaultByID (view d) (gr_VaultID g) = Some v \<and> va_Name v = gr_VaultName g)"
begin

lemma scope_sound:
  assumes inv: "inv d" and r: "ResolveForProxy (view d) now token hint = Inr sc"
  shows "\<exists>sess. GetSession (view d) token = Some sess \<and> \<not> IsExpired sess now
    \<and> (\<exists>v. GetVaultByID (view d) (ps_VaultID sc) = Some v \<and> va_Name v = ps_VaultName sc)
    \<and> (hint \<noteq> [] \<longrightarrow> ps_VaultName sc = hint) \<and> ps_AgentID sc = se_AgentID sess
    \<and> (if se_VaultID sess \<noteq> [] then ps_VaultID sc = se_VaultID sess \<and> ps_VaultRole sc = se_VaultRole sess
         \<and> ps_UserID sc = se_UserID sess
       else ps_AgentID sc \<noteq> [] \<and> ps_UserID sc = []
         \<and> GetVaultRole (view d) (ps_AgentID sc) (ps_VaultID sc) = Some (ps_VaultRole sc))"
proof -
  from r obtain sess where sess: "GetSession (view d) token = Some sess" "\<not> IsExpired sess now"
    by (auto simp: ResolveForProxy_def split: if_splits option.splits)
  consider (scoped) v where "se_VaultID sess \<noteq> []" "GetVaultByID (view d) (se_VaultID sess) = Some v"
      "hint = [] \<or> hint = va_Name v"
      "sc = \<lparr>ps_AgentID = se_AgentID sess, ps_UserID = se_UserID sess, ps_VaultID = va_ID v,
             ps_VaultName = va_Name v, ps_VaultRole = se_VaultRole sess\<rparr>"
    | (hinted) v role where "se_VaultID sess = []" "se_AgentID sess \<noteq> []" "hint \<noteq> []" "GetVault (view d) hint = Some v"
      "GetVaultRole (view d) (se_AgentID sess) (va_ID v) = Some role"
      "sc = \<lparr>ps_AgentID = se_AgentID sess, ps_UserID = [], ps_VaultID = va_ID v, ps_VaultName = va_Name v, ps_VaultRole = role\<rparr>"
    | (single) g where "se_VaultID sess = []" "se_AgentID sess \<noteq> []" "hint = []"
      "ListActorGrants (view d) (se_AgentID sess) = Some [g]"
      "sc = \<lparr>ps_AgentID = se_AgentID sess, ps_UserID = [], ps_VaultID = gr_VaultID g, ps_VaultName = gr_VaultName g, ps_VaultRole = gr_Role g\<rparr>"
    using r sess by (auto simp: ResolveForProxy_def split: if_splits option.splits list.splits)
  then show ?thesis
  proof cases
    case scoped
    with sess vault_by_id [OF inv scoped(2)] show ?thesis by auto
  next
    case hinted
    with sess vault_by_name [OF inv hinted(4)] show ?thesis by auto
  next
    case single
    with sess grants_are_roles [OF inv single(4), of g] show ?thesis by auto
  qed
qed

end

section \<open>Identity kinds\<close>

definition KindPodToken :: string where "KindPodToken = ''pod-token''"
definition KindTokenReview :: string where "KindTokenReview = ''token-review''"
definition KindProxyAttested :: string where "KindProxyAttested = ''proxy-attested''"

definition defaultKinds :: "string list" where
  "defaultKinds = [[], KindPodToken, KindTokenReview]"

text \<open>A connection's own kinds, when its listener was opened for them.\<close>

definition ConnKinds :: "string list option \<Rightarrow> string list" where
  "ConnKinds tagged = (case tagged of Some kinds \<Rightarrow> kinds | None \<Rightarrow> defaultKinds)"

definition KindAdmitted :: "string list \<Rightarrow> string \<Rightarrow> bool" where
  "KindAdmitted kinds kind \<longleftrightarrow> kind \<in> set kinds"

record key_denial =
  kd_Kid :: string
  kd_KidSHA256 :: string
  kd_Peer :: string

text \<open>A refusal is \<open>ErrInvalidSession\<close> to every caller; its reason and key reach the log only.\<close>

datatype broker_failure = Sentinel broker_error | DeniedError string "key_denial option"

definition is_error :: "broker_failure \<Rightarrow> broker_error \<Rightarrow> bool" where
  "is_error e target = (case e of Sentinel s \<Rightarrow> s = target | DeniedError r k \<Rightarrow> target = ErrInvalidSession)"

definition Denied :: "string \<Rightarrow> broker_failure" where
  "Denied reason = DeniedError reason None"

definition plainKid :: "string \<Rightarrow> bool" where
  "plainKid s \<longleftrightarrow> 1 \<le> length s \<and> length s \<le> 128 \<and> list_all (\<lambda>c. is_alnum c \<or> c \<in> set ''._-'') s"

text \<open>\<open>sha\<close> is the SHA-256 of a string in hexadecimal.\<close>

definition DeniedKey :: "(string \<Rightarrow> string) \<Rightarrow> string \<Rightarrow> string \<Rightarrow> broker_failure" where
  "DeniedKey sha reason kid =
     DeniedError reason (Some (if plainKid kid then \<lparr>kd_Kid = kid, kd_KidSHA256 = [], kd_Peer = []\<rparr>
       else \<lparr>kd_Kid = ''invalid'', kd_KidSHA256 = take 12 (sha kid), kd_Peer = []\<rparr>))"

definition WithPeer :: "broker_failure \<Rightarrow> ip option \<Rightarrow> broker_failure" where
  "WithPeer e peer =
     (case (e, peer) of
        (DeniedError r (Some k), Some a) \<Rightarrow> DeniedError r (Some (k\<lparr>kd_Peer := ip_string (unmap a)\<rparr>))
      | _ \<Rightarrow> e)"

definition DenialKey :: "broker_failure \<Rightarrow> key_denial option" where
  "DenialKey e = (case e of DeniedError r k \<Rightarrow> k | Sentinel _ \<Rightarrow> None)"

definition DenialReason :: "broker_failure \<Rightarrow> string" where
  "DenialReason e = (case e of DeniedError r k \<Rightarrow> r | Sentinel _ \<Rightarrow> [])"

section \<open>PROXY protocol, version 1\<close>

definition port_field :: "string \<Rightarrow> bool" where
  "port_field p = (case atoi p of None \<Rightarrow> False | Some n \<Rightarrow> \<not> (n < 1 \<or> n > 65535 \<or> itoa n \<noteq> p))"

text \<open>
  \<open>netip.ParseAddr\<close> accepts an IPv6 address with a non-empty zone, which \<open>ParseAddr\<close> here does not
  return: the code refuses a zone in the source address, and accepts one in the destination.
\<close>

definition dest_addr_ok :: "string \<Rightarrow> bool" where
  "dest_addr_ok s \<longleftrightarrow> ParseAddr s \<noteq> None
     \<or> (case index_byte (CHR ''%'') s of
          None \<Rightarrow> False
        | Some i \<Rightarrow> drop (i + 1) s \<noteq> [] \<and> (case ParseAddr (take i s) of Some (V6 _) \<Rightarrow> True | _ \<Rightarrow> False))"

definition parseProxyV1 :: "string \<Rightarrow> ip option" where
  "parseProxyV1 line =
     (case split_on (CHR '' '') line of
        [a, fam, source, dst, p1, p2] \<Rightarrow>
          if a \<noteq> ''PROXY'' \<or> fam \<noteq> ''TCP4'' \<and> fam \<noteq> ''TCP6'' then None
          else
            (case ParseAddr source of
               None \<Rightarrow> None
             | Some addr \<Rightarrow>
                 if (fam = ''TCP4'') \<noteq> (case addr of V4 _ \<Rightarrow> True | V6 _ \<Rightarrow> False) then None
                 else if \<not> dest_addr_ok dst then None
                 else if \<not> port_field p1 \<or> \<not> port_field p2 then None
                 else Some addr)
      | _ \<Rightarrow> None)"

text \<open>
  The read loop over the bytes of the connection: the line read so far and what is left. The result
  is the address and the bytes not consumed.
\<close>

fun read_proxy :: "string \<Rightarrow> string \<Rightarrow> (ip \<times> string) option" where
  "read_proxy line [] = None"
| "read_proxy line (c # input) =
     (if length line \<ge> 107 then None
      else
        (let line = line @ [c]; n = length line in
         if n \<le> 6 \<and> line ! (n - 1) \<noteq> ''PROXY '' ! (n - 1) then None
         else if n \<ge> 2 \<and> line ! (n - 2) = char_of (13 :: nat) \<and> line ! (n - 1) = char_of (10 :: nat)
         then map_option (\<lambda>a. (a, input)) (parseProxyV1 (take (n - 2) line))
         else read_proxy line input))"

definition ReadProxyV1 :: "bool \<Rightarrow> string \<Rightarrow> (ip \<times> string) option" where
  "ReadProxyV1 loopback input = (if \<not> loopback then None else read_proxy [] input)"

section \<open>The Basic form carries a token and a vault\<close>

lemma TrimSpace_plain:
  assumes "list_all (\<lambda>c. 33 \<le> byte_of c \<and> byte_of c \<le> 122) s"
  shows "TrimSpace s = s"
proof -
  have "ascii s" using assms by (auto simp: ascii_def list_all_iff)
  then have rc: "rune_chunks s = map (\<lambda>c. (byte_of c, [c])) s" by (rule rune_chunks_ascii)
  have ns: "\<not> rune_is_space (fst p)" if "p \<in> set (rune_chunks s)" for p
    using assms that by (auto simp: rc list_all_iff rune_is_space_def)
  have "dropWhile (\<lambda>c. rune_is_space (fst c)) xs = xs" if "set xs \<subseteq> set (rune_chunks s)" for xs
    using ns that by (cases xs) auto
  then have "TrimSpace s = concat (map snd (rune_chunks s))" by (simp add: TrimSpace_def Let_def)
  then show ?thesis by (simp add: rune_chunks_concat)
qed

text \<open>
  Claim C33. The proxy URL form \<open>token:vault@host\<close> reaches the resolver unchanged: the Basic credentials
  of a token without a colon and a vault name parse to that token and that vault, an empty vault
  included.
\<close>

theorem proxy_auth_roundtrip:
  assumes "tok \<noteq> []" and "CHR '':'' \<notin> set tok"
  shows "ParseProxyAuth (''Basic '' @ b64_encode (tok @ '':'' @ hint)) = Inr (tok, hint)"
proof -
  let ?e = "b64_encode (tok @ '':'' @ hint)"
  have "index_byte (CHR '' '') (''Basic '' @ ?e) = Some 5" by simp
  moreover have "take 5 (''Basic '' @ ?e) = ''Basic''" "drop 6 (''Basic '' @ ?e) = ?e" by simp_all
  moreover have "?e \<noteq> []"
  proof
    assume "?e = []"
    then have "b64_decode ?e = Some []" by (simp add: b64_decode_def)
    then show False by simp
  qed
  moreover have "TrimSpace ?e = ?e" by (rule TrimSpace_plain [OF b64_encode_plain])
  moreover have "lower_is ''Basic'' ''basic''" "\<not> lower_is ''Basic'' ''bearer''" by code_simp+
  moreover have "index_byte (CHR '':'') (tok @ '':'' @ hint) = Some (length tok)"
    using index_byte_append [OF assms(2), of hint] by simp
  ultimately show ?thesis using assms(1) by (simp add: ParseProxyAuth_def Let_def)
qed

theorem proxy_auth_roundtrip_witness:
  "ParseProxyAuth (''Basic '' @ b64_encode ''av_agt_1:prod'') = Inr (''av_agt_1'', ''prod'')"
  using proxy_auth_roundtrip [of "''av_agt_1''" "''prod''"] by simp

section \<open>Exactly one PROXY header\<close>

definition crlf_bytes :: string where "crlf_bytes = [char_of (13 :: nat), char_of (10 :: nat)]"

text \<open>A line in which the reader sees no end of line too early.\<close>

definition no_line_end :: "string \<Rightarrow> bool" where
  "no_line_end l \<longleftrightarrow>
     list_all (\<lambda>i. \<not> (l ! i = char_of (13 :: nat) \<and> l ! Suc i = char_of (10 :: nat))) [0..<length l - 1]"

lemma read_proxy_sound:
  "read_proxy acc input = Some (a, rest)
   \<Longrightarrow> \<exists>l. acc @ input = l @ crlf_bytes @ rest \<and> parseProxyV1 l = Some a \<and> length l \<le> 105"
proof (induction acc input rule: read_proxy.induct)
  case (2 acc c input)
  let ?line = "acc @ [c]"
  from "2.prems" have len: "length acc < 107" by (auto split: if_splits)
  show ?case
  proof (cases "length ?line \<ge> 2 \<and> ?line ! (length ?line - 2) = char_of (13 :: nat) \<and> ?line ! (length ?line - 1) = char_of (10 :: nat)")
    case True
    with "2.prems" have r: "parseProxyV1 (take (length ?line - 2) ?line) = Some a" "rest = input"
      by (auto simp: Let_def split: if_splits)
    obtain p b where acc: "acc = p @ [b]" using True by (cases acc rule: rev_cases) auto
    with True have "b = char_of (13 :: nat)" "c = char_of (10 :: nat)"
      by (auto simp: nth_append)
    with acc r len show ?thesis by (auto simp: crlf_bytes_def)
  next
    case False
    with "2.prems" have "read_proxy ?line input = Some (a, rest)" by (auto simp: Let_def split: if_splits)
    with "2.IH" [of ?line "length ?line"] "2.prems" False show ?thesis by (auto simp: Let_def split: if_splits)
  qed
qed simp

lemma read_step:
  assumes "length p < 107" and "length p < 6 \<Longrightarrow> c = ''PROXY '' ! length p"
    and "\<not> (p \<noteq> [] \<and> last p = char_of (13 :: nat) \<and> c = char_of (10 :: nat))"
  shows "read_proxy p (c # input) = read_proxy (p @ [c]) input"
proof -
  have "\<not> (length (p @ [c]) \<le> 6 \<and> (p @ [c]) ! (length (p @ [c]) - 1) \<noteq> ''PROXY '' ! (length (p @ [c]) - 1))"
    using assms(2) by auto
  moreover have "\<not> (length (p @ [c]) \<ge> 2 \<and> (p @ [c]) ! (length (p @ [c]) - 2) = char_of (13 :: nat)
      \<and> (p @ [c]) ! (length (p @ [c]) - 1) = char_of (10 :: nat))"
    using assms(3) by (cases p rule: rev_cases) (auto simp: nth_append)
  ultimately show ?thesis using assms(1) by (simp only: read_proxy.simps Let_def) simp
qed

lemma read_end:
  assumes "length p \<le> 105" and "length p \<ge> 6"
  shows "read_proxy p (crlf_bytes @ rest) = map_option (\<lambda>a. (a, rest)) (parseProxyV1 p)"
proof -
  have ne: "char_of (13 :: nat) \<noteq> (char_of (10 :: nat) :: char)" by simp
  have "read_proxy p (crlf_bytes @ rest) = read_proxy (p @ [char_of (13 :: nat)]) (char_of (10 :: nat) # rest)"
    unfolding crlf_bytes_def append.simps by (rule read_step) (use assms ne in auto)
  also have "\<dots> = map_option (\<lambda>a. (a, rest)) (parseProxyV1 p)"
    using assms by (simp add: nth_append)
  finally show ?thesis .
qed

lemma prefix_nth: "p @ c # q = u @ t \<Longrightarrow> length p < length u \<Longrightarrow> c = u ! length p"
  by (metis nth_append nth_append_length)

lemma read_proxy_complete:
  assumes "length (p @ q) \<le> 105" and "HasPrefix (p @ q) ''PROXY ''" and "no_line_end (p @ q)"
  shows "read_proxy p (q @ crlf_bytes @ rest) = map_option (\<lambda>a. (a, rest)) (parseProxyV1 (p @ q))"
  using assms
proof (induction q arbitrary: p)
  case Nil
  then have "length p \<ge> 6" by (auto simp: HasPrefix_iff)
  with Nil read_end [of p rest] show ?case by simp
next
  case (Cons c q)
  obtain t where t: "p @ c # q = ''PROXY '' @ t" using Cons.prems(2) by (auto simp: HasPrefix_iff)
  have "c = ''PROXY '' ! length p" if "length p < 6"
    using prefix_nth [OF t] that by simp
  moreover have "\<not> (p \<noteq> [] \<and> last p = char_of (13 :: nat) \<and> c = char_of (10 :: nat))"
  proof
    assume b: "p \<noteq> [] \<and> last p = char_of (13 :: nat) \<and> c = char_of (10 :: nat)"
    then obtain k where k: "length p = Suc k" by (cases p) auto
    then have "(p @ c # q) ! k = last p" using b last_conv_nth [of p] by (simp add: nth_append)
    moreover have "(p @ c # q) ! Suc k = c" using k by (simp add: nth_append)
    moreover have "k \<in> set [0..<length (p @ c # q) - 1]" using k by simp
    ultimately show False using Cons.prems(3) b unfolding no_line_end_def list_all_iff by metis
  qed
  ultimately have "read_proxy p (c # (q @ crlf_bytes @ rest)) = read_proxy (p @ [c]) (q @ crlf_bytes @ rest)"
    using Cons.prems(1) by (intro read_step) auto
  with Cons.IH [of "p @ [c]"] Cons.prems show ?case by simp
qed

text \<open>The first field of a parsed line is the signature.\<close>

lemma parseProxyV1_signature: "parseProxyV1 l = Some a \<Longrightarrow> HasPrefix l ''PROXY ''"
proof -
  assume "parseProxyV1 l = Some a"
  then obtain x xs where sp: "split_on (CHR '' '') l = ''PROXY'' # x # xs"
    by (auto simp: parseProxyV1_def split: list.splits if_splits option.splits)
  show ?thesis
  proof (cases "CHR '' '' \<in> set l")
    case True
    then obtain u v where uv: "l = u @ CHR '' '' # v" "CHR '' '' \<notin> set u" by (metis split_list_first)
    with sp have "u = ''PROXY''" by (simp add: split_on_append)
    with uv show ?thesis by (auto simp: HasPrefix_iff)
  next
    case False
    with sp show ?thesis by (simp add: split_on_no_sep)
  qed
qed

text \<open>
  \<open>ReadProxyV1\<close> reads exactly one PROXY header: from a loopback peer it accepts just the inputs
  that start with a well-formed line of at most 105 bytes and its CRLF, and it leaves every byte after
  the CRLF to the client's protocol.
\<close>

theorem proxy_header_exact:
  "(ReadProxyV1 loopback input = Some (a, rest)
      \<longrightarrow> loopback \<and> (\<exists>l. input = l @ crlf_bytes @ rest \<and> parseProxyV1 l = Some a \<and> length l \<le> 105))
   \<and> (parseProxyV1 l = Some a \<and> length l \<le> 105 \<and> no_line_end l
      \<longrightarrow> ReadProxyV1 True (l @ crlf_bytes @ rest) = Some (a, rest))"
  using read_proxy_sound [of "[]" input a rest] read_proxy_complete [of "[]" l rest] parseProxyV1_signature [of l a]
  by (auto simp: ReadProxyV1_def split: if_splits)

theorem proxy_header_exact_witness:
  "ReadProxyV1 True (''PROXY TCP4 10.0.0.7 10.0.0.1 5555 443'' @ crlf_bytes @ ''hello'') = Some (V4 167772167, ''hello'')"
proof -
  have "parseProxyV1 ''PROXY TCP4 10.0.0.7 10.0.0.1 5555 443'' = Some (V4 167772167)" by code_simp
  moreover have "no_line_end ''PROXY TCP4 10.0.0.7 10.0.0.1 5555 443''"
    by code_simp
  moreover have "length ''PROXY TCP4 10.0.0.7 10.0.0.1 5555 443'' \<le> 105" by simp
  ultimately show ?thesis by (intro proxy_header_exact [THEN conjunct2, rule_format] conjI)
qed

end
