(* ===== verification/Injection.thy ===== *)
theory Injection
  imports Slugs Sessions
begin

text \<open>
  Credential injection (internal/brokercore/credential.go and the error responses of
  brokercore.go). The stores, the AES-GCM functions under the provider's key, the OAuth token
  endpoint and the decoding of a service list from JSON are functions of the environment
  \<open>cred_env\<close>. Within one call the code memoizes every successful credential lookup and stops at
  the first failing one, so each key has one answer, which is what the environment gives for it.

  A Go error is the list of the sentinel errors in its wrap chain (\<open>errors.Is\<close> is membership):
  wrapping with \<open>%w\<close> keeps the chain, formatting with \<open>%v\<close> drops it.
\<close>

type_synonym go_err = "broker_error list"

definition errors_Is :: "go_err \<Rightarrow> broker_error \<Rightarrow> bool" where
  "errors_Is e target \<longleftrightarrow> target \<in> set e"

section \<open>The environment\<close>

datatype 'a row_result = Row 'a | NoRows | StoreError

record credential =
  cr_Type :: string
  cr_Ciphertext :: string
  cr_Nonce :: string

record oauth_config =
  oc_TokenExpiresAt :: "int option"
  oc_RefreshTokenCT :: string
  oc_RefreshTokenNonce :: string
  oc_ClientSecretCT :: string
  oc_ClientSecretNonce :: string
  oc_TokenURL :: string
  oc_ClientID :: string
  oc_Scopes :: string
  oc_ScopeSeparator :: string
  oc_TokenAuthMethod :: string

record refresh_config =
  rc_TokenURL :: string
  rc_ClientID :: string
  rc_ClientSecret :: string
  rc_RefreshToken :: string
  rc_Scopes :: string
  rc_ScopeSeparator :: string
  rc_TokenAuthMethod :: string

record oauth_token =
  ot_AccessToken :: string
  ot_RefreshToken :: string
  ot_ExpiresAt :: "int option"

datatype oauth_write =
    WroteError string string string
  | WroteTokens string string "string \<times> string" "(string \<times> string) option" "int option"

text \<open>\<open>oauth_Refresh\<close> is the token endpoint; \<open>UpdateTokens\<close> tells whether the store took the write.\<close>

record oauth_env =
  GetCredentialOAuth :: "string \<Rightarrow> string \<Rightarrow> oauth_config option"
  oauth_Refresh :: "refresh_config \<Rightarrow> string + oauth_token"
  UpdateTokens :: "oauth_write \<Rightarrow> bool"
  oauth_now :: int

record cred_env =
  GetBrokerConfig :: "string \<Rightarrow> string row_result"
  unmarshal_services :: "string \<Rightarrow> service list option"
  GetCredential :: "string \<Rightarrow> string \<Rightarrow> credential option"
  GetUnmatchedHostPolicy :: "string \<Rightarrow> string option"
  RequestSecrets :: "(string \<Rightarrow> ((string, string) go_map \<times> bool) option) option"
  Dynamic :: "(string \<Rightarrow> string \<Rightarrow> go_err + string option) option"
  Decrypt :: "string \<Rightarrow> string \<Rightarrow> string option"
  Encrypt :: "string \<Rightarrow> (string \<times> string) option"
  OAuth :: "oauth_env option"

definition PolicyPassthrough :: string where "PolicyPassthrough = ''passthrough''"
definition PolicyDeny :: string where "PolicyDeny = ''deny''"

definition IsValidUnmatchedHostPolicy :: "string \<Rightarrow> bool" where
  "IsValidUnmatchedHostPolicy p \<longleftrightarrow> p = PolicyPassthrough \<or> p = PolicyDeny"

record resolved_substitution =
  rs_Placeholder :: string
  rs_Value :: string
  rs_In :: "string list"

record inject_result =
  ir_Headers :: "(string, string) go_map"
  ir_MatchedName :: string
  ir_MatchedHost :: string
  ir_MatchedPath :: string
  ir_MatchedPort :: "int option"
  ir_FixedQuery :: "(string, string) go_map option"
  ir_CredentialKeys :: "string list"
  ir_Substitutions :: "resolved_substitution list"
  ir_Passthrough :: bool

definition empty_result :: inject_result where
  "empty_result = \<lparr>ir_Headers = [], ir_MatchedName = [], ir_MatchedHost = [], ir_MatchedPath = [],
     ir_MatchedPort = None, ir_FixedQuery = None, ir_CredentialKeys = [], ir_Substitutions = [],
     ir_Passthrough = False\<rparr>"

section \<open>OAuth refresh\<close>

definition oauthRefreshBuffer :: int where "oauthRefreshBuffer = 5 * 60 * 1000000000"

text \<open>The function the refresher runs, with what it writes to the store. Its errors wrap \<open>ErrOAuthRefreshFailed\<close>.\<close>

definition refresh_tokens :: "cred_env \<Rightarrow> oauth_env \<Rightarrow> string \<Rightarrow> string \<Rightarrow> oauth_config
    \<Rightarrow> (go_err + string) \<times> oauth_write list" where
  "refresh_tokens env oe vaultID key cfg =
     (case Decrypt env (oc_RefreshTokenCT cfg) (oc_RefreshTokenNonce cfg) of
        None \<Rightarrow> (Inl [ErrOAuthRefreshFailed], [])
      | Some refreshToken \<Rightarrow>
          (case (if oc_ClientSecretCT cfg \<noteq> [] then Decrypt env (oc_ClientSecretCT cfg) (oc_ClientSecretNonce cfg)
                 else Some []) of
             None \<Rightarrow> (Inl [ErrOAuthRefreshFailed], [])
           | Some clientSecret \<Rightarrow>
               (case oauth_Refresh oe \<lparr>rc_TokenURL = oc_TokenURL cfg, rc_ClientID = oc_ClientID cfg,
                        rc_ClientSecret = clientSecret, rc_RefreshToken = refreshToken, rc_Scopes = oc_Scopes cfg,
                        rc_ScopeSeparator = oc_ScopeSeparator cfg, rc_TokenAuthMethod = oc_TokenAuthMethod cfg\<rparr> of
                  Inl msg \<Rightarrow> (Inl [ErrOAuthRefreshFailed], [WroteError vaultID key msg])
                | Inr tok \<Rightarrow>
                    (case Encrypt env (ot_AccessToken tok) of
                       None \<Rightarrow> (Inl [ErrOAuthRefreshFailed], [])
                     | Some access \<Rightarrow>
                         (case (if ot_RefreshToken tok \<noteq> [] then map_option Some (Encrypt env (ot_RefreshToken tok))
                                else Some None) of
                            None \<Rightarrow> (Inl [ErrOAuthRefreshFailed], [])
                          | Some newRefresh \<Rightarrow>
                              (let w = WroteTokens vaultID key access newRefresh (ot_ExpiresAt tok) in
                               if UpdateTokens oe w then (Inr (ot_AccessToken tok), [w])
                               else (Inl [ErrOAuthRefreshFailed], [])))))))"

definition maybeRefreshOAuth :: "cred_env \<Rightarrow> oauth_env \<Rightarrow> string \<Rightarrow> string \<Rightarrow> string
    \<Rightarrow> (go_err + string) \<times> oauth_write list" where
  "maybeRefreshOAuth env oe vaultID key currentToken =
     (case GetCredentialOAuth oe vaultID key of
        None \<Rightarrow> (Inr currentToken, [])
      | Some cfg \<Rightarrow>
          (case oc_TokenExpiresAt cfg of
             None \<Rightarrow> (Inr currentToken, [])
           | Some t \<Rightarrow>
               if t - oauth_now oe > oauthRefreshBuffer then (Inr currentToken, [])
               else if oc_RefreshTokenCT cfg = [] then (Inr currentToken, [])
               else refresh_tokens env oe vaultID key cfg))"

section \<open>One credential\<close>

text \<open>
  The closure \<open>getCredential\<close>. \<open>fresh\<close> holds the request-time values and whether they are the only
  ones allowed. An error with no sentinel in its chain is \<open>[]\<close>.
\<close>

definition getCredential :: "cred_env \<Rightarrow> string \<Rightarrow> (string, string) go_map \<times> bool \<Rightarrow> string
    \<Rightarrow> (go_err + string) \<times> oauth_write list" where
  "getCredential env vaultID fresh key =
     (if snd fresh then
        (case map_of (fst fresh) key of
           None \<Rightarrow> (Inl [ErrCredentialMissing], [])
         | Some v \<Rightarrow> if v = [] then (Inl [ErrCredentialMissing], []) else (Inr v, []))
      else
        (case GetCredential env vaultID key of
           None \<Rightarrow>
             (case Dynamic env of
                None \<Rightarrow> (Inl [], [])
              | Some resolve \<Rightarrow>
                  (case resolve vaultID key of
                     Inl derr \<Rightarrow> (Inl derr, [])
                   | Inr None \<Rightarrow> (Inl [], [])
                   | Inr (Some val) \<Rightarrow> (Inr val, [])))
         | Some cred \<Rightarrow>
             (case Decrypt env (cr_Ciphertext cred) (cr_Nonce cred) of
                None \<Rightarrow> (Inl [], [])
              | Some s \<Rightarrow>
                  if cr_Type cred = ''oauth'' \<and> s = [] then (Inl [ErrOAuthNotConnected], [])
                  else if cr_Type cred = ''oauth'' then
                    (case OAuth env of None \<Rightarrow> (Inr s, []) | Some oe \<Rightarrow> maybeRefreshOAuth env oe vaultID key s)
                  else (Inr s, []))))"

fun resolve_subs :: "(string \<Rightarrow> go_err + string) \<Rightarrow> substitution list \<Rightarrow> go_err + resolved_substitution list" where
  "resolve_subs get [] = Inr []"
| "resolve_subs get (sub # subs) =
     (case get (sub_key sub) of
        Inl e \<Rightarrow> Inl e
      | Inr val \<Rightarrow>
          (case resolve_subs get subs of
             Inl e \<Rightarrow> Inl e
           | Inr rs \<Rightarrow> Inr (\<lparr>rs_Placeholder = sub_placeholder sub, rs_Value = val, rs_In = NormalizedIn sub\<rparr> # rs)))"

section \<open>\<open>Inject\<close>\<close>

text \<open>The services of the vault as the matcher sees them: inline hosts split, unnamed entries named.\<close>

definition prepare_services :: "service list \<Rightarrow> service list" where
  "prepare_services services = AssignSlugNames (map (\<lambda>s.
     case SplitInlineHost (svc_host s) (svc_path s) of
       (host, path, port) \<Rightarrow> s\<lparr>svc_host := host, svc_path := path, svc_port := port\<rparr>) services)"

definition load_services :: "cred_env \<Rightarrow> string \<Rightarrow> go_err + service list" where
  "load_services env vaultID =
     (case GetBrokerConfig env vaultID of
        StoreError \<Rightarrow> Inl [ErrServiceNotFound]
      | NoRows \<Rightarrow> Inr (prepare_services [])
      | Row json \<Rightarrow>
          if json = [] then Inr (prepare_services [])
          else (case unmarshal_services env json of None \<Rightarrow> Inl [] | Some services \<Rightarrow> Inr (prepare_services services)))"

definition matched_result :: "service \<Rightarrow> inject_result" where
  "matched_result m = empty_result\<lparr>ir_MatchedName := svc_name m, ir_MatchedHost := svc_host m,
     ir_MatchedPath := svc_path m, ir_MatchedPort := svc_port m, ir_FixedQuery := svc_fixed_query m,
     ir_CredentialKeys := svc_CredentialKeys m\<rparr>"

text \<open>
  The resolution of a matched, enabled service. Substitutions come first; their values are attached to
  the result only when everything resolved.
\<close>

definition resolve_matched :: "service \<Rightarrow> (string \<Rightarrow> go_err + string) \<Rightarrow> inject_result option \<times> go_err go_error" where
  "resolve_matched m get =
     (let result = matched_result m in
      case resolve_subs get (svc_substitutions m) of
        Inl e \<Rightarrow> (Some result, Some [ErrCredentialMissing])
      | Inr subs \<Rightarrow>
          if auth_type (svc_auth m) = ''passthrough''
          then (Some (result\<lparr>ir_Substitutions := subs\<rparr>), None)
          else
            (case auth_Resolve (svc_auth m) get of
               Inl e \<Rightarrow> (Some result, Some [ErrCredentialMissing])
             | Inr headers \<Rightarrow> (Some (result\<lparr>ir_Headers := headers, ir_Substitutions := subs\<rparr>), None)))"

definition inject_matched :: "cred_env \<Rightarrow> string \<Rightarrow> service \<Rightarrow> inject_result option \<times> go_err go_error" where
  "inject_matched env vaultID m =
     (case (case RequestSecrets env of None \<Rightarrow> Some ([], False) | Some read \<Rightarrow> read vaultID) of
        None \<Rightarrow> (Some (matched_result m), Some [ErrCredentialMissing])
      | Some fresh \<Rightarrow> resolve_matched m (\<lambda>key. fst (getCredential env vaultID fresh key)))"

definition match_host :: "string \<Rightarrow> string" where
  "match_host targetHost = (case SplitHostPort targetHost of Some (h, p) \<Rightarrow> h | None \<Rightarrow> targetHost)"

definition Inject :: "cred_env \<Rightarrow> string \<Rightarrow> string \<Rightarrow> int \<Rightarrow> string \<Rightarrow> inject_result option \<times> go_err go_error" where
  "Inject env vaultID targetHost targetPort targetPath =
     (case load_services env vaultID of
        Inl e \<Rightarrow> (None, Some e)
      | Inr services \<Rightarrow>
          if ValidateFixedQueryBindings services \<noteq> None then (None, Some [ErrServiceNotFound])
          else
            (case MatchService (match_host targetHost) targetPort (if targetPath = [] then ''/'' else targetPath)
                    services of
               None \<Rightarrow>
                 (case GetUnmatchedHostPolicy env vaultID of
                    None \<Rightarrow> (None, Some [ErrServiceNotFound])
                  | Some policy \<Rightarrow>
                      if policy = PolicyDeny then (None, Some [ErrServiceNotFound])
                      else (Some (empty_result\<lparr>ir_Passthrough := True\<rparr>), None))
             | Some (m, score) \<Rightarrow>
                 if ValidateFixedQuery m \<noteq> None then (None, Some [ErrServiceNotFound])
                 else if \<not> IsEnabled m then (None, Some [ErrServiceDisabled])
                 else inject_matched env vaultID m))"

section \<open>Error responses\<close>

text \<open>A JSON body; \<open>quote\<close> is the quoting of a string by \<open>%q\<close>.\<close>

datatype json_value = JStr string | JList "string list" | JObj "(string, json_value) go_map"

record proxy_response =
  pr_status :: int
  pr_headers :: "(string, string) go_map"
  pr_body :: "(string, json_value) go_map"

definition ProxyErrorHeader :: string where "ProxyErrorHeader = ''X-Agent-Vault-Proxy-Error''"

definition error_headers :: "(string, string) go_map" where
  "error_headers = [(''Content-Type'', ''application/json''), (ProxyErrorHeader, ''true'')]"

definition helpLinks :: "string \<Rightarrow> string" where
  "helpLinks baseURL = ''To see available services, GET '' @ baseURL
     @ ''/discover. For usage instructions including how to create a proposal, GET '' @ baseURL @ ''/v1/skills/cli''"

definition ForbiddenHintBody :: "(string \<Rightarrow> string) \<Rightarrow> string \<Rightarrow> string \<Rightarrow> string \<Rightarrow> (string, json_value) go_map" where
  "ForbiddenHintBody quote targetHost vaultName baseURL =
     [(''error'', JStr ''forbidden''),
      (''message'', JStr (''No broker service matching host '' @ quote targetHost @ '' in vault '' @ quote vaultName)),
      (''proposal_hint'', JObj [(''host'', JStr targetHost), (''endpoint'', JStr ''POST /v1/proposals''),
         (''supported_auth_types'', JList SupportedAuthTypes)])]
     @ (if baseURL \<noteq> [] then [(''help'', JStr (''This request was intercepted by Agent Vault. '' @ helpLinks baseURL))] else [])"

definition WriteProxyError :: "int \<Rightarrow> string \<Rightarrow> string \<Rightarrow> proxy_response" where
  "WriteProxyError status code message =
     \<lparr>pr_status = status, pr_headers = error_headers, pr_body = [(''error'', JStr code), (''message'', JStr message)]\<rparr>"

definition writeProxyErrorWithHelp :: "int \<Rightarrow> string \<Rightarrow> string \<Rightarrow> string \<Rightarrow> proxy_response" where
  "writeProxyErrorWithHelp status code message baseURL =
     \<lparr>pr_status = status, pr_headers = error_headers,
      pr_body = [(''error'', JStr code), (''message'', JStr message)]
        @ (if baseURL \<noteq> [] then [(''help'', JStr (helpLinks baseURL))] else [])\<rparr>"

definition WriteForbiddenHint :: "(string \<Rightarrow> string) \<Rightarrow> string \<Rightarrow> string \<Rightarrow> string \<Rightarrow> proxy_response" where
  "WriteForbiddenHint quote targetHost vaultName baseURL =
     \<lparr>pr_status = 403, pr_headers = error_headers, pr_body = ForbiddenHintBody quote targetHost vaultName baseURL\<rparr>"

text \<open>The dash of two messages is U+2014, three bytes in UTF-8.\<close>

definition em_dash :: string where "em_dash = map char_of [226, 128, 148 :: nat]"

definition WriteInjectError :: "(string \<Rightarrow> string) \<Rightarrow> go_err \<Rightarrow> string \<Rightarrow> string \<Rightarrow> string \<Rightarrow> proxy_response" where
  "WriteInjectError quote err targetHost vaultName baseURL =
     (if errors_Is err ErrServiceNotFound then WriteForbiddenHint quote targetHost vaultName baseURL
      else if errors_Is err ErrServiceDisabled then
        writeProxyErrorWithHelp 403 ''service_disabled''
          (''Broker service matching host '' @ quote targetHost @ '' in vault '' @ quote vaultName @ '' is currently disabled'') baseURL
      else if errors_Is err ErrOAuthNotConnected then
        writeProxyErrorWithHelp 502 ''oauth_not_connected''
          (''OAuth credential is approved but not yet connected '' @ em_dash @ '' complete the connection in the Agent Vault dashboard'') baseURL
      else if errors_Is err ErrOAuthRefreshFailed then
        writeProxyErrorWithHelp 502 ''oauth_refresh_failed''
          (''OAuth token expired and refresh failed '' @ em_dash @ '' reconnect in the Agent Vault dashboard'') baseURL
      else if errors_Is err ErrCredentialMissing then
        writeProxyErrorWithHelp 502 ''credential_not_found''
          ''A required credential could not be resolved; check vault configuration'' baseURL
      else WriteProxyError 500 ''internal'' ''Failed to resolve broker services'')"

section \<open>Lemmas\<close>

lemma resolve_subs_cong:
  "(\<And>k. k \<in> sub_key ` set subs \<Longrightarrow> g k = g' k) \<Longrightarrow> resolve_subs g subs = resolve_subs g' subs"
  by (induction subs) (auto split: sum.splits)

lemma svc_keys:
  "set (svc_CredentialKeys m) = set (auth_CredentialKeys (svc_auth m)) \<union> sub_key ` set (svc_substitutions m)"
  by (simp add: set_svc_CredentialKeys)

lemma getCredential_cong:
  assumes "GetCredential env v k = g v k"
  shows "getCredential (env\<lparr>GetCredential := g\<rparr>) v fresh k = getCredential env v fresh k"
  using assms
  by (simp add: getCredential_def maybeRefreshOAuth_def refresh_tokens_def split: option.split sum.split)

lemma resolve_matched_cong:
  assumes "\<And>k. k \<in> set (svc_CredentialKeys m) \<Longrightarrow> g k = g' k"
  shows "resolve_matched m g = resolve_matched m g'"
proof -
  have "resolve_subs g (svc_substitutions m) = resolve_subs g' (svc_substitutions m)"
    by (rule resolve_subs_cong) (simp add: assms svc_keys)
  moreover have "auth_Resolve (svc_auth m) g = auth_Resolve (svc_auth m) g'"
    by (rule auth_Resolve_cong) (simp add: assms svc_keys)
  ultimately show ?thesis by (simp add: resolve_matched_def Let_def split: sum.split)
qed

lemma inject_matched_cong:
  assumes "\<And>k. k \<in> set (svc_CredentialKeys m) \<Longrightarrow> GetCredential env v k = g v k"
  shows "inject_matched (env\<lparr>GetCredential := g\<rparr>) v m = inject_matched env v m"
proof -
  have "resolve_matched m (\<lambda>k. fst (getCredential (env\<lparr>GetCredential := g\<rparr>) v fresh k))
      = resolve_matched m (\<lambda>k. fst (getCredential env v fresh k))" for fresh
    by (rule resolve_matched_cong) (simp add: assms getCredential_cong)
  then show ?thesis by (simp add: inject_matched_def split: option.split)
qed

lemma inject_matched_result:
  assumes "inject_matched env v m = (r, e)"
  shows "\<exists>res. r = Some res \<and> ir_CredentialKeys res = svc_CredentialKeys m \<and> ir_MatchedName res = svc_name m
    \<and> ir_MatchedHost res = svc_host m \<and> \<not> ir_Passthrough res
    \<and> (e = None \<or> e = Some [ErrCredentialMissing] \<and> ir_Headers res = [] \<and> ir_Substitutions res = [])"
  using assms
  by (auto simp: inject_matched_def resolve_matched_def matched_result_def empty_result_def Let_def
        split: option.splits sum.splits if_splits)

text \<open>The ways \<open>Inject\<close> can end.\<close>

lemma Inject_cases:
  assumes "Inject env v host port path = (r, e)"
  obtains (refused) err where "r = None" "e = Some err" "set err \<subseteq> {ErrServiceNotFound, ErrServiceDisabled}"
  | (unmatched) services policy where "r = Some (empty_result\<lparr>ir_Passthrough := True\<rparr>)" "e = None"
      "load_services env v = Inr services"
      "MatchService (match_host host) port (if path = [] then ''/'' else path) services = None"
      "GetUnmatchedHostPolicy env v = Some policy" "policy \<noteq> PolicyDeny"
  | (matched) services m score where "load_services env v = Inr services"
      "ValidateFixedQueryBindings services = None"
      "MatchService (match_host host) port (if path = [] then ''/'' else path) services = Some (m, score)"
      "IsEnabled m" "ValidateFixedQuery m = None" "inject_matched env v m = (r, e)"
proof -
  have load: "load_services env v = Inl err \<Longrightarrow> set err \<subseteq> {ErrServiceNotFound, ErrServiceDisabled}" for err
    by (auto simp: load_services_def split: row_result.splits option.splits if_splits)
  show thesis
  proof (cases "load_services env v")
    case (Inl err)
    with assms load show thesis by (intro refused [of err]) (auto simp: Inject_def)
  next
    case (Inr services)
    note ld = this
    show thesis
    proof (cases "ValidateFixedQueryBindings services = None")
      case False
      with assms ld show thesis by (intro refused [of "[ErrServiceNotFound]"]) (auto simp: Inject_def)
    next
      case bind: True
      let ?m = "MatchService (match_host host) port (if path = [] then ''/'' else path) services"
      show thesis
      proof (cases ?m)
        case None
        show thesis
        proof (cases "GetUnmatchedHostPolicy env v")
          case pol: None
          with assms ld bind None show thesis
            by (intro refused [of "[ErrServiceNotFound]"]) (simp_all add: Inject_def)
        next
          case pol: (Some p)
          show thesis
          proof (cases "p = PolicyDeny")
            case True
            with assms ld bind None pol show thesis
              by (intro refused [of "[ErrServiceNotFound]"]) (simp_all add: Inject_def)
          next
            case False
            with assms ld bind None pol show thesis
              by (intro unmatched [of services p]) (simp_all add: Inject_def)
          qed
        qed
      next
        case (Some ms)
        obtain m score where ms: "ms = (m, score)" by (cases ms)
        consider "ValidateFixedQuery m \<noteq> None" | "ValidateFixedQuery m = None" "\<not> IsEnabled m"
          | "ValidateFixedQuery m = None" "IsEnabled m" by blast
        then show thesis
        proof cases
          case 1
          with assms ld bind Some ms show thesis
            by (intro refused [of "[ErrServiceNotFound]"]) (simp_all add: Inject_def)
        next
          case 2
          with assms ld bind Some ms show thesis
            by (intro refused [of "[ErrServiceDisabled]"]) (simp_all add: Inject_def)
        next
          case 3
          with assms ld bind Some ms show thesis
            by (intro matched [of services m score]) (simp_all add: Inject_def)
        qed
      qed
    qed
  qed
qed

lemma Inject_cong:
  assumes "load_services env' v = load_services env v"
    and "GetUnmatchedHostPolicy env' v = GetUnmatchedHostPolicy env v"
    and "\<And>m. Inject env v host port path = inject_matched env v m \<Longrightarrow> inject_matched env' v m = inject_matched env v m"
  shows "Inject env' v host port path = Inject env v host port path"
proof -
  have m: "(if ValidateFixedQuery m \<noteq> None then (None, Some [ErrServiceNotFound])
      else if \<not> IsEnabled m then (None, Some [ErrServiceDisabled]) else inject_matched env' v m)
    = (if ValidateFixedQuery m \<noteq> None then (None, Some [ErrServiceNotFound])
      else if \<not> IsEnabled m then (None, Some [ErrServiceDisabled]) else inject_matched env v m)"
    if "load_services env v = Inr services" "ValidateFixedQueryBindings services = None"
      "MatchService (match_host host) port (if path = [] then ''/'' else path) services = Some (m, score)"
    for services m score
    using that assms(3) [of m] by (simp add: Inject_def)
  show ?thesis
  proof (cases "load_services env v")
    case (Inl e)
    with assms(1) show ?thesis by (simp add: Inject_def)
  next
    case (Inr services)
    show ?thesis
    proof (cases "MatchService (match_host host) port (if path = [] then ''/'' else path) services")
      case None
      with Inr assms(1,2) show ?thesis by (simp add: Inject_def)
    next
      case (Some ms)
      obtain q score where ms: "ms = (q, score)" by (cases ms)
      show ?thesis
        using Inr assms(1) Some m [OF Inr _ Some [unfolded ms]]
        by (cases "ValidateFixedQueryBindings services = None") (simp_all add: Inject_def ms)
    qed
  qed
qed

lemma load_services_frame [simp]: "load_services (env\<lparr>GetCredential := g\<rparr>) v = load_services env v"
  by (simp add: load_services_def split: row_result.split)

section \<open>Properties\<close>

text \<open>
  Claim C5. A request reads no credential but those of the service it matched, and names them: if the
  result lists the keys \<open>ir_CredentialKeys\<close>, then replacing every other credential of the store, in this
  and in every other vault, changes nothing. When no service matched no credential matters at all.
\<close>

theorem inject_confined:
  assumes "Inject env v host port path = (r, e)"
    and "\<And>k res. r = Some res \<Longrightarrow> k \<in> set (ir_CredentialKeys res) \<Longrightarrow> GetCredential env v k = g v k"
  shows "Inject (env\<lparr>GetCredential := g\<rparr>) v host port path = (r, e)"
  unfolding assms(1) [symmetric]
proof (rule Inject_cong)
  fix m assume m: "Inject env v host port path = inject_matched env v m"
  then obtain res where "r = Some res" "ir_CredentialKeys res = svc_CredentialKeys m"
    using inject_matched_result [of env v m r e] assms(1) by auto
  with assms(2) show "inject_matched (env\<lparr>GetCredential := g\<rparr>) v m = inject_matched env v m"
    by (intro inject_matched_cong) simp
qed simp_all

text \<open>
  Claim C6. Injection fails closed. A request is forwarded without a service only when the services were
  read, none of them matches and the vault's policy was read and does not deny; a success for a service
  is for the best match, which is enabled; and a failing call returns no secret, neither a header nor a
  substituted value.
\<close>

theorem inject_fail_closed:
  assumes "Inject env v host port path = (r, e)"
  shows "(e = None \<longrightarrow> (\<exists>res services. r = Some res \<and> load_services env v = Inr services
      \<and> (case MatchService (match_host host) port (if path = [] then ''/'' else path) services of
           None \<Rightarrow> res = empty_result\<lparr>ir_Passthrough := True\<rparr>
             \<and> (\<exists>p. GetUnmatchedHostPolicy env v = Some p \<and> p \<noteq> PolicyDeny)
         | Some (m, score) \<Rightarrow> IsEnabled m \<and> ValidateFixedQuery m = None \<and> \<not> ir_Passthrough res
             \<and> ir_MatchedName res = svc_name m \<and> ir_CredentialKeys res = svc_CredentialKeys m)))
   \<and> (e \<noteq> None \<longrightarrow> (case r of None \<Rightarrow> True | Some res \<Rightarrow> ir_Headers res = [] \<and> ir_Substitutions res = []))"
  using assms
proof (cases rule: Inject_cases)
  case (matched services m score)
  obtain res where "r = Some res" "ir_CredentialKeys res = svc_CredentialKeys m"
      "ir_MatchedName res = svc_name m" "\<not> ir_Passthrough res"
      "e = None \<or> ir_Headers res = [] \<and> ir_Substitutions res = []"
    using inject_matched_result [OF matched(6)] by blast
  with matched show ?thesis by auto
qed auto

text \<open>
  The two OAuth responses of \<open>WriteInjectError\<close> are never sent: \<open>Inject\<close> formats the error of a
  credential with \<open>%v\<close> under \<open>ErrCredentialMissing\<close>, so \<open>ErrOAuthNotConnected\<close> and
  \<open>ErrOAuthRefreshFailed\<close> are not in the chain of any error it returns, and a credential whose consent or
  refresh failed is answered as a missing one.
\<close>

theorem oauth_errors_masked:
  assumes "Inject env v host port path = (r, Some err)"
  shows "\<not> errors_Is err ErrOAuthNotConnected \<and> \<not> errors_Is err ErrOAuthRefreshFailed
    \<and> map_of (pr_body (WriteInjectError quote err h vn url)) ''error''
        \<in> {Some (JStr ''forbidden''), Some (JStr ''service_disabled''), Some (JStr ''credential_not_found''),
           Some (JStr ''internal'')}"
proof -
  have "set err \<subseteq> {ErrServiceNotFound, ErrServiceDisabled, ErrCredentialMissing}"
    using assms
  proof (cases rule: Inject_cases)
    case (matched services m score)
    with inject_matched_result [OF matched(6)] show ?thesis by auto
  qed auto
  then show ?thesis
    by (auto simp: errors_Is_def WriteInjectError_def WriteForbiddenHint_def ForbiddenHintBody_def
          writeProxyErrorWithHelp_def WriteProxyError_def)
qed

text \<open>A vault with one bearer service, whose credential is an OAuth one that is not connected yet.\<close>

definition oauth_service :: service where
  "oauth_service = (plain_service ''api'' ''api.test'')\<lparr>svc_auth := no_auth\<lparr>auth_type := ''bearer'', auth_token := ''TOKEN''\<rparr>\<rparr>"

definition demo_env :: cred_env where
  "demo_env = \<lparr>GetBrokerConfig = (\<lambda>_. Row ''[]''), unmarshal_services = (\<lambda>_. Some [oauth_service]),
     GetCredential = (\<lambda>v k. if v = ''v1'' \<and> k = ''TOKEN'' then Some \<lparr>cr_Type = ''oauth'', cr_Ciphertext = [], cr_Nonce = []\<rparr> else None),
     GetUnmatchedHostPolicy = (\<lambda>_. Some PolicyDeny), RequestSecrets = None, Dynamic = None,
     Decrypt = (\<lambda>c n. Some c), Encrypt = (\<lambda>p. Some (p, [])), OAuth = None\<rparr>"

definition static_env :: "string \<Rightarrow> cred_env" where
  "static_env tok = demo_env\<lparr>GetCredential := (\<lambda>v k. if v = ''v1'' \<and> k = ''TOKEN''
     then Some \<lparr>cr_Type = ''static'', cr_Ciphertext = tok, cr_Nonce = []\<rparr> else None)\<rparr>"

definition other_creds :: "string \<Rightarrow> string \<Rightarrow> credential option" where
  "other_creds v k = Some \<lparr>cr_Type = ''static'', cr_Ciphertext = (if v = ''v1'' \<and> k = ''TOKEN'' then ''s3'' else ''x''), cr_Nonce = []\<rparr>"

definition demo_result :: inject_result where
  "demo_result = (matched_result oauth_service)\<lparr>ir_Headers := [(''Authorization'', ''Bearer s3'')]\<rparr>"

theorem inject_confined_witness:
  "Inject ((static_env ''s3'')\<lparr>GetCredential := other_creds\<rparr>) ''v1'' ''api.test:443'' 443 ''/x'' = (Some demo_result, None)"
proof (rule inject_confined)
  show "Inject (static_env ''s3'') ''v1'' ''api.test:443'' 443 ''/x'' = (Some demo_result, None)"
    by code_simp
  have "ir_CredentialKeys demo_result = [''TOKEN'']" by code_simp
  then show "GetCredential (static_env ''s3'') ''v1'' k = other_creds ''v1'' k"
    if "Some demo_result = Some res" "k \<in> set (ir_CredentialKeys res)" for k res
    using that by (auto simp: static_env_def other_creds_def)
qed

theorem inject_fail_closed_witness:
  "(\<exists>services. load_services (static_env ''s3'') ''v1'' = Inr services)
   \<and> Inject demo_env ''v1'' ''api.test:443'' 443 ''/x'' = (Some (matched_result oauth_service), Some [ErrCredentialMissing])
   \<and> ir_Headers (matched_result oauth_service) = [] \<and> ir_Substitutions (matched_result oauth_service) = []"
proof -
  have i: "Inject (static_env ''s3'') ''v1'' ''api.test:443'' 443 ''/x'' = (Some demo_result, None)"
    by code_simp
  have j: "Inject demo_env ''v1'' ''api.test:443'' 443 ''/x'' = (Some (matched_result oauth_service), Some [ErrCredentialMissing])"
    by code_simp
  from inject_fail_closed [OF i] have "\<exists>services. load_services (static_env ''s3'') ''v1'' = Inr services"
    by blast
  with j inject_fail_closed [OF j] show ?thesis by simp
qed

theorem oauth_errors_masked_witness:
  "snd (Inject demo_env ''v1'' ''api.test:443'' 443 ''/x'') = Some [ErrCredentialMissing]
   \<and> \<not> errors_Is [ErrCredentialMissing] ErrOAuthNotConnected"
proof -
  have i: "Inject demo_env ''v1'' ''api.test:443'' 443 ''/x'' = (Some (matched_result oauth_service), Some [ErrCredentialMissing])"
    by code_simp
  with oauth_errors_masked [OF i] show ?thesis by simp
qed

end
