(* ===== verification/HttpHeaders.thy ===== *)
theory HttpHeaders
  imports GoStrings
begin

text \<open>
  Request and response headers: \<open>http.Header\<close> as the code uses it, and the part of
  internal/brokercore/brokercore.go that decides which headers cross the broker
  (\<open>ApplyInjection\<close>, \<open>ShouldStripResponseHeader\<close>). A header map is an association list in the
  order in which \<open>range\<close> visits it, so a statement about every list covers every such order.
\<close>

section \<open>Canonical header keys\<close>

definition valid_field_byte :: "char \<Rightarrow> bool" where
  "valid_field_byte c \<longleftrightarrow> is_alnum c \<or> c \<in> set ''!#$%&*+-.^_|~'' \<or> byte_of c = 39 \<or> byte_of c = 96"

fun title_case :: "bool \<Rightarrow> string \<Rightarrow> string" where
  "title_case up [] = []"
| "title_case up (c # s) =
     (let d = (if up \<and> is_lower c then char_of (byte_of c - 32)
               else if \<not> up \<and> is_upper c then char_of (byte_of c + 32) else c)
      in d # title_case (d = CHR ''-'') s)"

definition CanonicalHeaderKey :: "string \<Rightarrow> string" where
  "CanonicalHeaderKey s = (if list_all valid_field_byte s then title_case True s else s)"

lemma byte_of_shift:
  "is_lower c \<Longrightarrow> byte_of (char_of (byte_of c - 32 :: nat) :: char) = byte_of c - 32"
  "is_upper c \<Longrightarrow> byte_of (char_of (byte_of c + 32 :: nat) :: char) = byte_of c + 32"
  by (auto simp: is_lower_def is_upper_def of_char_of take_bit_eq_mod)

lemma title_case_valid: "list_all valid_field_byte s \<Longrightarrow> list_all valid_field_byte (title_case up s)"
proof (induction s arbitrary: up)
  case (Cons c s)
  have "is_lower c \<Longrightarrow> valid_field_byte (char_of (byte_of c - 32 :: nat))"
    "is_upper c \<Longrightarrow> valid_field_byte (char_of (byte_of c + 32 :: nat))"
    by (auto simp: valid_field_byte_def is_alnum_def is_alpha_def is_lower_def [of "char_of _"]
          is_upper_def [of "char_of _"] byte_of_shift) (auto simp: is_lower_def is_upper_def)
  with Cons show ?case by (auto simp: Let_def)
qed simp

lemma title_case_idem: "title_case up (title_case up s) = title_case up s"
proof (induction s arbitrary: up)
  case (Cons c s)
  have "is_lower c \<Longrightarrow> \<not> is_lower (char_of (byte_of c - 32 :: nat))"
    "is_upper c \<Longrightarrow> \<not> is_upper (char_of (byte_of c + 32 :: nat))"
    by (auto simp: is_lower_def [of "char_of _"] is_upper_def [of "char_of _"] byte_of_shift)
       (auto simp: is_lower_def is_upper_def)
  with Cons show ?case by (auto simp: Let_def)
qed simp

lemma canonical_idem [simp]: "CanonicalHeaderKey (CanonicalHeaderKey s) = CanonicalHeaderKey s"
  by (simp add: CanonicalHeaderKey_def title_case_valid title_case_idem)

section \<open>Header maps\<close>

type_synonym http_header = "(string, string list) go_map"

definition hdr_values :: "http_header \<Rightarrow> string \<Rightarrow> string list" where
  "hdr_values h k = (case map_of h (CanonicalHeaderKey k) of None \<Rightarrow> [] | Some vs \<Rightarrow> vs)"

definition hdr_get :: "http_header \<Rightarrow> string \<Rightarrow> string" where
  "hdr_get h k = (case hdr_values h k of [] \<Rightarrow> [] | v # _ \<Rightarrow> v)"

definition hdr_add :: "http_header \<Rightarrow> string \<Rightarrow> string \<Rightarrow> http_header" where
  "hdr_add h k v = map_put (CanonicalHeaderKey k) (hdr_values h k @ [v]) h"

definition hdr_set :: "http_header \<Rightarrow> string \<Rightarrow> string \<Rightarrow> http_header" where
  "hdr_set h k v = map_put (CanonicalHeaderKey k) [v] h"

lemma hdr_values_add:
  "hdr_values (hdr_add h k v) n
     = (if CanonicalHeaderKey n = CanonicalHeaderKey k then hdr_values h n @ [v] else hdr_values h n)"
  by (simp add: hdr_values_def hdr_add_def)

lemma hdr_values_set:
  "hdr_values (hdr_set h k v) n
     = (if CanonicalHeaderKey n = CanonicalHeaderKey k then [v] else hdr_values h n)"
  by (simp add: hdr_values_def hdr_set_def)

section \<open>Which headers cross the broker\<close>

definition HopByHopHeaders :: "string list" where
  "HopByHopHeaders = [''Connection'', ''Keep-Alive'', ''Proxy-Authenticate'', ''Proxy-Authorization'',
     ''Proxy-Connection'', ''Te'', ''Trailer'', ''Transfer-Encoding'', ''Upgrade'']"

definition IsHopByHop :: "string \<Rightarrow> bool" where
  "IsHopByHop name \<longleftrightarrow> CanonicalHeaderKey name \<in> set HopByHopHeaders"

definition IsValidHost :: "string \<Rightarrow> bool" where
  "IsValidHost h \<longleftrightarrow>
     (if h = [] \<or> length h > 253 then False
      else if list_ex (\<lambda>r. r \<in> {64, 63, 35, 47, 92, 32, 37} \<or> r < 32 \<or> r = 127) (runes h) then False
      else \<not> HasPrefix h ''.'' \<and> \<not> HasSuffix h ''.'')"

definition brokerScopedRequestHeaders :: "string list" where
  "brokerScopedRequestHeaders = [''X-Vault'', ''Proxy-Authorization'']"

definition IsBrokerScopedRequestHeader :: "string \<Rightarrow> bool" where
  "IsBrokerScopedRequestHeader name \<longleftrightarrow> CanonicalHeaderKey name \<in> set brokerScopedRequestHeaders"

text \<open>The names in the client's Connection fields.\<close>

definition connection_names :: "http_header \<Rightarrow> string list" where
  "connection_names h = filter (\<lambda>f. f \<noteq> [])
     (concat (map (\<lambda>c. map TrimSpace (split_on (CHR '','') c)) (hdr_values h ''Connection'')))"

fun add_values :: "http_header \<Rightarrow> string \<Rightarrow> string list \<Rightarrow> http_header" where
  "add_values dst k [] = dst"
| "add_values dst k (v # vs) = add_values (hdr_add dst k v) k vs"

fun copy_headers :: "string list \<Rightarrow> http_header \<Rightarrow> http_header \<Rightarrow> http_header" where
  "copy_headers strip [] dst = dst"
| "copy_headers strip ((k, vv) # hs) dst =
     (let ck = CanonicalHeaderKey k in
      if IsHopByHop ck \<or> IsBrokerScopedRequestHeader ck \<or> ck \<in> set strip then copy_headers strip hs dst
      else copy_headers strip hs (add_values dst ck vv))"

fun set_headers :: "(string, string) go_map \<Rightarrow> http_header \<Rightarrow> http_header" where
  "set_headers [] dst = dst"
| "set_headers ((k, v) # hs) dst = set_headers hs (hdr_set dst k v)"

definition ApplyInjection ::
  "http_header \<Rightarrow> http_header \<Rightarrow> (string, string) go_map \<Rightarrow> string list \<Rightarrow> http_header" where
  "ApplyInjection src dst headers extraStrip =
     (let strip = map CanonicalHeaderKey (extraStrip @ map fst headers @ connection_names src)
      in set_headers headers (copy_headers strip src dst))"

text \<open>
  \<open>strings.EqualFold\<close> with an ASCII string: simple folding takes U+017F to s and U+212A to k, and no
  other rune outside ASCII to an ASCII letter.
\<close>

definition fold_rune :: "nat \<Rightarrow> nat" where
  "fold_rune r = (if 65 \<le> r \<and> r \<le> 90 then r + 32 else if r = 383 then 115 else if r = 8490 then 107 else r)"

definition equal_fold_ascii :: "string \<Rightarrow> string \<Rightarrow> bool" where
  "equal_fold_ascii s t \<longleftrightarrow> map fold_rune (runes s) = map fold_rune (runes t)"

definition ShouldStripResponseHeader :: "string \<Rightarrow> bool" where
  "ShouldStripResponseHeader name \<longleftrightarrow> IsHopByHop name \<or> equal_fold_ascii name ''Set-Cookie''"

section \<open>What \<open>ApplyInjection\<close> sends\<close>

lemma hdr_values_add_values:
  "hdr_values (add_values h k vs) n
     = (if CanonicalHeaderKey n = CanonicalHeaderKey k then hdr_values h n @ vs else hdr_values h n)"
  by (induction vs arbitrary: h) (auto simp: hdr_values_add)

lemma hdr_values_set_headers:
  "hdr_values (set_headers hs dst) n
     = (case map_of (rev (map (\<lambda>(k, v). (CanonicalHeaderKey k, v)) hs)) (CanonicalHeaderKey n) of
          Some v \<Rightarrow> [v] | None \<Rightarrow> hdr_values dst n)"
proof (induction hs arbitrary: dst)
  case (Cons p hs)
  obtain k v where "p = (k, v)" by (cases p)
  with Cons show ?case by (auto simp: hdr_values_set map_add_def split: option.splits)
qed simp

definition crosses :: "string list \<Rightarrow> string \<Rightarrow> bool" where
  "crosses strip n \<longleftrightarrow>
     n \<notin> set HopByHopHeaders \<and> n \<notin> set brokerScopedRequestHeaders \<and> n \<notin> set strip"

lemma hdr_values_copy_headers:
  "hdr_values (copy_headers strip src dst) n
     = hdr_values dst n @ (if crosses strip (CanonicalHeaderKey n)
         then concat (map snd (filter (\<lambda>(k, vs). CanonicalHeaderKey k = CanonicalHeaderKey n) src)) else [])"
proof (induction src arbitrary: dst)
  case (Cons p src)
  obtain k vv where p: "p = (k, vv)" by (cases p)
  show ?case
  proof (cases "crosses strip (CanonicalHeaderKey k)")
    case True
    then show ?thesis
      by (auto simp: p Cons.IH hdr_values_add_values IsHopByHop_def IsBrokerScopedRequestHeader_def
            crosses_def Let_def)
  next
    case False
    then show ?thesis
      by (auto simp: p Cons.IH IsHopByHop_def IsBrokerScopedRequestHeader_def crosses_def Let_def)
  qed
qed simp

text \<open>
  Claim C8. What leaves the broker, for every header name: if the matched service injects the name,
  the injected value alone, whatever the client sent; otherwise nothing of the client's when the name
  is hop-by-hop, authenticates the client to the broker, is listed in the client's Connection fields or
  is to be stripped by the caller; and otherwise exactly the client's values, in order.
\<close>

theorem apply_injection_exact:
  "hdr_values (ApplyInjection src dst headers extraStrip) n =
     (case map_of (rev (map (\<lambda>(k, v). (CanonicalHeaderKey k, v)) headers)) (CanonicalHeaderKey n) of
        Some v \<Rightarrow> [v]
      | None \<Rightarrow> hdr_values dst n
          @ (if crosses (map CanonicalHeaderKey (extraStrip @ connection_names src)) (CanonicalHeaderKey n)
             then concat (map snd (filter (\<lambda>(k, vs). CanonicalHeaderKey k = CanonicalHeaderKey n) src))
             else []))"
proof (cases "map_of (rev (map (\<lambda>(k, v). (CanonicalHeaderKey k, v)) headers)) (CanonicalHeaderKey n)")
  case None
  then have "CanonicalHeaderKey n \<notin> CanonicalHeaderKey ` set (map fst headers)"
    by (auto simp: map_of_eq_None_iff image_iff)
  then have "crosses (map CanonicalHeaderKey (extraStrip @ map fst headers @ connection_names src)) (CanonicalHeaderKey n)
     \<longleftrightarrow> crosses (map CanonicalHeaderKey (extraStrip @ connection_names src)) (CanonicalHeaderKey n)"
    by (auto simp: crosses_def)
  with None show ?thesis
    by (simp add: ApplyInjection_def Let_def hdr_values_set_headers hdr_values_copy_headers)
qed (simp add: ApplyInjection_def Let_def hdr_values_set_headers)

end
