(* ===== verification/Substitutions.thy ===== *)
theory Substitutions
  imports Injection HttpHeaders UrlEscape
begin

text \<open>
  Placeholder substitution in an outbound request (internal/brokercore/substitution.go) and the
  buffering of request bodies (body.go). The URL is the three fields of \<open>url.URL\<close> the code reads and
  writes; a nil URL or header map is \<open>None\<close>.
\<close>

section \<open>The path of a URL\<close>

record url =
  u_Path :: string
  u_RawPath :: string
  u_RawQuery :: string

text \<open>In a path, unlike in a path segment, the comma, the slash and the semicolon are not escaped either.\<close>

definition path_byte :: "char \<Rightarrow> bool" where
  "path_byte c \<longleftrightarrow> url_unreserved c \<or> c \<in> set ''$&+,/:;=@''"

definition escape_path :: "string \<Rightarrow> string" where
  "escape_path s = concat (map (\<lambda>c. if path_byte c then [c] else pct c) s)"

definition validEncoded :: "string \<Rightarrow> bool" where
  "validEncoded s \<longleftrightarrow> list_all (\<lambda>c. c \<in> set ''!$&()*+,;=:@[]%'' \<or> byte_of c = 39 \<or> path_byte c) s"

definition EscapedPath :: "url \<Rightarrow> string" where
  "EscapedPath u =
     (if u_RawPath u \<noteq> [] \<and> validEncoded (u_RawPath u) \<and> PathUnescape (u_RawPath u) = Some (u_Path u)
      then u_RawPath u
      else if u_Path u = ''*'' then ''*'' else escape_path (u_Path u))"

section \<open>Operations\<close>

datatype sub_failure = BadPathEncoding string | HeaderInjection string

definition HasBodySubstitutions :: "resolved_substitution list \<Rightarrow> bool" where
  "HasBodySubstitutions subs \<longleftrightarrow> list_ex (\<lambda>sub. list_ex (\<lambda>s. s = ''body'') (rs_In sub)) subs"

definition subst_path :: "resolved_substitution \<Rightarrow> url \<Rightarrow> sub_failure + url" where
  "subst_path sub u =
     (let escaped = EscapedPath u;
          rewritten = ReplaceAll escaped (rs_Placeholder sub) (PathEscape (rs_Value sub)) in
      if rewritten = escaped then Inr u
      else (case PathUnescape rewritten of
              None \<Rightarrow> Inl (BadPathEncoding (rs_Placeholder sub))
            | Some decoded \<Rightarrow> Inr (u\<lparr>u_Path := decoded, u_RawPath := rewritten\<rparr>)))"

definition subst_query :: "resolved_substitution \<Rightarrow> url \<Rightarrow> url" where
  "subst_query sub u =
     u\<lparr>u_RawQuery := ReplaceAll (u_RawQuery u) (rs_Placeholder sub) (QueryEscape (rs_Value sub))\<rparr>"

definition crlf :: string where "crlf = map char_of [13, 10 :: nat]"

definition subst_headers :: "resolved_substitution \<Rightarrow> http_header \<Rightarrow> sub_failure + http_header" where
  "subst_headers sub h =
     (if ContainsAny (rs_Value sub) crlf then Inl (HeaderInjection (rs_Placeholder sub))
      else Inr (map (\<lambda>(k, vals). (k, map (\<lambda>v. ReplaceAll v (rs_Placeholder sub) (rs_Value sub)) vals)) h))"

definition apply_surface :: "resolved_substitution \<Rightarrow> string \<Rightarrow> url option \<times> http_header option
    \<Rightarrow> sub_failure + url option \<times> http_header option" where
  "apply_surface sub surface st =
     (if surface = ''path'' then
        (case fst st of None \<Rightarrow> Inr st
         | Some u \<Rightarrow> (case subst_path sub u of Inl e \<Rightarrow> Inl e | Inr u' \<Rightarrow> Inr (Some u', snd st)))
      else if surface = ''query'' then Inr (map_option (subst_query sub) (fst st), snd st)
      else if surface = ''header'' then
        (case snd st of None \<Rightarrow> Inr st
         | Some h \<Rightarrow> (case subst_headers sub h of Inl e \<Rightarrow> Inl e | Inr h' \<Rightarrow> Inr (fst st, Some h')))
      else Inr st)"

fun apply_surfaces :: "resolved_substitution \<Rightarrow> string list \<Rightarrow> url option \<times> http_header option
    \<Rightarrow> sub_failure + url option \<times> http_header option" where
  "apply_surfaces sub [] st = Inr st"
| "apply_surfaces sub (s # ss) st =
     (case apply_surface sub s st of Inl e \<Rightarrow> Inl e | Inr st' \<Rightarrow> apply_surfaces sub ss st')"

fun ApplySubstitutions :: "resolved_substitution list \<Rightarrow> url option \<times> http_header option
    \<Rightarrow> sub_failure + url option \<times> http_header option" where
  "ApplySubstitutions [] st = Inr st"
| "ApplySubstitutions (sub # subs) st =
     (case apply_surfaces sub (rs_In sub) st of Inl e \<Rightarrow> Inl e | Inr st' \<Rightarrow> ApplySubstitutions subs st')"

section \<open>Bodies\<close>

datatype request_body = NoBody | UnreadableBody bool | Body string

text \<open>
  An unreadable body tells whether the read failed at the size cap. The result of materializing is the
  body with its length, or the failure.
\<close>

definition MaterializeRequestBody :: "request_body \<Rightarrow> bool + request_body \<times> int" where
  "MaterializeRequestBody b =
     (case b of NoBody \<Rightarrow> Inr (NoBody, 0)
      | UnreadableBody capped \<Rightarrow> Inl capped
      | Body data \<Rightarrow> if data = [] then Inr (NoBody, 0) else Inr (Body data, int (length data)))"

definition RequestBodyErrorCode :: "bool \<Rightarrow> int \<times> string" where
  "RequestBodyErrorCode capped = (if capped then (413, ''request_too_large'') else (400, ''request_read_error''))"

text \<open>
  \<open>json.Marshal\<close> of a string, without the quotes: control characters, quotes and backslashes are
  escaped, and so are \<open>< > &\<close>, the line separators U+2028 and U+2029 and invalid bytes.
\<close>

definition lower_hex4 :: "nat \<Rightarrow> string" where
  "lower_hex4 r = map (\<lambda>d. if d < 10 then char_of (48 + d) else char_of (87 + d))
     [r div 4096 mod 16, r div 256 mod 16, r div 16 mod 16, r mod 16]"

definition json_escape_chunk :: "nat \<times> string \<Rightarrow> string" where
  "json_escape_chunk rb =
     (case rb of (r, bs) \<Rightarrow>
        if r = 34 \<or> r = 92 then char_of (92 :: nat) # bs
        else if r = 8 then char_of (92 :: nat) # ''b''
        else if r = 12 then char_of (92 :: nat) # ''f''
        else if r = 10 then char_of (92 :: nat) # ''n''
        else if r = 13 then char_of (92 :: nat) # ''r''
        else if r = 9 then char_of (92 :: nat) # ''t''
        else if r < 32 \<or> r = 60 \<or> r = 62 \<or> r = 38 \<or> r = 8232 \<or> r = 8233 \<or> r = 65533 \<and> length bs = 1
        then char_of (92 :: nat) # CHR ''u'' # lower_hex4 r
        else bs)"

definition jsonEscapeString :: "string \<Rightarrow> string" where
  "jsonEscapeString s = concat (map json_escape_chunk (rune_chunks s))"

definition bodyEncoder :: "string \<Rightarrow> string \<Rightarrow> string" where
  "bodyEncoder mediaType =
     (if mediaType = ''application/x-www-form-urlencoded'' then QueryEscape
      else if mediaType = ''application/json'' then jsonEscapeString
      else id)"

text \<open>
  \<open>ParseMediaType\<close> is the media type of a Content-Type value, empty when it has none. The result is the
  new body, its length and whether it changed; \<open>None\<close> a body that cannot be read.
\<close>

definition ApplyBodySubstitutions :: "(string \<Rightarrow> string) \<Rightarrow> request_body \<Rightarrow> int \<Rightarrow> string \<Rightarrow> resolved_substitution list
    \<Rightarrow> (request_body \<times> int \<times> bool) option" where
  "ApplyBodySubstitutions ParseMediaType body contentLength contentType subs =
     (let bodySubs = filter (\<lambda>sub. list_ex (\<lambda>s. s = ''body'') (rs_In sub)) subs in
      if bodySubs = [] then Some (body, contentLength, False)
      else case body of
        NoBody \<Rightarrow> Some (body, contentLength, False)
      | UnreadableBody capped \<Rightarrow> None
      | Body data \<Rightarrow>
          if data = [] then Some (NoBody, 0, False)
          else
            (let mediaType = ParseMediaType contentType in
             if HasPrefix mediaType ''multipart/'' then Some (Body data, int (length data), False)
             else
               (let text = foldl (\<lambda>t sub. ReplaceAll t (rs_Placeholder sub) (bodyEncoder mediaType (rs_Value sub)))
                      data bodySubs in
                if text = data then Some (Body data, int (length data), False)
                else Some (Body text, int (length text), True))))"

section \<open>Lemmas\<close>

lemma split_on_prefix:
  "b \<notin> set u \<Longrightarrow> split_on b (u @ t) = (u @ hd (split_on b t)) # tl (split_on b t)"
  by (induction u) (auto split: list.splits)

lemma hd_split_on: "\<exists>r. t = hd (split_on b t) @ r"
proof (induction t)
  case (Cons c t)
  then show ?case by (cases "split_on b t") auto
qed simp

lemma replace_split:
  assumes "b \<notin> set old" "b \<notin> set new"
  shows "split_on b (replace_scan old new s) = map (replace_scan old new) (split_on b s)"
proof (induction s rule: replace_scan_induct [of _ old])
  case (hit t)
  have "hd (map (replace_scan old new) (split_on b t)) = replace_scan old new (hd (split_on b t))"
    by (cases "split_on b t") auto
  with hit assms show ?case
    by (simp add: replace_scan_hit split_on_prefix map_tl)
next
  case (miss c t)
  show ?case
  proof (cases "c = b")
    case False
    obtain p ps where sp: "split_on b t = p # ps" by (cases "split_on b t") auto
    with hd_split_on [of t b] obtain r where "t = p @ r" by auto
    with miss(1) have "old = [] \<or> \<not> HasPrefix (c # p) old"
      by (auto simp: HasPrefix_iff) (metis append_Cons append_assoc)
    with False miss sp show ?thesis by (simp add: replace_scan_miss)
  qed (use miss in \<open>simp add: replace_scan_miss\<close>)
qed simp

lemma pct_bytes: "c \<in> set (pct d) \<Longrightarrow> c = CHR ''%'' \<or> is_digit c \<or> is_upper c"
proof -
  have d: "byte_of d div 16 < 16" "byte_of d mod 16 < 16"
    using nat_of_char_less_256 [of d] by (auto intro: less_mult_imp_div_less)
  have "is_digit (upper_hex n) \<or> is_upper (upper_hex n)" if "n < 16" for n
    using that by (auto simp: upper_hex_def is_digit_def is_upper_def)
  from this [OF d(1)] this [OF d(2)] show "c \<in> set (pct d) \<Longrightarrow> ?thesis" by (auto simp: pct_def)
qed

lemma PathEscape_bytes:
  "c \<in> set (PathEscape s) \<Longrightarrow> url_unreserved c \<or> c \<in> set ''$&+:=@%''"
  by (auto simp: PathEscape_def url_unreserved_def is_alnum_def is_alpha_def split: if_splits dest!: pct_bytes)

lemma QueryEscape_bytes:
  "c \<in> set (QueryEscape s) \<Longrightarrow> url_unreserved c \<or> c \<in> set ''+%''"
  by (auto simp: QueryEscape_def url_unreserved_def is_alnum_def is_alpha_def split: if_splits dest!: pct_bytes)

lemma placeholder_bytes:
  assumes "validatePlaceholder p = None"
  shows "p \<noteq> []" "c \<in> set p \<Longrightarrow> is_alnum c \<or> c \<in> set ''_-.~''"
proof -
  from assms have ne: "p \<noteq> []" and "placeholder_scan p p False False = None"
    by (auto simp: validatePlaceholder_def split: if_splits)
  then have "list_all placeholderCharAllowed p" by (blast intro: placeholder_scan_ok)
  then show "p \<noteq> []" "c \<in> set p \<Longrightarrow> is_alnum c \<or> c \<in> set ''_-.~''"
    using ne by (auto simp: list_all_iff placeholderCharAllowed_def placeholderWordChar_def)
qed

lemma not_alnum:
  "\<not> is_alnum (CHR ''/'')" "\<not> is_alnum (CHR ''&'')" "\<not> is_alnum (CHR ''%'')" "\<not> is_alnum (CHR ''='')"
  by (simp_all add: char_class_defs)

definition encoded_byte :: "char \<Rightarrow> bool" where
  "encoded_byte c \<longleftrightarrow> c \<in> set ''!$&()*+,;=:@[]%'' \<or> byte_of c = 39 \<or> path_byte c"

lemma validEncoded_iff: "validEncoded s \<longleftrightarrow> (\<forall>c \<in> set s. encoded_byte c)"
  by (simp add: validEncoded_def encoded_byte_def list_all_iff)

lemma encoded_byte_path: "path_byte c \<Longrightarrow> encoded_byte c"
  by (simp add: encoded_byte_def)

lemma encoded_byte_unreserved: "url_unreserved c \<Longrightarrow> encoded_byte c"
  by (simp add: encoded_byte_path path_byte_def)

lemma encoded_byte_special: "c \<in> set ''$&+:=@%'' \<Longrightarrow> encoded_byte c"
  by (auto simp: encoded_byte_def)

lemma encoded_byte_pct: "c \<in> set (pct d) \<Longrightarrow> encoded_byte c"
proof (drule pct_bytes)
  assume "c = CHR ''%'' \<or> is_digit c \<or> is_upper c"
  then consider "c = CHR ''%''" | "url_unreserved c"
    by (auto simp: url_unreserved_def is_alnum_def is_alpha_def)
  then show "encoded_byte c" by cases (simp_all add: encoded_byte_unreserved encoded_byte_special)
qed

lemma validEncoded_escape_path: "validEncoded (escape_path s)"
  unfolding validEncoded_iff escape_path_def
  by (auto intro: encoded_byte_pct encoded_byte_path split: if_splits)

lemma validEncoded_EscapedPath: "validEncoded (EscapedPath u)"
proof -
  have "validEncoded ''*''" by code_simp
  then show ?thesis by (simp add: EscapedPath_def validEncoded_escape_path)
qed

lemma EscapedPath_of_rewritten:
  assumes "validEncoded p" and "PathUnescape p = Some d"
  shows "EscapedPath (u\<lparr>u_Path := d, u_RawPath := p\<rparr>) = p"
  using assms by (cases p) (auto simp: EscapedPath_def escape_path_def)

lemma subst_path_escaped:
  assumes "validatePlaceholder (rs_Placeholder sub) = None" and "subst_path sub u = Inr u'"
  shows "EscapedPath u' = replace_scan (rs_Placeholder sub) (PathEscape (rs_Value sub)) (EscapedPath u)"
proof -
  let ?r = "replace_scan (rs_Placeholder sub) (PathEscape (rs_Value sub)) (EscapedPath u)"
  have ra: "ReplaceAll (EscapedPath u) (rs_Placeholder sub) (PathEscape (rs_Value sub)) = ?r"
    using placeholder_bytes(1) [OF assms(1)] by (simp add: ReplaceAll_def)
  have "encoded_byte c" if c: "c \<in> set ?r" for c
  proof -
    consider "c \<in> set (PathEscape (rs_Value sub))" | "c \<in> set (EscapedPath u)"
      using c set_replace_scan [of "rs_Placeholder sub" "PathEscape (rs_Value sub)" "EscapedPath u"] by blast
    then show ?thesis
    proof cases
      case 1
      from PathEscape_bytes [OF this] show ?thesis
        by (metis encoded_byte_special encoded_byte_unreserved)
    next
      case 2
      with validEncoded_EscapedPath [of u] show ?thesis by (simp add: validEncoded_iff)
    qed
  qed
  then have "validEncoded ?r" by (simp add: validEncoded_iff)
  with assms(2) show ?thesis
    by (auto simp: subst_path_def Let_def ra EscapedPath_of_rewritten split: if_splits option.splits)
qed

text \<open>
  What a substitution may change in a request, given the surfaces it declares: only these surfaces, and
  never the number of path segments, of query parameters, of header fields or of their values, and
  never a line break in a header value.
\<close>

definition clean_headers :: "http_header \<Rightarrow> bool" where
  "clean_headers h \<longleftrightarrow> list_all (\<lambda>(k, vs). list_all (\<lambda>v. \<not> ContainsAny v crlf) vs) h"

definition confined :: "string list \<Rightarrow> url \<times> http_header \<Rightarrow> url \<times> http_header \<Rightarrow> bool" where
  "confined surfaces a b \<longleftrightarrow>
     (''path'' \<notin> set surfaces \<longrightarrow> u_Path (fst b) = u_Path (fst a) \<and> u_RawPath (fst b) = u_RawPath (fst a))
   \<and> (''query'' \<notin> set surfaces \<longrightarrow> u_RawQuery (fst b) = u_RawQuery (fst a))
   \<and> (''header'' \<notin> set surfaces \<longrightarrow> snd b = snd a)
   \<and> length (split_on (CHR ''/'') (EscapedPath (fst b))) = length (split_on (CHR ''/'') (EscapedPath (fst a)))
   \<and> length (split_on (CHR ''&'') (u_RawQuery (fst b))) = length (split_on (CHR ''&'') (u_RawQuery (fst a)))
   \<and> map (\<lambda>(k, vs). (k, length vs)) (snd b) = map (\<lambda>(k, vs). (k, length vs)) (snd a)
   \<and> (clean_headers (snd a) \<longrightarrow> clean_headers (snd b))"

lemma confined_refl: "confined ss a a"
  by (simp add: confined_def)

lemma confined_trans: "confined ss a b \<Longrightarrow> confined ts b c \<Longrightarrow> confined (ss @ ts) a c"
  by (auto simp: confined_def)

lemma EscapedPath_frame: "u_Path u = u_Path v \<Longrightarrow> u_RawPath u = u_RawPath v \<Longrightarrow> EscapedPath u = EscapedPath v"
  by (simp add: EscapedPath_def)

lemma subst_path_confined:
  assumes ok: "validatePlaceholder (rs_Placeholder sub) = None" and s: "subst_path sub u = Inr u'"
  shows "confined [''path''] (u, h) (u', h)"
proof -
  have "CHR ''/'' \<notin> set (rs_Placeholder sub)" "CHR ''/'' \<notin> set (PathEscape (rs_Value sub))"
    using placeholder_bytes(2) [OF ok] PathEscape_bytes not_alnum(1) by (auto simp: url_unreserved_def)
  then have "length (split_on (CHR ''/'') (EscapedPath u')) = length (split_on (CHR ''/'') (EscapedPath u))"
    by (simp add: subst_path_escaped [OF ok s] replace_split)
  moreover have "u_RawQuery u' = u_RawQuery u"
    using s by (auto simp: subst_path_def Let_def split: if_splits option.splits)
  ultimately show ?thesis by (simp add: confined_def)
qed

lemma subst_query_confined:
  assumes ok: "validatePlaceholder (rs_Placeholder sub) = None"
  shows "confined [''query''] (u, h) (subst_query sub u, h)"
proof -
  have "CHR ''&'' \<notin> set (rs_Placeholder sub)" "CHR ''&'' \<notin> set (QueryEscape (rs_Value sub))"
    using placeholder_bytes(2) [OF ok] QueryEscape_bytes not_alnum(2) by (auto simp: url_unreserved_def)
  then show ?thesis
    using placeholder_bytes(1) [OF ok]
    by (simp add: confined_def subst_query_def EscapedPath_def ReplaceAll_def replace_split)
qed

lemma replace_clean:
  assumes "\<not> ContainsAny v crlf" "\<not> ContainsAny new crlf"
  shows "\<not> ContainsAny (replace_scan old new v) crlf"
  using assms set_replace_scan [of old new v] by (auto simp: ContainsAny_def list_ex_iff)

lemma subst_headers_confined:
  assumes ok: "validatePlaceholder (rs_Placeholder sub) = None" and s: "subst_headers sub h = Inr h'"
  shows "confined [''header''] (u, h) (u, h')"
proof -
  from s have v: "\<not> ContainsAny (rs_Value sub) crlf"
    and h': "h' = map (\<lambda>(k, vals). (k, map (replace_scan (rs_Placeholder sub) (rs_Value sub)) vals)) h"
    using placeholder_bytes(1) [OF ok] by (auto simp: subst_headers_def ReplaceAll_def split: if_splits)
  have "clean_headers h \<Longrightarrow> clean_headers h'"
    using v by (force simp: h' clean_headers_def list_all_iff dest: replace_clean)
  then show ?thesis by (auto simp: confined_def h' comp_def split_beta)
qed

lemma apply_surface_confined:
  assumes ok: "validatePlaceholder (rs_Placeholder sub) = None"
    and s: "apply_surface sub surface (Some u, Some h) = Inr st"
  shows "\<exists>u' h'. st = (Some u', Some h') \<and> confined [surface] (u, h) (u', h')"
proof -
  consider "surface = ''path''" | "surface = ''query''" | "surface = ''header''"
    | "surface \<notin> {''path'', ''query'', ''header''}" by blast
  then show ?thesis
  proof cases
    case 1
    with s subst_path_confined [OF ok] show ?thesis by (auto simp: apply_surface_def split: sum.splits)
  next
    case 2
    with s subst_query_confined [OF ok] show ?thesis by (auto simp: apply_surface_def)
  next
    case 3
    with s subst_headers_confined [OF ok] show ?thesis by (auto simp: apply_surface_def split: sum.splits)
  next
    case 4
    with s confined_refl show ?thesis by (auto simp: apply_surface_def)
  qed
qed

lemma apply_surfaces_confined:
  assumes ok: "validatePlaceholder (rs_Placeholder sub) = None"
  shows "apply_surfaces sub ss (Some u, Some h) = Inr st
    \<Longrightarrow> \<exists>u' h'. st = (Some u', Some h') \<and> confined ss (u, h) (u', h')"
proof (induction ss arbitrary: u h)
  case (Cons s ss)
  from Cons.prems obtain st1 where st1: "apply_surface sub s (Some u, Some h) = Inr st1"
    "apply_surfaces sub ss st1 = Inr st" by (auto split: sum.splits)
  with apply_surface_confined [OF ok] obtain u1 h1 where
    1: "st1 = (Some u1, Some h1)" "confined [s] (u, h) (u1, h1)" by blast
  with Cons.IH st1(2) obtain u2 h2 where "st = (Some u2, Some h2)" "confined ss (u1, h1) (u2, h2)" by blast
  with 1 confined_trans [of "[s]" "(u, h)" "(u1, h1)" ss] show ?case by auto
qed (auto simp: confined_refl)

section \<open>Properties\<close>

text \<open>
  Claim C26. A substitution stays where it was declared. With placeholders that passed validation, a
  request that \<open>ApplySubstitutions\<close> lets through differs from the client's in the declared surfaces only;
  its path has the same segments on the wire, its query the same number of parameters, its headers the
  same names and numbers of values; and no secret adds a CR or LF to a header.
\<close>

theorem substitution_confined:
  assumes "list_all (\<lambda>sub. validatePlaceholder (rs_Placeholder sub) = None) subs"
    and "ApplySubstitutions subs (Some u, Some h) = Inr st"
  shows "\<exists>u' h'. st = (Some u', Some h') \<and> confined (concat (map rs_In subs)) (u, h) (u', h')"
  using assms
proof (induction subs arbitrary: u h)
  case (Cons sub subs)
  from Cons.prems obtain st1 where st1: "apply_surfaces sub (rs_In sub) (Some u, Some h) = Inr st1"
    "ApplySubstitutions subs st1 = Inr st" by (auto split: sum.splits)
  from Cons.prems(1) have "validatePlaceholder (rs_Placeholder sub) = None" by simp
  from apply_surfaces_confined [OF this st1(1)] obtain u1 h1 where
    1: "st1 = (Some u1, Some h1)" "confined (rs_In sub) (u, h) (u1, h1)" by blast
  with Cons.IH [of u1 h1] Cons.prems(1) st1(2) obtain u2 h2 where
    "st = (Some u2, Some h2)" "confined (concat (map rs_In subs)) (u1, h1) (u2, h2)"
    unfolding 1(1) list.pred_inject by blast
  with 1 confined_trans [of "rs_In sub" "(u, h)" "(u1, h1)"] show ?case by auto
qed (auto simp: confined_refl)

definition demo_sub :: resolved_substitution where
  "demo_sub = \<lparr>rs_Placeholder = ''__KEY__'', rs_Value = ''a/b&c'', rs_In = [''path'', ''query'']\<rparr>"

definition demo_url :: url where
  "demo_url = \<lparr>u_Path = ''/bot__KEY__/send'', u_RawPath = [], u_RawQuery = ''k=__KEY__&x=1''\<rparr>"

definition demo_sent :: url where
  "demo_sent = \<lparr>u_Path = ''/bota/b&c/send'', u_RawPath = ''/bota%2Fb&c/send'', u_RawQuery = ''k=a%2Fb%26c&x=1''\<rparr>"

theorem substitution_confined_witness:
  "ApplySubstitutions [demo_sub] (Some demo_url, Some [(''Accept'', [''*''])])
     = Inr (Some demo_sent, Some [(''Accept'', [''*''])])
   \<and> confined [''path'', ''query''] (demo_url, [(''Accept'', [''*''])]) (demo_sent, [(''Accept'', [''*''])])"
proof -
  have r: "ApplySubstitutions [demo_sub] (Some demo_url, Some [(''Accept'', [''*''])])
     = Inr (Some demo_sent, Some [(''Accept'', [''*''])])" by code_simp
  have ok: "list_all (\<lambda>sub. validatePlaceholder (rs_Placeholder sub) = None) [demo_sub]" by code_simp
  show ?thesis
    using r substitution_confined [OF ok r] by (auto simp: demo_sub_def)
qed

text \<open>
  The text between the quotes of a JSON string: no bare quote, no control character, and every
  backslash begins an escape.
\<close>

definition hex4 :: "string \<Rightarrow> bool" where
  "hex4 s \<longleftrightarrow> length s \<ge> 4 \<and> list_all (\<lambda>c. hex_digit_val c \<noteq> None) (take 4 s)"

fun json_text :: "string \<Rightarrow> bool" where
  "json_text [] = True"
| "json_text (c # s) =
     (if byte_of c = 34 \<or> byte_of c < 32 then False
      else if byte_of c = 92 then
        (case s of [] \<Rightarrow> False
         | d # t \<Rightarrow> if d = CHR ''u'' then hex4 t \<and> json_text t
                    else byte_of d \<in> {34, 92} \<union> byte_of ` set ''/bfnrt'' \<and> json_text t)
      else json_text s)"

definition plain_json :: "char \<Rightarrow> bool" where
  "plain_json c \<longleftrightarrow> byte_of c \<ge> 32 \<and> byte_of c \<noteq> 34 \<and> byte_of c \<noteq> 92"

lemma json_text_plain: "list_all plain_json s \<Longrightarrow> json_text t \<Longrightarrow> json_text (s @ t)"
  by (induction s) (auto simp: plain_json_def)

lemma lower_hex4_digits:
  "length (lower_hex4 r) = 4" "list_all (\<lambda>c. hex_digit_val c \<noteq> None) (lower_hex4 r)" "list_all plain_json (lower_hex4 r)"
proof -
  have "hex_digit_val (if d < 10 then char_of (48 + d) else char_of (87 + d)) \<noteq> None
      \<and> plain_json (if d < 10 then char_of (48 + d) else char_of (87 + d))"
    if "d < 16" for d :: nat
    using that by (auto simp: hex_digit_val_def is_digit_def plain_json_def)
  then show "length (lower_hex4 r) = 4" "list_all (\<lambda>c. hex_digit_val c \<noteq> None) (lower_hex4 r)"
    "list_all plain_json (lower_hex4 r)"
    unfolding lower_hex4_def by simp_all
qed

lemma json_text_u: "json_text t \<Longrightarrow> json_text (char_of (92 :: nat) # CHR ''u'' # lower_hex4 r @ t)"
  using lower_hex4_digits [of r] by (simp add: hex4_def json_text_plain)

lemma rune_chunk_ascii:
  "(r, bs) \<in> set (rune_chunks s) \<Longrightarrow> r < 128 \<Longrightarrow> \<exists>c. bs = [c] \<and> byte_of c = r"
proof (induction s rule: rune_chunks.induct)
  case (1 s)
  show ?case
  proof (cases s)
    case (Cons a t)
    consider "(r, bs) \<in> set (rune_chunks (drop (snd (decode_rune s)) s))"
      | "r = fst (decode_rune s)" "bs = take (snd (decode_rune s)) s"
      using 1(2) Cons by (auto simp: rune_chunks_ne)
    then show ?thesis
    proof cases
      case 2
      with 1(3) Cons decode_rune_value_high [of a t] have "byte_of a < 128" by force
      with 2 Cons show ?thesis by (simp add: decode_rune_def)
    qed (use 1 Cons in simp)
  qed (use 1(2) in \<open>simp add: rune_chunks.simps\<close>)
qed

lemma json_text_chunk:
  assumes "(r, bs) \<in> set (rune_chunks s)" and t: "json_text t"
  shows "json_text (json_escape_chunk (r, bs) @ t)"
proof -
  consider (quote) "r = 34 \<or> r = 92" | (short) "r \<in> {8, 12, 10, 13, 9}"
    | (u) "r \<notin> {34, 92, 8, 12, 10, 13, 9}" "r < 32 \<or> r = 60 \<or> r = 62 \<or> r = 38 \<or> r = 8232 \<or> r = 8233 \<or> r = 65533 \<and> length bs = 1"
    | (plain) "r \<notin> {34, 92}" "32 \<le> r" "\<not> (r < 32 \<or> r = 60 \<or> r = 62 \<or> r = 38 \<or> r = 8232 \<or> r = 8233 \<or> r = 65533 \<and> length bs = 1)"
    by fastforce
  then show ?thesis
  proof cases
    case quote
    then obtain c where "bs = [c]" "byte_of c = r" using rune_chunk_ascii [OF assms(1)] by auto
    with quote t show ?thesis by (auto simp: json_escape_chunk_def)
  next
    case short
    with t show ?thesis by (auto simp: json_escape_chunk_def)
  next
    case u
    then have "json_escape_chunk (r, bs) = char_of (92 :: nat) # CHR ''u'' # lower_hex4 r"
      by (simp add: json_escape_chunk_def)
    with json_text_u [OF t] show ?thesis by simp
  next
    case plain
    have "plain_json c" if "c \<in> set bs" for c
      using rune_chunk_low_byte [OF assms(1) that] plain by (cases "byte_of c < 128") (auto simp: plain_json_def)
    then have "list_all plain_json bs" by (simp add: list_all_iff)
    moreover from plain have "json_escape_chunk (r, bs) = bs" by (auto simp: json_escape_chunk_def)
    ultimately show ?thesis using t by (simp add: json_text_plain)
  qed
qed

lemma json_text_escape: "json_text (jsonEscapeString s)"
proof -
  have "set cs \<subseteq> set (rune_chunks s) \<Longrightarrow> json_text (concat (map json_escape_chunk cs))" for cs
  proof (induction cs)
    case (Cons p cs)
    then show ?case using json_text_chunk [of "fst p" "snd p" s] by simp
  qed simp
  then show ?thesis by (simp add: jsonEscapeString_def)
qed

text \<open>
  A value substituted into a body cannot leave its place: in a JSON body it is the text of a
  string, without a bare quote, backslash or control character, and in a form body it adds no field.
\<close>

theorem body_value_contained:
  assumes "validatePlaceholder p = None"
  shows "json_text (bodyEncoder ''application/json'' v)
    \<and> split_on (CHR ''&'') (ReplaceAll body p (bodyEncoder ''application/x-www-form-urlencoded'' v))
      = map (\<lambda>field. ReplaceAll field p (bodyEncoder ''application/x-www-form-urlencoded'' v)) (split_on (CHR ''&'') body)"
proof -
  have "CHR ''&'' \<notin> set p" "CHR ''&'' \<notin> set (QueryEscape v)"
    using placeholder_bytes(2) [OF assms] QueryEscape_bytes not_alnum(2) by (auto simp: url_unreserved_def)
  then show ?thesis
    using placeholder_bytes(1) [OF assms]
    by (simp add: bodyEncoder_def json_text_escape ReplaceAll_def replace_split)
qed

theorem body_value_contained_witness:
  "split_on (CHR ''&'') (ReplaceAll ''a=__KEY__&b=2'' ''__KEY__'' (bodyEncoder ''application/x-www-form-urlencoded'' ''x&y''))
     = [''a=x%26y'', ''b=2'']"
proof -
  have "validatePlaceholder ''__KEY__'' = None" by code_simp
  from body_value_contained [OF this, of "''x&y''" "''a=__KEY__&b=2''"] show ?thesis
    by (elim conjE) (rule trans, assumption, code_simp)
qed

end
