(* ===== verification/AccessStore.thy ===== *)
theory AccessStore
  imports Sessions
begin

text \<open>
  The access tables of the SQL store (internal/store/sql_store.go): vaults and their broker
  configurations, users, agents, vault grants and sessions, with the operations that change them. A
  table is the list of its rows in insertion order; the constraints of the schema (primary keys,
  UNIQUE, CHECK, REFERENCES with ON DELETE CASCADE) are part of the statements. Every operation is one
  statement or one transaction and takes effect completely or not at all; identifiers, tokens and the
  time, which the code draws itself, are arguments. Columns that no modelled operation reads (password
  hashes, labels, client addresses, timestamps of rows other than grants and sessions) are left out.

  \<open>H\<close> is the SHA-256 of a token in hexadecimal: the sessions table holds no raw token.
\<close>

section \<open>Tables\<close>

record user_row =
  ur_id :: string
  ur_email :: string
  ur_role :: string
  ur_active :: bool

record agent_row =
  ag_id :: string
  ag_name :: string
  ag_role :: string
  ag_status :: string
  ag_created_by :: string

record grant_row =
  gw_actor :: string
  gw_type :: string
  gw_vault :: string
  gw_role :: string
  gw_at :: int

record session_row =
  sr_id :: string
  sr_user :: "string option"
  sr_vault :: "string option"
  sr_agent :: "string option"
  sr_role :: "string option"
  sr_expires :: "int option"
  sr_created :: int
  sr_used :: "int option"
  sr_idle :: "int option"
  sr_public :: "string option"
  sr_by :: "string option"
  sr_by_type :: "string option"

record access_db =
  db_vaults :: "vault list"
  db_configs :: "(string, string) go_map"
  db_users :: "user_row list"
  db_agents :: "agent_row list"
  db_grants :: "grant_row list"
  db_sessions :: "session_row list"

definition empty_db :: access_db where
  "empty_db = \<lparr>db_vaults = [], db_configs = [], db_users = [], db_agents = [], db_grants = [], db_sessions = []\<rparr>"

datatype store_error = NoRowsErr | Constraint | NotFirstUser | BadParams

definition vault_roles :: "string list" where "vault_roles = [''proxy'', ''member'', ''admin'']"
definition instance_roles :: "string list" where "instance_roles = [''owner'', ''member'', ''no-access'']"
definition actor_types :: "string list" where "actor_types = [''user'', ''agent'']"

definition vault_exists :: "access_db \<Rightarrow> string \<Rightarrow> bool" where
  "vault_exists d i \<longleftrightarrow> list_ex (\<lambda>v. va_ID v = i) (db_vaults d)"

definition user_exists :: "access_db \<Rightarrow> string \<Rightarrow> bool" where
  "user_exists d i \<longleftrightarrow> list_ex (\<lambda>u. ur_id u = i) (db_users d)"

definition agent_exists :: "access_db \<Rightarrow> string \<Rightarrow> bool" where
  "agent_exists d i \<longleftrightarrow> list_ex (\<lambda>a. ag_id a = i) (db_agents d)"

section \<open>Vaults\<close>

definition CreateVault :: "access_db \<Rightarrow> string \<Rightarrow> string \<Rightarrow> store_error + access_db" where
  "CreateVault d nsID name =
     (if list_ex (\<lambda>v. va_ID v = nsID \<or> va_Name v = name) (db_vaults d) then Inl Constraint
      else if nsID \<in> set (map fst (db_configs d)) then Inl Constraint
      else Inr (d\<lparr>db_vaults := db_vaults d @ [\<lparr>va_ID = nsID, va_Name = name\<rparr>],
                  db_configs := map_put nsID ''[]'' (db_configs d)\<rparr>))"

definition store_GetVault :: "access_db \<Rightarrow> string \<Rightarrow> vault option" where
  "store_GetVault d name = find (\<lambda>v. va_Name v = name) (db_vaults d)"

definition store_GetVaultByID :: "access_db \<Rightarrow> string \<Rightarrow> vault option" where
  "store_GetVaultByID d i = find (\<lambda>v. va_ID v = i) (db_vaults d)"

text \<open>Sessions, grants and configurations of the vault go with it.\<close>

definition DeleteVault :: "access_db \<Rightarrow> string \<Rightarrow> store_error + access_db" where
  "DeleteVault d name =
     (case store_GetVault d name of
        None \<Rightarrow> Inl NoRowsErr
      | Some v \<Rightarrow> Inr (d\<lparr>db_sessions := filter (\<lambda>s. sr_vault s \<noteq> Some (va_ID v)) (db_sessions d),
                         db_vaults := filter (\<lambda>w. va_ID w \<noteq> va_ID v) (db_vaults d),
                         db_grants := filter (\<lambda>g. gw_vault g \<noteq> va_ID v) (db_grants d),
                         db_configs := map_del (va_ID v) (db_configs d)\<rparr>))"

definition RenameVault :: "access_db \<Rightarrow> string \<Rightarrow> string \<Rightarrow> store_error + access_db" where
  "RenameVault d oldName newName =
     (case store_GetVault d oldName of
        None \<Rightarrow> Inl NoRowsErr
      | Some v \<Rightarrow>
          if list_ex (\<lambda>w. va_ID w \<noteq> va_ID v \<and> va_Name w = newName) (db_vaults d) then Inl Constraint
          else Inr (d\<lparr>db_vaults := map (\<lambda>w. if va_ID w = va_ID v then w\<lparr>va_Name := newName\<rparr> else w) (db_vaults d)\<rparr>))"

definition SetBrokerConfig :: "access_db \<Rightarrow> string \<Rightarrow> string \<Rightarrow> store_error + access_db" where
  "SetBrokerConfig d vaultID servicesJSON =
     (if \<not> vault_exists d vaultID then Inl Constraint
      else Inr (d\<lparr>db_configs := map_put vaultID servicesJSON (db_configs d)\<rparr>))"

definition store_GetBrokerConfig :: "access_db \<Rightarrow> string \<Rightarrow> string option" where
  "store_GetBrokerConfig d vaultID = map_of (db_configs d) vaultID"

section \<open>Users\<close>

definition insert_user :: "access_db \<Rightarrow> user_row \<Rightarrow> store_error + access_db" where
  "insert_user d u =
     (if list_ex (\<lambda>w. ur_id w = ur_id u \<or> ur_email w = ur_email u) (db_users d) \<or> ur_role u \<notin> set instance_roles
      then Inl Constraint else Inr (d\<lparr>db_users := db_users d @ [u]\<rparr>))"

definition CreateUser :: "access_db \<Rightarrow> string \<Rightarrow> string \<Rightarrow> string \<Rightarrow> store_error + access_db" where
  "CreateUser d i email role = insert_user d \<lparr>ur_id = i, ur_email = email, ur_role = role, ur_active = False\<rparr>"

definition upsert_grant :: "access_db \<Rightarrow> grant_row \<Rightarrow> store_error + access_db" where
  "upsert_grant d g =
     (if gw_type g \<notin> set actor_types \<or> gw_role g \<notin> set vault_roles \<or> \<not> vault_exists d (gw_vault g) then Inl Constraint
      else if list_ex (\<lambda>x. gw_actor x = gw_actor g \<and> gw_vault x = gw_vault g) (db_grants d)
      then Inr (d\<lparr>db_grants := map (\<lambda>x. if gw_actor x = gw_actor g \<and> gw_vault x = gw_vault g
                                       then x\<lparr>gw_role := gw_role g\<rparr> else x) (db_grants d)\<rparr>)
      else Inr (d\<lparr>db_grants := db_grants d @ [g]\<rparr>))"

definition RegisterFirstUser :: "access_db \<Rightarrow> string \<Rightarrow> string \<Rightarrow> string \<Rightarrow> int \<Rightarrow> store_error + access_db" where
  "RegisterFirstUser d i email defaultVaultID now =
     (if db_users d \<noteq> [] then Inl NotFirstUser
      else case insert_user d \<lparr>ur_id = i, ur_email = email, ur_role = ''owner'', ur_active = True\<rparr> of
        Inl e \<Rightarrow> Inl e
      | Inr d1 \<Rightarrow>
          if defaultVaultID \<noteq> []
          then upsert_grant d1 \<lparr>gw_actor = i, gw_type = ''user'', gw_vault = defaultVaultID, gw_role = ''admin'', gw_at = now\<rparr>
          else Inr d1)"

definition UpdateUserRole :: "access_db \<Rightarrow> string \<Rightarrow> string \<Rightarrow> store_error + access_db" where
  "UpdateUserRole d i role =
     (if \<not> user_exists d i then Inl NoRowsErr
      else if role \<notin> set instance_roles then Inl Constraint
      else Inr (d\<lparr>db_users := map (\<lambda>u. if ur_id u = i then u\<lparr>ur_role := role\<rparr> else u) (db_users d)\<rparr>))"

definition ActivateUser :: "access_db \<Rightarrow> string \<Rightarrow> store_error + access_db" where
  "ActivateUser d i =
     (if \<not> user_exists d i then Inl NoRowsErr
      else Inr (d\<lparr>db_users := map (\<lambda>u. if ur_id u = i then u\<lparr>ur_active := True\<rparr> else u) (db_users d)\<rparr>))"

text \<open>The user's sessions go with the row; the grants and the tokens the user minted are deleted too.\<close>

definition DeleteUser :: "access_db \<Rightarrow> string \<Rightarrow> store_error + access_db" where
  "DeleteUser d i =
     (if \<not> user_exists d i then Inl NoRowsErr
      else Inr (d\<lparr>db_users := filter (\<lambda>u. ur_id u \<noteq> i) (db_users d),
                  db_grants := filter (\<lambda>g. gw_actor g \<noteq> i) (db_grants d),
                  db_sessions := filter (\<lambda>s. sr_user s \<noteq> Some i
                    \<and> \<not> (sr_by s = Some i \<and> sr_by_type s = Some ''user'')) (db_sessions d)\<rparr>))"

definition CountOwners :: "access_db \<Rightarrow> nat" where
  "CountOwners d = length (filter (\<lambda>u. ur_role u = ''owner'') (db_users d))"

definition CountAllOwners :: "access_db \<Rightarrow> nat" where
  "CountAllOwners d = length (filter (\<lambda>u. ur_role u = ''owner'' \<and> ur_active u) (db_users d))
     + length (filter (\<lambda>a. ag_role a = ''owner'' \<and> ag_status a = ''active'') (db_agents d))"

text \<open>
  One transaction for a vault with an external credential store. The row of that store and the encrypted snapshot are kept
  elsewhere; their constraints (kind, polling interval, one row per key) decide here whether the transaction commits.
\<close>

definition CreateExternalVault ::
  "access_db \<Rightarrow> string \<Rightarrow> string \<Rightarrow> string \<Rightarrow> string \<Rightarrow> int \<Rightarrow> string list \<Rightarrow> string \<Rightarrow> string \<Rightarrow> int \<Rightarrow> store_error + access_db" where
  "CreateExternalVault d vaultID name kind configJSON poll keys actorID actorType now =
     (if name = [] \<or> kind = [] \<or> configJSON = [] \<or> actorID = [] \<or> actorType = [] then Inl BadParams
      else case CreateVault d vaultID name of
        Inl e \<Rightarrow> Inl e
      | Inr d1 \<Rightarrow>
          if kind \<notin> set [''infisical'', ''hashicorp''] \<or> poll < 10 \<or> \<not> distinct keys then Inl Constraint
          else if list_ex (\<lambda>g. gw_actor g = actorID \<and> gw_vault g = vaultID) (db_grants d1) then Inl Constraint
          else upsert_grant d1 \<lparr>gw_actor = actorID, gw_type = actorType, gw_vault = vaultID, gw_role = ''admin'', gw_at = now\<rparr>)"

section \<open>Grants\<close>

definition GrantVaultRole :: "access_db \<Rightarrow> string \<Rightarrow> string \<Rightarrow> string \<Rightarrow> string \<Rightarrow> int \<Rightarrow> store_error + access_db" where
  "GrantVaultRole d actorID actorType vaultID role now =
     upsert_grant d \<lparr>gw_actor = actorID, gw_type = actorType, gw_vault = vaultID, gw_role = role, gw_at = now\<rparr>"

definition grant_of :: "access_db \<Rightarrow> string \<Rightarrow> string \<Rightarrow> grant_row option" where
  "grant_of d actorID vaultID = find (\<lambda>g. gw_actor g = actorID \<and> gw_vault g = vaultID) (db_grants d)"

definition RevokeVaultAccess :: "access_db \<Rightarrow> string \<Rightarrow> string \<Rightarrow> store_error + access_db" where
  "RevokeVaultAccess d actorID vaultID =
     (case grant_of d actorID vaultID of
        None \<Rightarrow> Inl NoRowsErr
      | Some g \<Rightarrow> Inr (d\<lparr>db_grants := filter (\<lambda>g. \<not> (gw_actor g = actorID \<and> gw_vault g = vaultID)) (db_grants d)\<rparr>))"

definition store_GetVaultRole :: "access_db \<Rightarrow> string \<Rightarrow> string \<Rightarrow> string option" where
  "store_GetVaultRole d actorID vaultID = map_option gw_role (grant_of d actorID vaultID)"

definition HasVaultAccess :: "access_db \<Rightarrow> string \<Rightarrow> string \<Rightarrow> bool" where
  "HasVaultAccess d actorID vaultID \<longleftrightarrow> grant_of d actorID vaultID \<noteq> None"

definition CountVaultAdmins :: "access_db \<Rightarrow> string \<Rightarrow> nat" where
  "CountVaultAdmins d vaultID = length (filter (\<lambda>g. gw_vault g = vaultID \<and> gw_role g = ''admin'') (db_grants d))"

text \<open>The join of the grants with the vaults they name, in the order of their creation.\<close>

definition join_grants :: "access_db \<Rightarrow> grant_row list \<Rightarrow> vault_grant list" where
  "join_grants d gs = concat (map (\<lambda>g. map (\<lambda>v. 
     \<lparr>gr_ActorID = gw_actor g, gr_ActorType = gw_type g, gr_VaultID = gw_vault g, gr_VaultName = va_Name v,
      gr_Role = gw_role g, gr_CreatedAt = gw_at g\<rparr>)
     (filter (\<lambda>v. va_ID v = gw_vault g) (db_vaults d))) (sort_key gw_at gs))"

definition store_ListActorGrants :: "access_db \<Rightarrow> string \<Rightarrow> vault_grant list" where
  "store_ListActorGrants d actorID = join_grants d (filter (\<lambda>g. gw_actor g = actorID) (db_grants d))"

definition ListVaultMembers :: "access_db \<Rightarrow> string \<Rightarrow> vault_grant list" where
  "ListVaultMembers d vaultID = join_grants d (filter (\<lambda>g. gw_vault g = vaultID) (db_grants d))"

definition ListVaultMembersByType :: "access_db \<Rightarrow> string \<Rightarrow> string \<Rightarrow> vault_grant list" where
  "ListVaultMembersByType d vaultID actorType =
     join_grants d (filter (\<lambda>g. gw_vault g = vaultID \<and> gw_type g = actorType) (db_grants d))"

section \<open>Sessions\<close>

text \<open>The unique index on the public identifier ignores NULL.\<close>

definition insert_session :: "access_db \<Rightarrow> session_row \<Rightarrow> store_error + access_db" where
  "insert_session d s =
     (if list_ex (\<lambda>x. sr_id x = sr_id s \<or> sr_public s \<noteq> None \<and> sr_public x = sr_public s) (db_sessions d) then Inl Constraint
      else if (case sr_user s of None \<Rightarrow> False | Some i \<Rightarrow> \<not> user_exists d i) then Inl Constraint
      else if (case sr_vault s of None \<Rightarrow> False | Some i \<Rightarrow> \<not> vault_exists d i) then Inl Constraint
      else if (case sr_agent s of None \<Rightarrow> False | Some i \<Rightarrow> \<not> agent_exists d i) then Inl Constraint
      else if (case sr_role s of None \<Rightarrow> False | Some r \<Rightarrow> r \<notin> set vault_roles) then Inl Constraint
      else Inr (d\<lparr>db_sessions := db_sessions d @ [s]\<rparr>))"

definition nullableString :: "string \<Rightarrow> string option" where
  "nullableString s = (if s = [] then None else Some s)"

definition plain_session :: "string \<Rightarrow> int \<Rightarrow> session_row" where
  "plain_session i now = \<lparr>sr_id = i, sr_user = None, sr_vault = None, sr_agent = None, sr_role = None,
     sr_expires = None, sr_created = now, sr_used = None, sr_idle = None, sr_public = None, sr_by = None, sr_by_type = None\<rparr>"

text \<open>
  Times are the values the columns hold, in nanoseconds: what \<open>FormatTime\<close> keeps of a time (whole seconds
  in SQLite). The idle window is stored in whole seconds.
\<close>

definition CreateUserSession :: "(string \<Rightarrow> string) \<Rightarrow> access_db \<Rightarrow> string \<Rightarrow> string \<Rightarrow> string \<Rightarrow> int \<Rightarrow> int \<Rightarrow> int
    \<Rightarrow> store_error + access_db" where
  "CreateUserSession H d rawToken publicID userID expiresAt idleTTL now =
     (if userID = [] then Inl BadParams
      else insert_session d ((plain_session (H rawToken) now)\<lparr>sr_user := Some userID, sr_expires := Some expiresAt,
        sr_used := Some now, sr_idle := (if idleTTL > 0 then Some (idleTTL div 1000000000) else None),
        sr_public := Some publicID\<rparr>))"

definition CreateScopedSession :: "(string \<Rightarrow> string) \<Rightarrow> access_db \<Rightarrow> string \<Rightarrow> string \<Rightarrow> string \<Rightarrow> string \<Rightarrow> int option
    \<Rightarrow> string \<Rightarrow> string \<Rightarrow> int \<Rightarrow> store_error + access_db" where
  "CreateScopedSession H d rawToken publicID vaultID vaultRole expiresAt byID byType now =
     insert_session d ((plain_session (H rawToken) now)\<lparr>sr_vault := Some vaultID, sr_role := Some vaultRole,
        sr_expires := expiresAt, sr_public := Some publicID, sr_by := nullableString byID,
        sr_by_type := nullableString byType\<rparr>)"

definition of_null :: "string option \<Rightarrow> string" where
  "of_null x = (case x of None \<Rightarrow> [] | Some s \<Rightarrow> s)"

definition session_of_row :: "session_row \<Rightarrow> session" where
  "session_of_row r = \<lparr>se_VaultID = of_null (sr_vault r), se_VaultRole = of_null (sr_role r),
     se_UserID = of_null (sr_user r), se_AgentID = of_null (sr_agent r), se_ExpiresAt = sr_expires r,
     se_IdleTTL = (case sr_idle r of None \<Rightarrow> 0 | Some n \<Rightarrow> n * 1000000000), se_LastUsedAt = sr_used r\<rparr>"

definition store_GetSession :: "(string \<Rightarrow> string) \<Rightarrow> access_db \<Rightarrow> string \<Rightarrow> session option" where
  "store_GetSession H d rawToken = map_option session_of_row (find (\<lambda>s. sr_id s = H rawToken) (db_sessions d))"

text \<open>Delete the rows with \<open>P\<close>; no row is \<open>sql.ErrNoRows\<close>.\<close>

definition delete_sessions :: "(session_row \<Rightarrow> bool) \<Rightarrow> access_db \<Rightarrow> access_db" where
  "delete_sessions P d = d\<lparr>db_sessions := filter (\<lambda>s. \<not> P s) (db_sessions d)\<rparr>"

definition delete_some_session :: "(session_row \<Rightarrow> bool) \<Rightarrow> access_db \<Rightarrow> store_error + access_db" where
  "delete_some_session P d = (if list_ex P (db_sessions d) then Inr (delete_sessions P d) else Inl NoRowsErr)"

definition RevokeScopedSession :: "access_db \<Rightarrow> string \<Rightarrow> string \<Rightarrow> store_error + access_db" where
  "RevokeScopedSession d vaultID publicID =
     (if vaultID = [] \<or> publicID = [] then Inl NoRowsErr
      else delete_some_session (\<lambda>s. sr_vault s = Some vaultID \<and> sr_public s = Some publicID
             \<and> sr_user s = None \<and> sr_agent s = None) d)"

definition RevokeUserSession :: "access_db \<Rightarrow> string \<Rightarrow> string \<Rightarrow> store_error + access_db" where
  "RevokeUserSession d userID publicID =
     (if userID = [] \<or> publicID = [] then Inl NoRowsErr
      else delete_some_session (\<lambda>s. sr_user s = Some userID \<and> sr_public s = Some publicID) d)"

definition DeleteSession :: "(string \<Rightarrow> string) \<Rightarrow> access_db \<Rightarrow> string \<Rightarrow> store_error + access_db" where
  "DeleteSession H d rawToken = delete_some_session (\<lambda>s. sr_id s = H rawToken) d"

definition DeleteUserSessions :: "access_db \<Rightarrow> string \<Rightarrow> store_error + access_db" where
  "DeleteUserSessions d userID = Inr (delete_sessions (\<lambda>s. sr_user s = Some userID) d)"

definition TouchInterval :: int where "TouchInterval = 60 * 1000000000"

definition TouchSession :: "(string \<Rightarrow> string) \<Rightarrow> access_db \<Rightarrow> string \<Rightarrow> int \<Rightarrow> store_error + access_db" where
  "TouchSession H d rawToken now =
     Inr (d\<lparr>db_sessions := map (\<lambda>s.
       if sr_id s = H rawToken \<and> sr_user s \<noteq> None
          \<and> (case sr_used s of None \<Rightarrow> True | Some t \<Rightarrow> t < now - TouchInterval)
       then s\<lparr>sr_used := Some now\<rparr> else s) (db_sessions d)\<rparr>)"

section \<open>Agents\<close>

definition CreateAgent :: "access_db \<Rightarrow> string \<Rightarrow> string \<Rightarrow> string \<Rightarrow> string \<Rightarrow> store_error + access_db" where
  "CreateAgent d i name createdBy role =
     (if list_ex (\<lambda>a. ag_id a = i \<or> ag_name a = name) (db_agents d) \<or> role \<notin> set instance_roles then Inl Constraint
      else Inr (d\<lparr>db_agents := db_agents d @ [\<lparr>ag_id = i, ag_name = name, ag_role = role, ag_status = ''active'',
                                             ag_created_by = createdBy\<rparr>]\<rparr>))"

fun grant_all :: "access_db \<Rightarrow> string \<Rightarrow> (string \<times> string) list \<Rightarrow> int \<Rightarrow> store_error + access_db" where
  "grant_all d agentID [] now = Inr d"
| "grant_all d agentID ((vaultID, role) # vgs) now =
     (case upsert_grant d \<lparr>gw_actor = agentID, gw_type = ''agent'', gw_vault = vaultID, gw_role = role, gw_at = now\<rparr> of
        Inl e \<Rightarrow> Inl e
      | Inr d' \<Rightarrow> grant_all d' agentID vgs now)"

definition CreateAgentToken :: "(string \<Rightarrow> string) \<Rightarrow> access_db \<Rightarrow> string \<Rightarrow> string \<Rightarrow> int option \<Rightarrow> int
    \<Rightarrow> store_error + access_db" where
  "CreateAgentToken H d rawToken agentID expiresAt now =
     insert_session d ((plain_session (H rawToken) now)\<lparr>sr_agent := Some agentID, sr_expires := expiresAt\<rparr>)"

definition CreateAgentWithGrantsAndToken :: "(string \<Rightarrow> string) \<Rightarrow> access_db \<Rightarrow> string \<Rightarrow> string \<Rightarrow> string \<Rightarrow> string
    \<Rightarrow> (string \<times> string) list \<Rightarrow> string \<Rightarrow> int option \<Rightarrow> int \<Rightarrow> store_error + access_db" where
  "CreateAgentWithGrantsAndToken H d agentID name createdBy role vaultGrants rawToken expiresAt now =
     (case CreateAgent d agentID name createdBy role of
        Inl e \<Rightarrow> Inl e
      | Inr d1 \<Rightarrow>
          (case grant_all d1 agentID vaultGrants now of
             Inl e \<Rightarrow> Inl e
           | Inr d2 \<Rightarrow> CreateAgentToken H d2 rawToken agentID expiresAt now))"

definition agent_sessions :: "string \<Rightarrow> session_row \<Rightarrow> bool" where
  "agent_sessions i s \<longleftrightarrow> sr_agent s = Some i \<or> sr_by s = Some i \<and> sr_by_type s = Some ''agent''"

definition RevokeAgent :: "access_db \<Rightarrow> string \<Rightarrow> store_error + access_db" where
  "RevokeAgent d i =
     (if \<not> list_ex (\<lambda>a. ag_id a = i \<and> ag_status a = ''active'') (db_agents d) then Inl NoRowsErr
      else Inr (delete_sessions (agent_sessions i)
        (d\<lparr>db_agents := map (\<lambda>a. if ag_id a = i \<and> ag_status a = ''active'' then a\<lparr>ag_status := ''revoked''\<rparr> else a)
             (db_agents d)\<rparr>)))"

definition DeleteAgent :: "access_db \<Rightarrow> string \<Rightarrow> store_error + access_db" where
  "DeleteAgent d i =
     (if \<not> agent_exists d i then Inl NoRowsErr
      else Inr (delete_sessions (agent_sessions i)
        (d\<lparr>db_grants := filter (\<lambda>g. \<not> (gw_actor g = i \<and> gw_type g = ''agent'')) (db_grants d),
           db_agents := filter (\<lambda>a. ag_id a \<noteq> i) (db_agents d)\<rparr>)))"

definition RenameAgent :: "access_db \<Rightarrow> string \<Rightarrow> string \<Rightarrow> store_error + access_db" where
  "RenameAgent d i newName =
     (if \<not> agent_exists d i then Inl NoRowsErr
      else if list_ex (\<lambda>a. ag_id a \<noteq> i \<and> ag_name a = newName) (db_agents d) then Inl Constraint
      else Inr (d\<lparr>db_agents := map (\<lambda>a. if ag_id a = i then a\<lparr>ag_name := newName\<rparr> else a) (db_agents d)\<rparr>))"

definition UpdateAgentRole :: "access_db \<Rightarrow> string \<Rightarrow> string \<Rightarrow> store_error + access_db" where
  "UpdateAgentRole d i role =
     (if \<not> agent_exists d i then Inl NoRowsErr
      else if role \<notin> set instance_roles then Inl Constraint
      else Inr (d\<lparr>db_agents := map (\<lambda>a. if ag_id a = i then a\<lparr>ag_role := role\<rparr> else a) (db_agents d)\<rparr>))"

definition CountAgentTokens :: "access_db \<Rightarrow> string \<Rightarrow> int \<Rightarrow> nat" where
  "CountAgentTokens d i now = length (filter (\<lambda>s. sr_agent s = Some i
     \<and> (case sr_expires s of None \<Rightarrow> True | Some t \<Rightarrow> t > now)) (db_sessions d))"

definition GetLatestAgentTokenExpiry :: "access_db \<Rightarrow> string \<Rightarrow> int \<Rightarrow> int option" where
  "GetLatestAgentTokenExpiry d i now =
     (if list_ex (\<lambda>s. sr_agent s = Some i \<and> sr_expires s = None) (db_sessions d) then None
      else (case List.map_filter (\<lambda>s. if sr_agent s = Some i then sr_expires s else None) (db_sessions d) of
              ts \<Rightarrow> (case filter (\<lambda>t. t > now) ts of [] \<Rightarrow> None | u # us \<Rightarrow> Some (foldl max u us))))"

definition DeleteAgentTokens :: "access_db \<Rightarrow> string \<Rightarrow> store_error + access_db" where
  "DeleteAgentTokens d i = Inr (delete_sessions (\<lambda>s. sr_agent s = Some i) d)"

definition RotateAgentToken :: "(string \<Rightarrow> string) \<Rightarrow> access_db \<Rightarrow> string \<Rightarrow> string \<Rightarrow> int option \<Rightarrow> int
    \<Rightarrow> store_error + access_db" where
  "RotateAgentToken H d rawToken i expiresAt now =
     insert_session
       ((delete_sessions (\<lambda>s. sr_agent s = Some i) d)
          \<lparr>db_agents := map (\<lambda>a. if ag_id a = i then a\<lparr>ag_status := ''active''\<rparr> else a) (db_agents d)\<rparr>)
       ((plain_session (H rawToken) now)\<lparr>sr_agent := Some i, sr_expires := expiresAt\<rparr>)"

section \<open>The store as the session resolver sees it\<close>

definition db_view :: "(string \<Rightarrow> string) \<Rightarrow> access_db \<Rightarrow> session_store" where
  "db_view H d = \<lparr>GetSession = store_GetSession H d, GetVault = store_GetVault d, GetVaultByID = store_GetVaultByID d,
     GetVaultRole = store_GetVaultRole d, ListActorGrants = (\<lambda>a. Some (store_ListActorGrants d a))\<rparr>"

lemma db_view_sel [simp]:
  "GetSession (db_view H d) = store_GetSession H d" "GetVault (db_view H d) = store_GetVault d"
  "GetVaultByID (db_view H d) = store_GetVaultByID d" "GetVaultRole (db_view H d) = store_GetVaultRole d"
  "ListActorGrants (db_view H d) = (\<lambda>a. Some (store_ListActorGrants d a))"
  by (simp_all add: db_view_def)

section \<open>Any operation\<close>

datatype access_op =
    OCreateVault string string | OCreateExternalVault string string string string int "string list" string string int | ODeleteVault string | ORenameVault string string | OSetBrokerConfig string string
  | OCreateUser string string string | ORegisterFirstUser string string string int
  | OUpdateUserRole string string | OActivateUser string | ODeleteUser string
  | OGrantVaultRole string string string string int | ORevokeVaultAccess string string
  | OCreateUserSession string string string int int int
  | OCreateScopedSession string string string string "int option" string string int
  | ORevokeScopedSession string string | ORevokeUserSession string string | ODeleteSession string
  | ODeleteUserSessions string | OTouchSession string int
  | OCreateAgent string string string string
  | OCreateAgentWithGrantsAndToken string string string string "(string \<times> string) list" string "int option" int
  | ORevokeAgent string | ODeleteAgent string | ORenameAgent string string | OUpdateAgentRole string string
  | ODeleteAgentTokens string | ORotateAgentToken string string "int option" int
  | OCreateAgentToken string string "int option" int

primrec access_call :: "(string \<Rightarrow> string) \<Rightarrow> access_db \<Rightarrow> access_op \<Rightarrow> store_error + access_db" where
  "access_call H d (OCreateVault i n) = CreateVault d i n"
| "access_call H d (OCreateExternalVault i n k c p ks a ty t) = CreateExternalVault d i n k c p ks a ty t"
| "access_call H d (ODeleteVault n) = DeleteVault d n"
| "access_call H d (ORenameVault a b) = RenameVault d a b"
| "access_call H d (OSetBrokerConfig v j) = SetBrokerConfig d v j"
| "access_call H d (OCreateUser i e r) = CreateUser d i e r"
| "access_call H d (ORegisterFirstUser i e v t) = RegisterFirstUser d i e v t"
| "access_call H d (OUpdateUserRole i r) = UpdateUserRole d i r"
| "access_call H d (OActivateUser i) = ActivateUser d i"
| "access_call H d (ODeleteUser i) = DeleteUser d i"
| "access_call H d (OGrantVaultRole a ty v r t) = GrantVaultRole d a ty v r t"
| "access_call H d (ORevokeVaultAccess a v) = RevokeVaultAccess d a v"
| "access_call H d (OCreateUserSession tok p u e idle t) = CreateUserSession H d tok p u e idle t"
| "access_call H d (OCreateScopedSession tok p v r e b bt t) = CreateScopedSession H d tok p v r e b bt t"
| "access_call H d (ORevokeScopedSession v p) = RevokeScopedSession d v p"
| "access_call H d (ORevokeUserSession u p) = RevokeUserSession d u p"
| "access_call H d (ODeleteSession tok) = DeleteSession H d tok"
| "access_call H d (ODeleteUserSessions u) = DeleteUserSessions d u"
| "access_call H d (OTouchSession tok t) = TouchSession H d tok t"
| "access_call H d (OCreateAgent i n b r) = CreateAgent d i n b r"
| "access_call H d (OCreateAgentWithGrantsAndToken i n b r gs tok e t) = CreateAgentWithGrantsAndToken H d i n b r gs tok e t"
| "access_call H d (ORevokeAgent i) = RevokeAgent d i"
| "access_call H d (ODeleteAgent i) = DeleteAgent d i"
| "access_call H d (ORenameAgent i n) = RenameAgent d i n"
| "access_call H d (OUpdateAgentRole i r) = UpdateAgentRole d i r"
| "access_call H d (ODeleteAgentTokens i) = DeleteAgentTokens d i"
| "access_call H d (ORotateAgentToken tok i e t) = RotateAgentToken H d tok i e t"
| "access_call H d (OCreateAgentToken tok i e t) = CreateAgentToken H d tok i e t"

text \<open>A failed operation leaves the database as it was.\<close>

definition access_exec :: "(string \<Rightarrow> string) \<Rightarrow> access_db \<Rightarrow> access_op \<Rightarrow> access_db" where
  "access_exec H d op = (case access_call H d op of Inl e \<Rightarrow> d | Inr d' \<Rightarrow> d')"

definition access_run :: "(string \<Rightarrow> string) \<Rightarrow> access_db \<Rightarrow> access_op list \<Rightarrow> access_db" where
  "access_run H d ops = foldl (access_exec H) d ops"

section \<open>The invariant of the tables\<close>

text \<open>
  The constraints of the schema, table by table: keys are unique, roles and states are among the
  allowed ones, and every foreign key names a row that exists (the actor of a grant is not one).
\<close>

definition vaults_ok :: "vault list \<Rightarrow> bool" where
  "vaults_ok vs \<longleftrightarrow> distinct (map va_ID vs) \<and> distinct (map va_Name vs)"

definition configs_ok :: "string set \<Rightarrow> (string, string) go_map \<Rightarrow> bool" where
  "configs_ok vids m \<longleftrightarrow> map_ok m \<and> fst ` set m \<subseteq> vids"

definition users_ok :: "user_row list \<Rightarrow> bool" where
  "users_ok us \<longleftrightarrow> distinct (map ur_id us) \<and> distinct (map ur_email us) \<and> ur_role ` set us \<subseteq> set instance_roles"

definition agents_ok :: "agent_row list \<Rightarrow> bool" where
  "agents_ok as \<longleftrightarrow> distinct (map ag_id as) \<and> distinct (map ag_name as) \<and> ag_role ` set as \<subseteq> set instance_roles
     \<and> ag_status ` set as \<subseteq> {''active'', ''revoked''}"

definition grant_key :: "grant_row \<Rightarrow> string \<times> string" where
  "grant_key g = (gw_actor g, gw_vault g)"

definition grants_ok :: "string set \<Rightarrow> grant_row list \<Rightarrow> bool" where
  "grants_ok vids gs \<longleftrightarrow> distinct (map grant_key gs) \<and> gw_type ` set gs \<subseteq> set actor_types
     \<and> gw_role ` set gs \<subseteq> set vault_roles \<and> gw_vault ` set gs \<subseteq> vids"

definition session_refs :: "string set \<Rightarrow> string set \<Rightarrow> string set \<Rightarrow> session_row \<Rightarrow> bool" where
  "session_refs vids uids aids s \<longleftrightarrow> set_option (sr_vault s) \<subseteq> vids \<and> set_option (sr_user s) \<subseteq> uids
     \<and> set_option (sr_agent s) \<subseteq> aids \<and> set_option (sr_role s) \<subseteq> set vault_roles"

definition sessions_ok :: "string set \<Rightarrow> string set \<Rightarrow> string set \<Rightarrow> session_row list \<Rightarrow> bool" where
  "sessions_ok vids uids aids ss \<longleftrightarrow> distinct (map sr_id ss) \<and> (\<forall>s \<in> set ss. session_refs vids uids aids s)"

abbreviation vault_ids :: "access_db \<Rightarrow> string set" where "vault_ids d \<equiv> va_ID ` set (db_vaults d)"
abbreviation user_ids :: "access_db \<Rightarrow> string set" where "user_ids d \<equiv> ur_id ` set (db_users d)"
abbreviation agent_ids :: "access_db \<Rightarrow> string set" where "agent_ids d \<equiv> ag_id ` set (db_agents d)"

definition db_ok :: "access_db \<Rightarrow> bool" where
  "db_ok d \<longleftrightarrow> vaults_ok (db_vaults d) \<and> configs_ok (vault_ids d) (db_configs d) \<and> users_ok (db_users d)
     \<and> agents_ok (db_agents d) \<and> grants_ok (vault_ids d) (db_grants d)
     \<and> sessions_ok (vault_ids d) (user_ids d) (agent_ids d) (db_sessions d)"

lemma exists_ids [simp]:
  "vault_exists d i \<longleftrightarrow> i \<in> vault_ids d" "user_exists d i \<longleftrightarrow> i \<in> user_ids d" "agent_exists d i \<longleftrightarrow> i \<in> agent_ids d"
  by (auto simp: vault_exists_def user_exists_def agent_exists_def list_ex_iff)

text \<open>Table-level facts: growing what may be referred to, dropping rows, replacing rows in place.\<close>

lemma sessions_ok_mono:
  "sessions_ok v u a ss \<Longrightarrow> v \<subseteq> v' \<Longrightarrow> u \<subseteq> u' \<Longrightarrow> a \<subseteq> a' \<Longrightarrow> sessions_ok v' u' a' ss"
  by (fastforce simp: sessions_ok_def session_refs_def)

lemma sessions_ok_filter: "sessions_ok v u a ss \<Longrightarrow> sessions_ok v u a (filter P ss)"
  by (auto simp: sessions_ok_def distinct_map_filter)

lemma sessions_ok_restrict:
  "sessions_ok v u a ss
   \<Longrightarrow> (\<And>s. s \<in> set ss \<Longrightarrow> P s \<Longrightarrow> session_refs v u a s \<Longrightarrow> session_refs v' u' a' s)
   \<Longrightarrow> sessions_ok v' u' a' (filter P ss)"
  by (auto simp: sessions_ok_def distinct_map_filter)

lemma grants_ok_filter: "grants_ok v gs \<Longrightarrow> grants_ok v (filter P gs)"
  by (auto simp: grants_ok_def distinct_map_filter)

lemma grants_ok_mono: "grants_ok v gs \<Longrightarrow> v \<subseteq> v' \<Longrightarrow> grants_ok v' gs"
  by (auto simp: grants_ok_def)

lemma map_keep: "(\<And>x. f (h x) = f x) \<Longrightarrow> map f (map h xs) = map f xs"
  by simp

lemma image_keep: "(\<And>x. f (h x) = f x) \<Longrightarrow> f ` h ` A = f ` A"
  by (simp add: image_image)

lemma distinct_rename:
  assumes "distinct (map k xs)" and "distinct (map f xs)"
    and new: "\<And>x. x \<in> set xs \<Longrightarrow> k x \<noteq> i \<Longrightarrow> f x \<noteq> n" and h: "\<And>x. f (h x) = n"
  shows "distinct (map f (map (\<lambda>x. if k x = i then h x else x) xs))"
proof -
  have "inj_on (\<lambda>x. f (if k x = i then h x else x)) (set xs)"
    using assms unfolding distinct_map inj_on_def by auto
  moreover have "distinct xs" using assms(1) by (simp add: distinct_map)
  ultimately show ?thesis by (simp add: distinct_map comp_def)
qed

section \<open>Every operation preserves it\<close>

lemma no_clash:
  "\<not> list_ex (\<lambda>w. f w = x \<or> g w = y) xs \<longleftrightarrow> x \<notin> f ` set xs \<and> y \<notin> g ` set xs"
  by (auto simp: list_ex_iff)

lemma users_ok_snoc:
  "users_ok us \<Longrightarrow> ur_id u \<notin> ur_id ` set us \<Longrightarrow> ur_email u \<notin> ur_email ` set us \<Longrightarrow> ur_role u \<in> set instance_roles
   \<Longrightarrow> users_ok (us @ [u])"
  by (simp add: users_ok_def)

lemma agents_ok_snoc:
  "agents_ok as \<Longrightarrow> ag_id a \<notin> ag_id ` set as \<Longrightarrow> ag_name a \<notin> ag_name ` set as \<Longrightarrow> ag_role a \<in> set instance_roles
   \<Longrightarrow> ag_status a = ''active'' \<Longrightarrow> agents_ok (as @ [a])"
  by (simp add: agents_ok_def)

lemma insert_user_ok:
  assumes ok: "db_ok d" and i: "insert_user d u = Inr d'"
  shows "db_ok d'"
proof -
  from i have "ur_id u \<notin> user_ids d" "ur_email u \<notin> ur_email ` set (db_users d)" "ur_role u \<in> set instance_roles"
    and eq: "d' = d\<lparr>db_users := db_users d @ [u]\<rparr>"
    by (auto simp: insert_user_def no_clash split: if_splits)
  with ok have "users_ok (db_users d')" by (simp add: db_ok_def users_ok_snoc)
  with ok show ?thesis by (auto simp: db_ok_def eq intro: sessions_ok_mono)
qed

lemma upsert_grant_ok:
  assumes ok: "db_ok d" and g: "upsert_grant d g = Inr d'"
  shows "db_ok d'"
proof -
  let ?h = "\<lambda>x. if gw_actor x = gw_actor g \<and> gw_vault x = gw_vault g then x\<lparr>gw_role := gw_role g\<rparr> else x"
  from g have new: "gw_type g \<in> set actor_types" "gw_role g \<in> set vault_roles" "gw_vault g \<in> vault_ids d"
    by (auto simp: upsert_grant_def split: if_splits)
  have old: "grants_ok (vault_ids d) (db_grants d)" using ok by (simp add: db_ok_def)
  consider (update) "d' = d\<lparr>db_grants := map ?h (db_grants d)\<rparr>"
    | (add) "grant_key g \<notin> grant_key ` set (db_grants d)" "d' = d\<lparr>db_grants := db_grants d @ [g]\<rparr>"
  proof (cases "list_ex (\<lambda>x. gw_actor x = gw_actor g \<and> gw_vault x = gw_vault g) (db_grants d)")
    case True
    with g show ?thesis by (intro update) (simp add: upsert_grant_def split: if_splits)
  next
    case False
    moreover from False have "grant_key g \<notin> grant_key ` set (db_grants d)"
      by (auto simp: list_ex_iff grant_key_def)
    ultimately show ?thesis using g by (intro add) (simp_all add: upsert_grant_def split: if_splits)
  qed
  then show ?thesis
  proof cases
    case update
    have "map grant_key (map ?h (db_grants d)) = map grant_key (db_grants d)"
      by (rule map_keep) (simp add: grant_key_def)
    with old new have "grants_ok (vault_ids d) (map ?h (db_grants d))"
      unfolding grants_ok_def by (auto simp: image_iff simp del: map_map)
    with ok update show ?thesis by (simp add: db_ok_def)
  next
    case add
    with old new have "grants_ok (vault_ids d) (db_grants d @ [g])" by (auto simp: grants_ok_def)
    with ok add show ?thesis by (simp add: db_ok_def)
  qed
qed

lemma case_ref: "(case x of None \<Rightarrow> False | Some i \<Rightarrow> i \<notin> A) \<longleftrightarrow> \<not> set_option x \<subseteq> A"
  by (cases x) auto

lemma insert_session_Inr:
  assumes "insert_session d s = Inr d'"
  shows "d' = d\<lparr>db_sessions := db_sessions d @ [s]\<rparr>" "sr_id s \<notin> sr_id ` set (db_sessions d)"
    "session_refs (vault_ids d) (user_ids d) (agent_ids d) s"
proof -
  from assms have "\<not> list_ex (\<lambda>x. sr_id x = sr_id s \<or> sr_public s \<noteq> None \<and> sr_public x = sr_public s) (db_sessions d)"
    by (auto simp: insert_session_def split: if_splits)
  then show "sr_id s \<notin> sr_id ` set (db_sessions d)" by (force simp: list_ex_iff)
  show "d' = d\<lparr>db_sessions := db_sessions d @ [s]\<rparr>" "session_refs (vault_ids d) (user_ids d) (agent_ids d) s"
    using assms unfolding insert_session_def exists_ids case_ref session_refs_def by (simp_all split: if_splits)
qed

lemma insert_session_ok: "db_ok d \<Longrightarrow> insert_session d s = Inr d' \<Longrightarrow> db_ok d'"
  using insert_session_Inr [of d s d'] by (simp add: db_ok_def sessions_ok_def)

lemma delete_sessions_ok: "db_ok d \<Longrightarrow> db_ok (delete_sessions P d)"
  by (simp add: delete_sessions_def db_ok_def sessions_ok_filter)

lemma delete_some_ok: "db_ok d \<Longrightarrow> delete_some_session P d = Inr d' \<Longrightarrow> db_ok d'"
  by (auto simp: delete_some_session_def delete_sessions_ok split: if_splits)

lemma configs_ok_put: "configs_ok v m \<Longrightarrow> v \<subseteq> v' \<Longrightarrow> i \<in> v' \<Longrightarrow> configs_ok v' (map_put i j m)"
  using arg_cong [OF keys_map_put [of i j m], of set] by (auto simp: configs_ok_def map_ok_put split: if_splits)

lemma CreateVault_ok:
  assumes ok: "db_ok d" and c: "CreateVault d i n = Inr d'"
  shows "db_ok d'"
proof -
  from c have "i \<notin> vault_ids d" "n \<notin> va_Name ` set (db_vaults d)"
    and eq: "d' = d\<lparr>db_vaults := db_vaults d @ [\<lparr>va_ID = i, va_Name = n\<rparr>], db_configs := map_put i ''[]'' (db_configs d)\<rparr>"
    by (auto simp: CreateVault_def no_clash split: if_splits)
  then have v: "vaults_ok (db_vaults d')" using ok by (simp add: db_ok_def vaults_ok_def)
  have grow: "vault_ids d \<subseteq> vault_ids d'" "i \<in> vault_ids d'" by (auto simp: eq)
  have "configs_ok (vault_ids d') (db_configs d')"
    using ok grow by (simp add: eq db_ok_def configs_ok_put [of "vault_ids d"])
  moreover have "grants_ok (vault_ids d') (db_grants d)" using ok grow(1) by (auto simp: db_ok_def intro: grants_ok_mono)
  moreover have "sessions_ok (vault_ids d') (user_ids d) (agent_ids d) (db_sessions d)"
    using ok grow(1) by (auto simp: db_ok_def intro: sessions_ok_mono)
  ultimately show ?thesis using ok v unfolding db_ok_def by (simp add: eq)
qed

lemma find_SomeD: "find P xs = Some x \<Longrightarrow> x \<in> set xs \<and> P x"
  by (metis find_Some_iff nth_mem)

lemma DeleteVault_ok:
  assumes ok: "db_ok d" and d': "DeleteVault d n = Inr d'"
  shows "db_ok d'"
proof -
  from d' obtain i where
    eq: "d' = d\<lparr>db_sessions := filter (\<lambda>s. sr_vault s \<noteq> Some i) (db_sessions d),
                    db_vaults := filter (\<lambda>w. va_ID w \<noteq> i) (db_vaults d),
                    db_grants := filter (\<lambda>g. gw_vault g \<noteq> i) (db_grants d),
                    db_configs := map_del i (db_configs d)\<rparr>"
    by (auto simp: DeleteVault_def split: option.splits)
  have ids: "vault_ids d' = vault_ids d - {i}" by (auto simp: eq)
  have "sessions_ok (vault_ids d') (user_ids d) (agent_ids d) (db_sessions d')"
    unfolding ids unfolding eq using ok
    by (auto simp: db_ok_def session_refs_def
          intro!: sessions_ok_restrict [where v = "vault_ids d" and u = "user_ids d" and a = "agent_ids d"])
  moreover have "grants_ok (vault_ids d') (db_grants d')"
    using ok unfolding ids by (auto simp: eq db_ok_def grants_ok_def distinct_map_filter)
  moreover have "configs_ok (vault_ids d') (db_configs d')"
    using ok unfolding ids by (auto simp: eq db_ok_def configs_ok_def map_ok_filter map_del_def)
  moreover have "vaults_ok (db_vaults d')" "users_ok (db_users d')" "agents_ok (db_agents d')"
    "db_users d' = db_users d" "db_agents d' = db_agents d"
    using ok by (auto simp: eq db_ok_def vaults_ok_def distinct_map_filter)
  ultimately show ?thesis by (simp add: db_ok_def)
qed

lemma RenameVault_ok:
  assumes ok: "db_ok d" and d': "RenameVault d a b = Inr d'"
  shows "db_ok d'"
proof -
  from d' obtain v where gv: "store_GetVault d a = Some v"
    by (auto simp: RenameVault_def split: option.splits)
  let ?h = "\<lambda>w. if va_ID w = va_ID v then w\<lparr>va_Name := b\<rparr> else w"
  from d' gv have free: "\<And>w. w \<in> set (db_vaults d) \<Longrightarrow> va_ID w \<noteq> va_ID v \<Longrightarrow> va_Name w \<noteq> b"
    and eq: "d' = d\<lparr>db_vaults := map ?h (db_vaults d)\<rparr>"
    by (auto simp: RenameVault_def list_ex_iff split: if_splits)
  have ids: "map va_ID (map ?h (db_vaults d)) = map va_ID (db_vaults d)" by (rule map_keep) simp
  have "distinct (map va_Name (map ?h (db_vaults d)))"
    using ok free by (intro distinct_rename [where n = b]) (simp_all add: db_ok_def vaults_ok_def)
  with ok ids have "vaults_ok (db_vaults d')" by (simp add: eq db_ok_def vaults_ok_def del: map_map)
  moreover have "vault_ids d' = vault_ids d" using arg_cong [OF ids, of set] by (simp add: eq del: map_map)
  ultimately show ?thesis using ok unfolding db_ok_def by (simp add: eq)
qed

lemma replace_user_ok:
  assumes ok: "db_ok d" and h: "\<And>u. ur_id (h u) = ur_id u" "\<And>u. ur_email (h u) = ur_email u"
    and r: "\<And>u. u \<in> set (db_users d) \<Longrightarrow> ur_role (h u) \<in> set instance_roles"
  shows "db_ok (d\<lparr>db_users := map h (db_users d)\<rparr>)"
proof -
  have "map ur_id (map h (db_users d)) = map ur_id (db_users d)" "map ur_email (map h (db_users d)) = map ur_email (db_users d)"
    by (simp_all add: h)
  with ok r have "users_ok (map h (db_users d))" by (auto simp: db_ok_def users_ok_def simp del: map_map)
  moreover have "ur_id ` set (map h (db_users d)) = user_ids d" by (simp add: image_image h)
  ultimately show ?thesis using ok by (simp add: db_ok_def)
qed

lemma replace_agent_ok:
  assumes ok: "db_ok d" and h: "\<And>a. ag_id (h a) = ag_id a" and n: "distinct (map ag_name (map h (db_agents d)))"
    and r: "\<And>a. a \<in> set (db_agents d) \<Longrightarrow> ag_role (h a) \<in> set instance_roles \<and> ag_status (h a) \<in> {''active'', ''revoked''}"
  shows "db_ok (d\<lparr>db_agents := map h (db_agents d)\<rparr>)"
proof -
  have "map ag_id (map h (db_agents d)) = map ag_id (db_agents d)" by (simp add: h)
  with ok n r have "agents_ok (map h (db_agents d))" by (auto simp: db_ok_def agents_ok_def simp del: map_map)
  moreover have "ag_id ` set (map h (db_agents d)) = agent_ids d" by (simp add: image_image h)
  ultimately show ?thesis using ok by (simp add: db_ok_def)
qed

lemma DeleteUser_ok:
  assumes ok: "db_ok d" and d': "DeleteUser d i = Inr d'"
  shows "db_ok d'"
proof -
  let ?P = "\<lambda>s. sr_user s \<noteq> Some i \<and> \<not> (sr_by s = Some i \<and> sr_by_type s = Some ''user'')"
  from d' have eq: "d' = d\<lparr>db_users := filter (\<lambda>u. ur_id u \<noteq> i) (db_users d),
      db_grants := filter (\<lambda>g. gw_actor g \<noteq> i) (db_grants d), db_sessions := filter ?P (db_sessions d)\<rparr>"
    by (simp add: DeleteUser_def split: if_splits)
  have ids: "user_ids d' = user_ids d - {i}" by (auto simp: eq)
  have "sessions_ok (vault_ids d) (user_ids d - {i}) (agent_ids d) (filter ?P (db_sessions d))"
    using ok by (auto simp: db_ok_def session_refs_def
          intro!: sessions_ok_restrict [where v = "vault_ids d" and u = "user_ids d" and a = "agent_ids d"])
  moreover have "users_ok (filter (\<lambda>u. ur_id u \<noteq> i) (db_users d))"
    using ok by (auto simp: db_ok_def users_ok_def distinct_map_filter)
  ultimately show ?thesis using ok unfolding db_ok_def ids unfolding eq by (simp add: grants_ok_filter)
qed

lemma delete_agent_rows_ok:
  assumes ok: "db_ok d" and none: "\<And>s. s \<in> set (db_sessions d) \<Longrightarrow> sr_agent s \<noteq> Some i"
  shows "db_ok (d\<lparr>db_grants := filter P (db_grants d), db_agents := filter (\<lambda>a. ag_id a \<noteq> i) (db_agents d)\<rparr>)"
proof -
  have "ag_id ` set (filter (\<lambda>a. ag_id a \<noteq> i) (db_agents d)) = agent_ids d - {i}" by auto
  moreover have "sessions_ok (vault_ids d) (user_ids d) (agent_ids d - {i}) (db_sessions d)"
    using ok none by (fastforce simp: db_ok_def sessions_ok_def session_refs_def)
  moreover have "agents_ok (filter (\<lambda>a. ag_id a \<noteq> i) (db_agents d))"
    using ok by (auto simp: db_ok_def agents_ok_def distinct_map_filter)
  ultimately show ?thesis using ok by (simp add: db_ok_def grants_ok_filter)
qed

lemma DeleteAgent_ok:
  assumes ok: "db_ok d" and d': "DeleteAgent d i = Inr d'"
  shows "db_ok d'"
proof -
  let ?e = "delete_sessions (agent_sessions i) d"
  have "db_ok (?e\<lparr>db_grants := filter (\<lambda>g. \<not> (gw_actor g = i \<and> gw_type g = ''agent'')) (db_grants ?e),
      db_agents := filter (\<lambda>a. ag_id a \<noteq> i) (db_agents ?e)\<rparr>)"
    using delete_sessions_ok [OF ok] by (rule delete_agent_rows_ok) (auto simp: delete_sessions_def agent_sessions_def)
  moreover have "d' = ?e\<lparr>db_grants := filter (\<lambda>g. \<not> (gw_actor g = i \<and> gw_type g = ''agent'')) (db_grants ?e),
      db_agents := filter (\<lambda>a. ag_id a \<noteq> i) (db_agents ?e)\<rparr>"
    using d' by (intro access_db.equality) (auto simp: DeleteAgent_def delete_sessions_def split: if_splits)
  ultimately show ?thesis by simp
qed

lemma CreateAgent_ok:
  assumes ok: "db_ok d" and c: "CreateAgent d i n b r = Inr d'"
  shows "db_ok d'"
proof -
  let ?a = "\<lparr>ag_id = i, ag_name = n, ag_role = r, ag_status = ''active'', ag_created_by = b\<rparr>"
  from c have new: "i \<notin> agent_ids d" "n \<notin> ag_name ` set (db_agents d)" "r \<in> set instance_roles"
    and eq: "d' = d\<lparr>db_agents := db_agents d @ [?a]\<rparr>"
    by (auto simp: CreateAgent_def no_clash split: if_splits)
  have "agents_ok (db_agents d @ [?a])" using ok new by (intro agents_ok_snoc) (simp_all add: db_ok_def)
  with ok show ?thesis by (auto simp: db_ok_def eq intro: sessions_ok_mono)
qed

lemma keep_names: "db_ok d \<Longrightarrow> (\<And>a. ag_name (h a) = ag_name a) \<Longrightarrow> distinct (map ag_name (map h (db_agents d)))"
  by (simp add: db_ok_def agents_ok_def comp_def)

lemma agent_row_ok: "db_ok d \<Longrightarrow> a \<in> set (db_agents d)
  \<Longrightarrow> ag_role a \<in> set instance_roles \<and> ag_status a \<in> {''active'', ''revoked''}"
  by (auto simp: db_ok_def agents_ok_def)

lemma user_row_ok: "db_ok d \<Longrightarrow> u \<in> set (db_users d) \<Longrightarrow> ur_role u \<in> set instance_roles"
  by (auto simp: db_ok_def users_ok_def)

lemma grant_all_ok: "db_ok d \<Longrightarrow> grant_all d i gs t = Inr d' \<Longrightarrow> db_ok d'"
  by (induction d i gs t rule: grant_all.induct) (auto split: sum.splits intro: upsert_grant_ok)

lemma agent_ops_ok:
  assumes ok: "db_ok d"
  shows "RevokeAgent d i = Inr d' \<Longrightarrow> db_ok d'" "RenameAgent d i n = Inr d' \<Longrightarrow> db_ok d'"
    "UpdateAgentRole d i r = Inr d' \<Longrightarrow> db_ok d'" "RotateAgentToken H d tok i e t = Inr d' \<Longrightarrow> db_ok d'"
proof -
  have "db_ok (d\<lparr>db_agents := map (\<lambda>a. if ag_id a = i \<and> ag_status a = ''active'' then a\<lparr>ag_status := ''revoked''\<rparr> else a) (db_agents d)\<rparr>)"
    by (rule replace_agent_ok [OF ok _ keep_names [OF ok]]) (auto dest: agent_row_ok [OF ok])
  then show "RevokeAgent d i = Inr d' \<Longrightarrow> db_ok d'"
    by (auto simp: RevokeAgent_def delete_sessions_ok split: if_splits)
  show "RenameAgent d i n = Inr d' \<Longrightarrow> db_ok d'"
  proof -
    assume r: "RenameAgent d i n = Inr d'"
    then have free: "\<And>a. a \<in> set (db_agents d) \<Longrightarrow> ag_id a \<noteq> i \<Longrightarrow> ag_name a \<noteq> n"
      and eq: "d' = d\<lparr>db_agents := map (\<lambda>a. if ag_id a = i then a\<lparr>ag_name := n\<rparr> else a) (db_agents d)\<rparr>"
      by (auto simp: RenameAgent_def list_ex_iff split: if_splits)
    have "distinct (map ag_name (map (\<lambda>a. if ag_id a = i then a\<lparr>ag_name := n\<rparr> else a) (db_agents d)))"
      using ok free by (intro distinct_rename [where n = n]) (simp_all add: db_ok_def agents_ok_def)
    then show "db_ok d'" unfolding eq using agent_row_ok [OF ok] by (intro replace_agent_ok [OF ok]) auto
  qed
  show "UpdateAgentRole d i r = Inr d' \<Longrightarrow> db_ok d'"
  proof -
    assume u: "UpdateAgentRole d i r = Inr d'"
    then have r: "r \<in> set instance_roles"
      and eq: "d' = d\<lparr>db_agents := map (\<lambda>a. if ag_id a = i then a\<lparr>ag_role := r\<rparr> else a) (db_agents d)\<rparr>"
      by (auto simp: UpdateAgentRole_def split: if_splits)
    show "db_ok d'" unfolding eq
      by (rule replace_agent_ok [OF ok _ keep_names [OF ok]]) (auto simp: r dest: agent_row_ok [OF ok])
  qed
  let ?d = "delete_sessions (\<lambda>s. sr_agent s = Some i) d"
  have ok': "db_ok ?d" using ok by (rule delete_sessions_ok)
  have "db_ok (?d\<lparr>db_agents := map (\<lambda>a. if ag_id a = i then a\<lparr>ag_status := ''active''\<rparr> else a) (db_agents ?d)\<rparr>)"
    by (rule replace_agent_ok [OF ok' _ keep_names [OF ok']]) (use agent_row_ok [OF ok'] in \<open>auto split: if_splits\<close>)
  then have "db_ok (?d\<lparr>db_agents := map (\<lambda>a. if ag_id a = i then a\<lparr>ag_status := ''active''\<rparr> else a) (db_agents d)\<rparr>)"
    by (simp add: delete_sessions_def)
  then show "RotateAgentToken H d tok i e t = Inr d' \<Longrightarrow> db_ok d'"
    unfolding RotateAgentToken_def by (rule insert_session_ok)
qed

lemma user_ops_ok:
  assumes ok: "db_ok d"
  shows "UpdateUserRole d i r = Inr d' \<Longrightarrow> db_ok d'" "ActivateUser d i = Inr d' \<Longrightarrow> db_ok d'"
    "RegisterFirstUser d i em v t = Inr d' \<Longrightarrow> db_ok d'"
proof -
  show "UpdateUserRole d i r = Inr d' \<Longrightarrow> db_ok d'"
    by (auto simp: UpdateUserRole_def intro!: replace_user_ok [OF ok] dest: user_row_ok [OF ok] split: if_splits)
  show "ActivateUser d i = Inr d' \<Longrightarrow> db_ok d'"
    by (auto simp: ActivateUser_def intro!: replace_user_ok [OF ok] dest: user_row_ok [OF ok] split: if_splits)
  show "RegisterFirstUser d i em v t = Inr d' \<Longrightarrow> db_ok d'"
    by (auto simp: RegisterFirstUser_def intro: insert_user_ok [OF ok] upsert_grant_ok dest: insert_user_ok [OF ok]
          split: if_splits sum.splits)
qed

lemma SetBrokerConfig_ok: "db_ok d \<Longrightarrow> SetBrokerConfig d v j = Inr d' \<Longrightarrow> db_ok d'"
  using configs_ok_put [of "vault_ids d" "db_configs d" "vault_ids d" v j]
  by (auto simp: SetBrokerConfig_def db_ok_def split: if_splits)

lemma RevokeVaultAccess_ok: "db_ok d \<Longrightarrow> RevokeVaultAccess d a v = Inr d' \<Longrightarrow> db_ok d'"
  by (auto simp: RevokeVaultAccess_def db_ok_def intro: grants_ok_filter split: option.splits)

lemma TouchSession_ok:
  assumes ok: "db_ok d" and t: "TouchSession H d tok now = Inr d'"
  shows "db_ok d'"
proof -
  have keys: "map sr_id (map (\<lambda>s. if P s then s\<lparr>sr_used := Some now\<rparr> else s) xs) = map sr_id xs" for P xs
    by (rule map_keep) simp
  have "sessions_ok v u a (map (\<lambda>s. if P s then s\<lparr>sr_used := Some now\<rparr> else s) ss)"
    if ss: "sessions_ok v u a ss" for v u a ss P
    using ss unfolding sessions_ok_def keys by (auto simp: session_refs_def)
  with ok t show ?thesis by (auto simp: TouchSession_def db_ok_def)
qed

lemma inserting_ops_ok:
  assumes ok: "db_ok d"
  shows "CreateUser d i em r = Inr d' \<Longrightarrow> db_ok d'" "GrantVaultRole d a ty v r t = Inr d' \<Longrightarrow> db_ok d'"
    "CreateUserSession H d tok p u e idle t = Inr d' \<Longrightarrow> db_ok d'"
    "CreateScopedSession H d tok p v r x b bt t = Inr d' \<Longrightarrow> db_ok d'"
    "CreateAgentToken H d tok i x t = Inr d' \<Longrightarrow> db_ok d'"
  using insert_user_ok [OF ok] upsert_grant_ok [OF ok] insert_session_ok [OF ok]
  by (simp_all add: CreateUser_def GrantVaultRole_def CreateUserSession_def CreateScopedSession_def
        CreateAgentToken_def split: if_splits)

lemma deleting_ops_ok:
  assumes ok: "db_ok d"
  shows "RevokeScopedSession d v p = Inr d' \<Longrightarrow> db_ok d'" "RevokeUserSession d u p = Inr d' \<Longrightarrow> db_ok d'"
    "DeleteSession H d tok = Inr d' \<Longrightarrow> db_ok d'" "DeleteUserSessions d u = Inr d' \<Longrightarrow> db_ok d'"
    "DeleteAgentTokens d i = Inr d' \<Longrightarrow> db_ok d'"
  using delete_some_ok [OF ok] delete_sessions_ok [OF ok]
  by (auto simp: RevokeScopedSession_def RevokeUserSession_def DeleteSession_def DeleteUserSessions_def
        DeleteAgentTokens_def split: if_splits)

lemma CreateAgentWithGrantsAndToken_ok:
  assumes ok: "db_ok d" and c: "CreateAgentWithGrantsAndToken H d i n b r gs tok e t = Inr d'"
  shows "db_ok d'"
proof -
  from c obtain d1 d2 where "CreateAgent d i n b r = Inr d1" "grant_all d1 i gs t = Inr d2"
    "CreateAgentToken H d2 tok i e t = Inr d'"
    unfolding CreateAgentWithGrantsAndToken_def by (auto split: sum.splits)
  with ok show ?thesis by (meson CreateAgent_ok grant_all_ok inserting_ops_ok(5))
qed

lemma CreateExternalVault_ok:
  assumes ok: "db_ok d" and c: "CreateExternalVault d i n k j p ks a ty t = Inr d'"
  shows "db_ok d'"
proof -
  from c obtain d1 where d1: "CreateVault d i n = Inr d1"
    "upsert_grant d1 \<lparr>gw_actor = a, gw_type = ty, gw_vault = i, gw_role = ''admin'', gw_at = t\<rparr> = Inr d'"
    unfolding CreateExternalVault_def by (auto split: if_splits sum.splits)
  from upsert_grant_ok [OF CreateVault_ok [OF ok d1(1)] d1(2)] show ?thesis .
qed

lemmas access_op_ok = CreateVault_ok CreateExternalVault_ok DeleteVault_ok RenameVault_ok SetBrokerConfig_ok user_ops_ok DeleteUser_ok
  RevokeVaultAccess_ok TouchSession_ok CreateAgent_ok agent_ops_ok DeleteAgent_ok inserting_ops_ok deleting_ops_ok
  CreateAgentWithGrantsAndToken_ok

lemma access_call_ok:
  assumes "db_ok d" and "access_call H d op = Inr d'"
  shows "db_ok d'"
  using assms by (cases op) (simp only: access_call.simps, rule access_op_ok, assumption, assumption)+

lemma access_exec_ok: "db_ok d \<Longrightarrow> db_ok (access_exec H d op)"
  by (auto simp: access_exec_def intro: access_call_ok split: sum.splits)

lemma access_run_ok: "db_ok d \<Longrightarrow> db_ok (access_run H d ops)"
  unfolding access_run_def by (induction ops arbitrary: d) (simp_all add: access_exec_ok)

lemma empty_db_ok: "db_ok empty_db"
  by (simp add: empty_db_def db_ok_def vaults_ok_def configs_ok_def users_ok_def agents_ok_def grants_ok_def sessions_ok_def)

section \<open>The tables keep the promises of a session store\<close>

lemma find_unique:
  assumes "distinct (map k xs)" and "x \<in> set xs"
  shows "find (\<lambda>y. k y = k x) xs = Some x"
  using assms by (induction xs) (auto simp: image_iff)

lemma join_grantsD:
  assumes "g \<in> set (join_grants d gs)"
  shows "\<exists>r v. r \<in> set gs \<and> v \<in> set (db_vaults d) \<and> va_ID v = gw_vault r \<and> gr_VaultID g = gw_vault r
    \<and> gr_VaultName g = va_Name v \<and> gr_Role g = gw_role r"
  using assms by (force simp: join_grants_def)

lemma grant_of_row:
  assumes "db_ok d" and "r \<in> set (db_grants d)"
  shows "grant_of d (gw_actor r) (gw_vault r) = Some r"
  using find_unique [of grant_key "db_grants d" r] assms
  by (simp add: grant_of_def grant_key_def db_ok_def grants_ok_def)

lemma vault_row_by_id: "db_ok d \<Longrightarrow> v \<in> set (db_vaults d) \<Longrightarrow> store_GetVaultByID d (va_ID v) = Some v"
  using find_unique [of va_ID "db_vaults d" v] by (simp add: store_GetVaultByID_def db_ok_def vaults_ok_def)

interpretation acc: session_backend "db_view H" db_ok for H
proof unfold_locales
  fix d i v assume "db_ok d" "GetVaultByID (db_view H d) i = Some v"
  then show "va_ID v = i" by (auto simp: db_view_def store_GetVaultByID_def dest: find_SomeD)
next
  fix d n v assume ok: "db_ok d" and "GetVault (db_view H d) n = Some v"
  then have "v \<in> set (db_vaults d)" "va_Name v = n" by (auto simp: db_view_def store_GetVault_def dest: find_SomeD)
  with ok show "va_Name v = n \<and> GetVaultByID (db_view H d) (va_ID v) = Some v"
    by (simp add: db_view_def vault_row_by_id)
next
  fix d a gs g assume ok: "db_ok d" and "ListActorGrants (db_view H d) a = Some gs" "g \<in> set gs"
  then obtain r v where r: "r \<in> set (db_grants d)" "gw_actor r = a" "v \<in> set (db_vaults d)" "va_ID v = gw_vault r"
    "gr_VaultID g = gw_vault r" "gr_VaultName g = va_Name v" "gr_Role g = gw_role r"
    using join_grantsD [of g d "filter (\<lambda>g. gw_actor g = a) (db_grants d)"]
    by (auto simp: db_view_def store_ListActorGrants_def)
  with grant_of_row [OF ok r(1)] vault_row_by_id [OF ok r(3)]
  show "GetVaultRole (db_view H d) a (gr_VaultID g) = Some (gr_Role g)
    \<and> (\<exists>v. GetVaultByID (db_view H d) (gr_VaultID g) = Some v \<and> va_Name v = gr_VaultName g)"
    by (simp add: db_view_def store_GetVaultRole_def)
qed

end
