(* ===== verification/Scopes.thy ===== *)
theory Scopes
  imports AccessStore
begin

text \<open>
  Sessions and the access tables together: what a resolved scope says about the database it was
  resolved against, how long a revocation lasts, and which tokens a revoked grant leaves behind.
\<close>

section \<open>Sessions that are gone stay gone\<close>

text \<open>The sessions an operation may add, given by the row it inserts.\<close>

primrec new_session :: "(string \<Rightarrow> string) \<Rightarrow> access_op \<Rightarrow> session_row option" where
  "new_session H (OCreateVault i n) = None"
| "new_session H (OCreateExternalVault i n k c p ks a ty t) = None"
| "new_session H (ODeleteVault n) = None"
| "new_session H (ORenameVault a b) = None"
| "new_session H (OSetBrokerConfig v j) = None"
| "new_session H (OCreateUser i e r) = None"
| "new_session H (ORegisterFirstUser i e v t) = None"
| "new_session H (OUpdateUserRole i r) = None"
| "new_session H (OActivateUser i) = None"
| "new_session H (ODeleteUser i) = None"
| "new_session H (OGrantVaultRole a ty v r t) = None"
| "new_session H (ORevokeVaultAccess a v) = None"
| "new_session H (OCreateUserSession tok p u e idle t) = Some ((plain_session (H tok) t)\<lparr>sr_user := Some u,
     sr_expires := Some e, sr_used := Some t, sr_idle := (if idle > 0 then Some (idle div 1000000000) else None), sr_public := Some p\<rparr>)"
| "new_session H (OCreateScopedSession tok p v r e b bt t) = Some ((plain_session (H tok) t)\<lparr>sr_vault := Some v,
     sr_role := Some r, sr_expires := e, sr_public := Some p, sr_by := nullableString b, sr_by_type := nullableString bt\<rparr>)"
| "new_session H (ORevokeScopedSession v p) = None"
| "new_session H (ORevokeUserSession u p) = None"
| "new_session H (ODeleteSession tok) = None"
| "new_session H (ODeleteUserSessions u) = None"
| "new_session H (OTouchSession tok t) = None"
| "new_session H (OCreateAgent i n b r) = None"
| "new_session H (OCreateAgentWithGrantsAndToken i n b r gs tok e t) =
     Some ((plain_session (H tok) t)\<lparr>sr_agent := Some i, sr_expires := e\<rparr>)"
| "new_session H (ORevokeAgent i) = None"
| "new_session H (ODeleteAgent i) = None"
| "new_session H (ORenameAgent i n) = None"
| "new_session H (OUpdateAgentRole i r) = None"
| "new_session H (ODeleteAgentTokens i) = None"
| "new_session H (ORotateAgentToken tok i e t) = Some ((plain_session (H tok) t)\<lparr>sr_agent := Some i, sr_expires := e\<rparr>)"
| "new_session H (OCreateAgentToken tok i e t) = Some ((plain_session (H tok) t)\<lparr>sr_agent := Some i, sr_expires := e\<rparr>)"

text \<open>A property of rows that the time of the last use does not matter for.\<close>

definition untouched :: "(session_row \<Rightarrow> bool) \<Rightarrow> bool" where
  "untouched Q \<longleftrightarrow> (\<forall>s u. Q (s\<lparr>sr_used := u\<rparr>) = Q s)"

lemma grant_frames:
  "insert_user d u = Inr d' \<Longrightarrow> db_sessions d' = db_sessions d"
  "upsert_grant d g = Inr d' \<Longrightarrow> db_sessions d' = db_sessions d"
  by (auto simp: insert_user_def upsert_grant_def split: if_splits)

lemma grant_all_frame: "grant_all d i gs t = Inr d' \<Longrightarrow> db_sessions d' = db_sessions d"
  by (induction d i gs t rule: grant_all.induct) (auto dest: grant_frames(2) split: sum.splits)

lemma CreateAgent_frame: "CreateAgent d i n b r = Inr d' \<Longrightarrow> db_sessions d' = db_sessions d"
  by (auto simp: CreateAgent_def split: if_splits)

lemma RegisterFirstUser_frame: "RegisterFirstUser d i e v t = Inr d' \<Longrightarrow> db_sessions d' = db_sessions d"
  by (auto simp: RegisterFirstUser_def dest!: grant_frames split: if_splits sum.splits)

lemma CreateAgentWithGrantsAndToken_sessions:
  assumes "CreateAgentWithGrantsAndToken H d i n b r gs tok e t = Inr d'"
  shows "db_sessions d' = db_sessions d @ [(plain_session (H tok) t)\<lparr>sr_agent := Some i, sr_expires := e\<rparr>]"
proof -
  from assms obtain d1 d2 where "CreateAgent d i n b r = Inr d1" "grant_all d1 i gs t = Inr d2"
    "insert_session d2 ((plain_session (H tok) t)\<lparr>sr_agent := Some i, sr_expires := e\<rparr>) = Inr d'"
    unfolding CreateAgentWithGrantsAndToken_def CreateAgentToken_def by (auto split: sum.splits)
  note c = this
  from insert_session_Inr(1) [OF c(3)] grant_all_frame [OF c(2)] CreateAgent_frame [OF c(1)] show ?thesis by simp
qed

lemma insert_sessions: "insert_session d s = Inr d' \<Longrightarrow> set (db_sessions d') = insert s (set (db_sessions d))"
  by (drule insert_session_Inr(1)) simp

lemma RotateAgentToken_sessions:
  "RotateAgentToken H d tok i e t = Inr d'
   \<Longrightarrow> set (db_sessions d') \<subseteq> insert ((plain_session (H tok) t)\<lparr>sr_agent := Some i, sr_expires := e\<rparr>) (set (db_sessions d))"
  unfolding RotateAgentToken_def by (auto dest!: insert_sessions simp: delete_sessions_def)

text \<open>Every other operation only drops sessions or leaves them alone.\<close>

lemma CreateVault_frame: "CreateVault d i n = Inr d' \<Longrightarrow> db_sessions d' = db_sessions d"
  by (auto simp: CreateVault_def split: if_splits)

lemma CreateExternalVault_frame: "CreateExternalVault d i n k c p ks a ty t = Inr d' \<Longrightarrow> db_sessions d' = db_sessions d"
  by (auto simp: CreateExternalVault_def dest!: grant_frames CreateVault_frame split: if_splits sum.splits)

lemma plain_frames:
  "CreateVault d i n = Inr d' \<Longrightarrow> set (db_sessions d') \<subseteq> set (db_sessions d)"
  "CreateExternalVault d i n k c p ks a ty t = Inr d' \<Longrightarrow> set (db_sessions d') \<subseteq> set (db_sessions d)"
  "DeleteVault d n = Inr d' \<Longrightarrow> set (db_sessions d') \<subseteq> set (db_sessions d)"
  "RenameVault d a b = Inr d' \<Longrightarrow> set (db_sessions d') \<subseteq> set (db_sessions d)"
  "SetBrokerConfig d v j = Inr d' \<Longrightarrow> set (db_sessions d') \<subseteq> set (db_sessions d)"
  "CreateUser d i em r = Inr d' \<Longrightarrow> set (db_sessions d') \<subseteq> set (db_sessions d)"
  "RegisterFirstUser d i em v t = Inr d' \<Longrightarrow> set (db_sessions d') \<subseteq> set (db_sessions d)"
  "UpdateUserRole d i r = Inr d' \<Longrightarrow> set (db_sessions d') \<subseteq> set (db_sessions d)"
  "ActivateUser d i = Inr d' \<Longrightarrow> set (db_sessions d') \<subseteq> set (db_sessions d)"
  "DeleteUser d i = Inr d' \<Longrightarrow> set (db_sessions d') \<subseteq> set (db_sessions d)"
  "GrantVaultRole d a ty v r t = Inr d' \<Longrightarrow> set (db_sessions d') \<subseteq> set (db_sessions d)"
  "RevokeVaultAccess d a v = Inr d' \<Longrightarrow> set (db_sessions d') \<subseteq> set (db_sessions d)"
  by (auto simp: CreateVault_def DeleteVault_def RenameVault_def SetBrokerConfig_def CreateUser_def UpdateUserRole_def
        ActivateUser_def DeleteUser_def GrantVaultRole_def RevokeVaultAccess_def
        dest!: grant_frames RegisterFirstUser_frame CreateExternalVault_frame split: if_splits option.splits)

lemma deleting_frames:
  "RevokeScopedSession d v p = Inr d' \<Longrightarrow> set (db_sessions d') \<subseteq> set (db_sessions d)"
  "RevokeUserSession d u p = Inr d' \<Longrightarrow> set (db_sessions d') \<subseteq> set (db_sessions d)"
  "DeleteSession H d tok = Inr d' \<Longrightarrow> set (db_sessions d') \<subseteq> set (db_sessions d)"
  "DeleteUserSessions d u = Inr d' \<Longrightarrow> set (db_sessions d') \<subseteq> set (db_sessions d)"
  "DeleteAgentTokens d i = Inr d' \<Longrightarrow> set (db_sessions d') \<subseteq> set (db_sessions d)"
  "CreateAgent d i n b r = Inr d' \<Longrightarrow> set (db_sessions d') \<subseteq> set (db_sessions d)"
  "RevokeAgent d i = Inr d' \<Longrightarrow> set (db_sessions d') \<subseteq> set (db_sessions d)"
  "DeleteAgent d i = Inr d' \<Longrightarrow> set (db_sessions d') \<subseteq> set (db_sessions d)"
  "RenameAgent d i n = Inr d' \<Longrightarrow> set (db_sessions d') \<subseteq> set (db_sessions d)"
  "UpdateAgentRole d i r = Inr d' \<Longrightarrow> set (db_sessions d') \<subseteq> set (db_sessions d)"
  by (auto simp: RevokeScopedSession_def RevokeUserSession_def DeleteSession_def DeleteUserSessions_def
        DeleteAgentTokens_def delete_some_session_def delete_sessions_def RevokeAgent_def DeleteAgent_def RenameAgent_def
        UpdateAgentRole_def dest: CreateAgent_frame split: if_splits)

lemma session_origin:
  assumes "access_call H d op = Inr d'" and s: "s \<in> set (db_sessions d')"
  shows "\<exists>s0 u. (s0 \<in> set (db_sessions d) \<or> new_session H op = Some s0) \<and> (s = s0 \<or> s = s0\<lparr>sr_used := u\<rparr>)"
proof -
  have old: "set (db_sessions d') \<subseteq> set (db_sessions d) \<Longrightarrow> ?thesis" using s by blast
  have new: "set (db_sessions d') \<subseteq> insert s1 (set (db_sessions d)) \<Longrightarrow> new_session H op = Some s1 \<Longrightarrow> ?thesis" for s1
    using s by blast
  show ?thesis
  proof (cases op)
    case (OTouchSession tok t)
    with assms obtain s0 where "s0 \<in> set (db_sessions d)" "s = s0 \<or> s = s0\<lparr>sr_used := Some t\<rparr>"
      by (auto simp: TouchSession_def)
    then show ?thesis by blast
  next
    case (OCreateUserSession tok p u e idle t)
    with assms(1) show ?thesis by (intro new) (auto simp: CreateUserSession_def dest!: insert_sessions split: if_splits)
  next
    case (OCreateScopedSession tok p v r e b bt t)
    with assms(1) show ?thesis by (intro new) (auto simp: CreateScopedSession_def dest!: insert_sessions)
  next
    case (OCreateAgentToken tok i e t)
    with assms(1) show ?thesis by (intro new) (auto simp: CreateAgentToken_def dest!: insert_sessions)
  next
    case (ORotateAgentToken tok i e t)
    with assms(1) RotateAgentToken_sessions show ?thesis by (intro new) auto
  next
    case (OCreateAgentWithGrantsAndToken i n b r gs tok e t)
    with assms(1) CreateAgentWithGrantsAndToken_sessions show ?thesis by (intro new) auto
  qed (use assms(1) old in \<open>simp only: access_call.simps, blast dest: plain_frames deleting_frames\<close>)+
qed

lemma stays_gone:
  assumes "untouched Q" and "\<forall>op \<in> set ops. \<forall>s. new_session H op = Some s \<longrightarrow> \<not> Q s"
    and "\<forall>s \<in> set (db_sessions d). \<not> Q s"
  shows "\<forall>s \<in> set (db_sessions (access_run H d ops)). \<not> Q s"
  using assms(2,3) unfolding access_run_def
proof (induction ops arbitrary: d)
  case (Cons op ops)
  have "\<not> Q s" if s: "s \<in> set (db_sessions (access_exec H d op))" for s
  proof (cases "access_call H d op")
    case (Inl e)
    with s Cons.prems(2) show ?thesis by (simp add: access_exec_def)
  next
    case (Inr d')
    with s have "s \<in> set (db_sessions d')" by (simp add: access_exec_def)
    from session_origin [OF Inr this] Cons.prems assms(1) show ?thesis by (auto simp: untouched_def)
  qed
  with Cons.IH [of "access_exec H d op"] Cons.prems(1) show ?case by simp
qed simp

section \<open>Properties\<close>

text \<open>
  Claim C10. In every database the operations can produce, from the empty one, a token resolves to a scope
  only through a session row with its hash that has not expired; the vault of the scope exists and has
  the name the client asked for, if it asked; a vault-scoped session is never moved to another vault or
  role; and any other scope is an agent's, with exactly the role of a grant the table holds.
\<close>

theorem scope_authorized:
  assumes "ResolveForProxy (db_view H (access_run H empty_db ops)) now token hint = Inr sc"
  shows "\<exists>row \<in> set (db_sessions (access_run H empty_db ops)).
      sr_id row = H token \<and> \<not> IsExpired (session_of_row row) now
    \<and> (\<exists>v \<in> set (db_vaults (access_run H empty_db ops)). va_ID v = ps_VaultID sc \<and> va_Name v = ps_VaultName sc)
    \<and> (hint \<noteq> [] \<longrightarrow> ps_VaultName sc = hint)
    \<and> (if of_null (sr_vault row) \<noteq> []
       then sr_vault row = Some (ps_VaultID sc) \<and> of_null (sr_role row) = ps_VaultRole sc
       else sr_agent row = Some (ps_AgentID sc)
         \<and> (\<exists>g \<in> set (db_grants (access_run H empty_db ops)). gw_actor g = ps_AgentID sc
              \<and> gw_vault g = ps_VaultID sc \<and> gw_role g = ps_VaultRole sc))"
proof -
  let ?d = "access_run H empty_db ops"
  have ok: "db_ok ?d" by (rule access_run_ok [OF empty_db_ok])
  obtain sess where sess: "store_GetSession H ?d token = Some sess" "\<not> IsExpired sess now"
    and v: "\<exists>v. store_GetVaultByID ?d (ps_VaultID sc) = Some v \<and> va_Name v = ps_VaultName sc"
    and hint: "hint \<noteq> [] \<longrightarrow> ps_VaultName sc = hint" and ag: "ps_AgentID sc = se_AgentID sess"
    and scope: "if se_VaultID sess \<noteq> [] then ps_VaultID sc = se_VaultID sess \<and> ps_VaultRole sc = se_VaultRole sess
        \<and> ps_UserID sc = se_UserID sess
      else ps_AgentID sc \<noteq> [] \<and> ps_UserID sc = []
        \<and> store_GetVaultRole ?d (ps_AgentID sc) (ps_VaultID sc) = Some (ps_VaultRole sc)"
    using acc.scope_sound [OF ok assms, unfolded db_view_sel] by blast
  from sess(1) obtain row where row: "row \<in> set (db_sessions ?d)" "sr_id row = H token" "sess = session_of_row row"
    by (auto simp: store_GetSession_def dest: find_SomeD)
  from v have "\<exists>v \<in> set (db_vaults ?d). va_ID v = ps_VaultID sc \<and> va_Name v = ps_VaultName sc"
    by (auto simp: store_GetVaultByID_def dest: find_SomeD)
  moreover have "if of_null (sr_vault row) \<noteq> []
       then sr_vault row = Some (ps_VaultID sc) \<and> of_null (sr_role row) = ps_VaultRole sc
       else sr_agent row = Some (ps_AgentID sc)
         \<and> (\<exists>g \<in> set (db_grants ?d). gw_actor g = ps_AgentID sc \<and> gw_vault g = ps_VaultID sc \<and> gw_role g = ps_VaultRole sc)"
    using scope ag
    by (auto simp: row(3) session_of_row_def of_null_def store_GetVaultRole_def grant_of_def
          dest: find_SomeD split: option.splits if_splits)
  ultimately show ?thesis using row sess(2) hint by blast
qed

text \<open>
  Claim C11. Revoking or deleting an agent locks it out at once and for good: until an operation issues a
  token to that agent again, no token resolves to it, and no scoped token it minted is left, whatever
  else happens in the store.
\<close>

theorem revoked_agent_locked_out:
  assumes "access_call H d (ORevokeAgent i) = Inr d1 \<or> access_call H d (ODeleteAgent i) = Inr d1"
    and "\<forall>op \<in> set ops. \<forall>s. new_session H op = Some s \<longrightarrow> \<not> agent_sessions i s" and "i \<noteq> []"
  shows "(\<forall>s \<in> set (db_sessions (access_run H d1 ops)). \<not> agent_sessions i s)
    \<and> (\<forall>now token hint sc. ResolveForProxy (db_view H (access_run H d1 ops)) now token hint = Inr sc
         \<longrightarrow> ps_AgentID sc \<noteq> i)"
proof -
  have "\<forall>s \<in> set (db_sessions d1). \<not> agent_sessions i s"
    using assms(1) by (auto simp: RevokeAgent_def DeleteAgent_def delete_sessions_def split: if_splits)
  moreover have "untouched (agent_sessions i)" by (simp add: untouched_def agent_sessions_def)
  ultimately have gone: "\<forall>s \<in> set (db_sessions (access_run H d1 ops)). \<not> agent_sessions i s"
    using stays_gone assms(2) by blast
  have "ps_AgentID sc \<noteq> i"
    if r: "ResolveForProxy (db_view H (access_run H d1 ops)) now token hint = Inr sc" for now token hint sc
  proof
    assume i: "ps_AgentID sc = i"
    from r obtain sess where "store_GetSession H (access_run H d1 ops) token = Some sess" "ps_AgentID sc = se_AgentID sess"
      by (auto simp: ResolveForProxy_def db_view_def split: if_splits option.splits list.splits)
    then obtain row where "row \<in> set (db_sessions (access_run H d1 ops))" "of_null (sr_agent row) = i"
      using i by (auto simp: store_GetSession_def session_of_row_def dest: find_SomeD)
    with gone assms(3) show False by (auto simp: agent_sessions_def of_null_def split: option.splits)
  qed
  with gone show ?thesis by blast
qed

text \<open>
  Claim C36. Revoking an actor's access to a vault takes nothing from a vault-scoped token, even from one
  the actor minted for that vault: every request with such a token resolves as it did before.
\<close>

theorem scoped_token_survives_revocation:
  assumes "RevokeVaultAccess d actor v = Inr d'" and "store_GetSession H d token = Some sess" and "se_VaultID sess \<noteq> []"
  shows "ResolveForProxy (db_view H d') now token hint = ResolveForProxy (db_view H d) now token hint"
proof -
  from assms(1) have "db_sessions d' = db_sessions d" "db_vaults d' = db_vaults d"
    by (auto simp: RevokeVaultAccess_def split: option.splits)
  then have "store_GetSession H d' = store_GetSession H d" "store_GetVaultByID d' = store_GetVaultByID d"
    by (auto simp: store_GetSession_def store_GetVaultByID_def)
  with assms(2,3) show ?thesis by (simp add: ResolveForProxy_def)
qed

section \<open>An example\<close>

definition demo_ops :: "access_op list" where
  "demo_ops = [OCreateVault ''v1'' ''prod'', ORegisterFirstUser ''u1'' ''a@x'' ''v1'' 1,
     OCreateAgentWithGrantsAndToken ''a1'' ''bot'' ''u1'' ''member'' [(''v1'', ''proxy'')] ''tok-a'' None 2,
     OCreateScopedSession ''tok-s'' ''p1'' ''v1'' ''proxy'' None ''u1'' ''user'' 3]"

definition demo_hash :: "string \<Rightarrow> string" where "demo_hash t = CHR ''h'' # t"

definition demo_db :: access_db where "demo_db = access_run demo_hash empty_db demo_ops"

theorem scope_authorized_witness:
  "ResolveForProxy (db_view demo_hash demo_db) 10 ''tok-a'' ''prod''
     = Inr \<lparr>ps_AgentID = ''a1'', ps_UserID = [], ps_VaultID = ''v1'', ps_VaultName = ''prod'', ps_VaultRole = ''proxy''\<rparr>
   \<and> (\<exists>row \<in> set (db_sessions demo_db). sr_id row = demo_hash ''tok-a'' \<and> \<not> IsExpired (session_of_row row) 10)"
proof -
  have r: "ResolveForProxy (db_view demo_hash (access_run demo_hash empty_db demo_ops)) 10 ''tok-a'' ''prod''
     = Inr \<lparr>ps_AgentID = ''a1'', ps_UserID = [], ps_VaultID = ''v1'', ps_VaultName = ''prod'', ps_VaultRole = ''proxy''\<rparr>"
    by code_simp
  show ?thesis using r scope_authorized [OF r] unfolding demo_db_def by blast
qed

theorem revoked_agent_locked_out_witness:
  "\<exists>d1. access_call demo_hash demo_db (ORevokeAgent ''a1'') = Inr d1
    \<and> (\<forall>now token hint sc. ResolveForProxy (db_view demo_hash d1) now token hint = Inr sc \<longrightarrow> ps_AgentID sc \<noteq> ''a1'')"
proof -
  have "(case access_call demo_hash demo_db (ORevokeAgent ''a1'') of Inl e \<Rightarrow> False | Inr d \<Rightarrow> True)" by code_simp
  then obtain d1 where d1: "access_call demo_hash demo_db (ORevokeAgent ''a1'') = Inr d1"
    by (auto split: sum.splits)
  from revoked_agent_locked_out [of demo_hash demo_db "''a1''" d1 "[]"] d1 show ?thesis
    by (auto simp: access_run_def)
qed

theorem scoped_token_survives_revocation_witness:
  "\<exists>d'. RevokeVaultAccess demo_db ''u1'' ''v1'' = Inr d' \<and> \<not> HasVaultAccess d' ''u1'' ''v1''
    \<and> ResolveForProxy (db_view demo_hash d') 10 ''tok-s'' [] = ResolveForProxy (db_view demo_hash demo_db) 10 ''tok-s'' []
    \<and> ResolveForProxy (db_view demo_hash demo_db) 10 ''tok-s'' []
        = Inr \<lparr>ps_AgentID = [], ps_UserID = [], ps_VaultID = ''v1'', ps_VaultName = ''prod'', ps_VaultRole = ''proxy''\<rparr>"
proof -
  have "(case RevokeVaultAccess demo_db ''u1'' ''v1'' of Inl e \<Rightarrow> False | Inr d \<Rightarrow> \<not> HasVaultAccess d ''u1'' ''v1'')"
    by code_simp
  then obtain d' where d': "RevokeVaultAccess demo_db ''u1'' ''v1'' = Inr d'" "\<not> HasVaultAccess d' ''u1'' ''v1''"
    by (auto split: sum.splits)
  have "(case store_GetSession demo_hash demo_db ''tok-s'' of None \<Rightarrow> False | Some s \<Rightarrow> se_VaultID s \<noteq> [])" by code_simp
  then obtain sess where s: "store_GetSession demo_hash demo_db ''tok-s'' = Some sess" "se_VaultID sess \<noteq> []"
    by (auto split: option.splits)
  have "ResolveForProxy (db_view demo_hash demo_db) 10 ''tok-s'' []
        = Inr \<lparr>ps_AgentID = [], ps_UserID = [], ps_VaultID = ''v1'', ps_VaultName = ''prod'', ps_VaultRole = ''proxy''\<rparr>"
    by code_simp
  with d' scoped_token_survives_revocation [OF d'(1) s] show ?thesis by blast
qed

end
