(* ===== verification/Netguard.thy ===== *)
theory Netguard
  imports IPAddr
begin

text \<open>
  The network policy of outbound connections (internal/netguard/netguard.go): which resolved
  addresses the broker connects to. The environment's settings are strings (empty when unset), the
  resolver is a function, and the last step, the dial, is the address it is given.
\<close>

section \<open>Settings\<close>

text \<open>\<open>strconv.ParseBool\<close>, with an error read as false.\<close>

definition AllowPrivateFromEnv :: "string \<Rightarrow> bool" where
  "AllowPrivateFromEnv v \<longleftrightarrow> v \<in> set [''1'', ''t'', ''T'', ''TRUE'', ''true'', ''True'']"

definition cidr_entry :: "string \<Rightarrow> ipnet option" where
  "cidr_entry p =
     (if \<not> str_contains p ''/'' then
        (case ParseIP p of
           None \<Rightarrow> None
         | Some a \<Rightarrow> ParseCIDR (p @ (case a of V4 _ \<Rightarrow> ''/32'' | V6 _ \<Rightarrow> ''/128'')))
      else ParseCIDR p)"

definition ParseCIDRList :: "string \<Rightarrow> ipnet list" where
  "ParseCIDRList raw =
     (if raw = [] then []
      else List.map_filter (\<lambda>p. if p = [] then None else cidr_entry p) (map TrimSpace (split_on (CHR '','') raw)))"

definition parseCIDR :: "string \<Rightarrow> ipnet" where
  "parseCIDR s = the (ParseCIDR s)"

definition alwaysBlocked :: "ipnet list" where
  "alwaysBlocked = map parseCIDR [''169.254.169.254/32'', ''fd00:ec2::254/128'']"

definition privateRanges :: "ipnet list" where
  "privateRanges = map parseCIDR [''10.0.0.0/8'', ''172.16.0.0/12'', ''192.168.0.0/16'', ''127.0.0.0/8'',
     ''169.254.0.0/16'', ''100.64.0.0/10'', ''::1/128'', ''fe80::/10'', ''fc00::/7'', ''0.0.0.0/32'']"

section \<open>The decision\<close>

definition in_nets :: "ipnet list \<Rightarrow> ip \<Rightarrow> bool" where
  "in_nets ns a \<longleftrightarrow> list_ex (\<lambda>n. net_contains n a) ns"

definition isBlockedIP :: "ip \<Rightarrow> bool \<Rightarrow> ipnet list \<Rightarrow> bool" where
  "isBlockedIP a allowPrivate allowed =
     (if in_nets alwaysBlocked a then True
      else if allowPrivate then False
      else if in_nets allowed a then False
      else in_nets privateRanges a)"

definition withinEgress :: "ip \<Rightarrow> ipnet list \<Rightarrow> bool" where
  "withinEgress a egress = (if egress = [] then True else in_nets egress a)"

text \<open>The ranges of a setting; set but without a valid entry, it confines to 0.0.0.0.\<close>

definition egress_ranges :: "string \<Rightarrow> ipnet list" where
  "egress_ranges setting =
     (let egress = ParseCIDRList setting in
      if TrimSpace setting \<noteq> [] \<and> egress = [] then [Net4 0 32] else egress)"

datatype dial_result = InvalidAddress | LookupFailed | Blocked ip | NoAddress | Dialed string

text \<open>A lookup without an error and without addresses would be a panic: \<open>NoAddress\<close>.\<close>

definition SafeDialContext :: "bool \<Rightarrow> string \<Rightarrow> string \<Rightarrow> (string \<Rightarrow> ip list option) \<Rightarrow> string \<Rightarrow> dial_result" where
  "SafeDialContext allowPrivate allowSetting egressSetting lookup addr =
     (let allowed = (if \<not> allowPrivate then ParseCIDRList allowSetting else []);
          egress = egress_ranges egressSetting in
      case SplitHostPort addr of
        None \<Rightarrow> InvalidAddress
      | Some (host, port) \<Rightarrow>
          (case lookup host of
             None \<Rightarrow> LookupFailed
           | Some ips \<Rightarrow>
               (case find (\<lambda>a. isBlockedIP a allowPrivate allowed \<or> \<not> withinEgress a egress) ips of
                  Some a \<Rightarrow> Blocked a
                | None \<Rightarrow> (case ips of [] \<Rightarrow> NoAddress
                          | a # _ \<Rightarrow> Dialed (JoinHostPort (ip_string (unmap a)) port)))))"

section \<open>Properties\<close>

lemma in_nets_unmap [simp]: "in_nets ns (unmap a) = in_nets ns a"
  by (simp add: in_nets_def)

lemma alwaysBlocked_nets: "alwaysBlocked = [Net4 0xA9FEA9FE 32, Net6 0xFD000EC2000000000000000000000254 128]"
  by code_simp

lemma imds_blocked:
  "in_nets alwaysBlocked a \<longleftrightarrow> unmap a = V4 0xA9FEA9FE \<or> unmap a = V6 0xFD000EC2000000000000000000000254"
proof -
  have n: "net_norm (Net6 0xFD000EC2000000000000000000000254 128) = Net6 0xFD000EC2000000000000000000000254 128"
    by code_simp
  have m: "mask_len 32 32 = (- 1 :: 32 word)" "mask_len 128 128 = (- 1 :: 128 word)"
    by (simp_all add: mask_len_def)
  show ?thesis
    by (cases "unmap a") (auto simp: alwaysBlocked_nets in_nets_def net_contains_def n m net_norm_def [of "Net4 _ _"])
qed

text \<open>
  Claim C17. A connection the guard makes is to an address it resolved and checked, in either notation of an
  IPv4 address: never to a cloud metadata endpoint, whatever is configured; to a private or reserved
  range only if these are allowed or the address is in the allowlist; and, when egress ranges are
  configured, only inside them. Every other address of the name passed the same checks.
\<close>

theorem netguard_safe:
  assumes "SafeDialContext allowPrivate allowSetting egressSetting lookup addr = Dialed target"
  shows "\<exists>host port ips a. SplitHostPort addr = Some (host, port) \<and> lookup host = Some ips \<and> a \<in> set ips
    \<and> target = JoinHostPort (ip_string (unmap a)) port
    \<and> (\<forall>b \<in> set ips. unmap b \<noteq> V4 0xA9FEA9FE \<and> unmap b \<noteq> V6 0xFD000EC2000000000000000000000254
         \<and> (in_nets privateRanges b \<longrightarrow> allowPrivate \<or> in_nets (ParseCIDRList allowSetting) b)
         \<and> (TrimSpace egressSetting \<noteq> [] \<longrightarrow> in_nets (egress_ranges egressSetting) b))"
proof -
  from assms obtain host port ips a where r: "SplitHostPort addr = Some (host, port)" "lookup host = Some ips"
    "ips = a # tl ips" "target = JoinHostPort (ip_string (unmap a)) port"
    and safe: "find (\<lambda>a. isBlockedIP a allowPrivate (if \<not> allowPrivate then ParseCIDRList allowSetting else [])
       \<or> \<not> withinEgress a (egress_ranges egressSetting)) ips = None"
    by (auto simp: SafeDialContext_def Let_def split: option.splits list.splits)
  have e: "TrimSpace egressSetting \<noteq> [] \<Longrightarrow> egress_ranges egressSetting \<noteq> []"
    by (auto simp: egress_ranges_def Let_def)
  have "unmap b \<noteq> V4 0xA9FEA9FE \<and> unmap b \<noteq> V6 0xFD000EC2000000000000000000000254
         \<and> (in_nets privateRanges b \<longrightarrow> allowPrivate \<or> in_nets (ParseCIDRList allowSetting) b)
         \<and> (TrimSpace egressSetting \<noteq> [] \<longrightarrow> in_nets (egress_ranges egressSetting) b)" if "b \<in> set ips" for b
  proof -
    have "\<not> isBlockedIP b allowPrivate (if \<not> allowPrivate then ParseCIDRList allowSetting else [])"
      "withinEgress b (egress_ranges egressSetting)"
      using safe that by (auto simp: find_None_iff)
    with e show ?thesis by (auto simp: isBlockedIP_def withinEgress_def imds_blocked split: if_splits)
  qed
  with r show ?thesis by (metis list.set_intros(1))
qed

theorem netguard_safe_witness:
  "SafeDialContext False [] ''203.0.113.0/24'' (\<lambda>h. Some [V4 0xCB007105]) ''api.test:443'' = Dialed ''203.0.113.5:443''
   \<and> (\<exists>a. in_nets (egress_ranges ''203.0.113.0/24'') a)"
proof -
  have d: "SafeDialContext False [] ''203.0.113.0/24'' (\<lambda>h. Some [V4 0xCB007105]) ''api.test:443'' = Dialed ''203.0.113.5:443''"
    by code_simp
  have "TrimSpace ''203.0.113.0/24'' \<noteq> []" by code_simp
  with d netguard_safe [OF d] show ?thesis by blast
qed

text \<open>
  A bare IPv4 address written in mapped form is allowlisted as the wrong network: it is
  recognised as IPv4 and given the length 32, but the text is read as an IPv6 network, so the entry
  \<open>::ffff:10.0.0.1\<close> allows the whole of \<open>::/32\<close>, the IPv6 loopback included, and not 10.0.0.1.
\<close>

theorem mapped_allowlist_entry:
  "ParseCIDRList ''::ffff:10.0.0.1'' = [Net6 0 32] \<and> in_nets [Net6 0 32] (V6 1) \<and> \<not> in_nets [Net6 0 32] (V4 0x0A000001)"
proof (intro conjI)
  show "ParseCIDRList ''::ffff:10.0.0.1'' = [Net6 0 32]" by code_simp
  show "in_nets [Net6 0 32] (V6 1)" by code_simp
  show "\<not> in_nets [Net6 0 32] (V4 0x0A000001)" by code_simp
qed

text \<open>
  An egress setting without a valid entry does not block everything: it confines connections to
  0.0.0.0, which is reached when private ranges are allowed.
\<close>

theorem bad_egress_allows_zero:
  "SafeDialContext True [] ''nonsense'' (\<lambda>h. Some [V4 0]) ''zero.test:80'' = Dialed ''0.0.0.0:80''"
  by code_simp

end
