(* ===== verification/Proposals.thy ===== *)
theory Proposals
  imports Injection
begin

text \<open>
  Proposals (internal/proposal): an agent proposes changes to a vault's services and credentials, and
  a human approves them. Validation of a proposal (validate.go) and the merge of an approved one into
  the vault's services (merge.go). \<open>url_parse\<close> is \<open>url.Parse\<close>: the scheme and the host, \<open>None\<close> an error.
\<close>

section \<open>Data\<close>

definition ActionSet :: string where "ActionSet = ''set''"
definition ActionDelete :: string where "ActionDelete = ''delete''"

record prop_service =
  pv_Action :: string
  pv_Name :: string
  pv_Host :: string
  pv_Path :: string
  pv_Port :: "int option"
  pv_Enabled :: "bool option"
  pv_Auth :: "auth option"
  pv_Substitutions :: "substitution list"

record prop_oauth =
  po_AuthorizationURL :: string
  po_TokenURL :: string
  po_TokenAuthMethod :: string

record credential_slot =
  cs_Action :: string
  cs_Key :: string
  cs_Type :: string
  cs_Description :: string
  cs_Obtain :: string
  cs_ObtainInstructions :: string
  cs_Value :: "string option"
  cs_OAuth :: "prop_oauth option"

definition prop_MatcherPattern :: "prop_service \<Rightarrow> string" where
  "prop_MatcherPattern s =
     (let host = (case pv_Port s of Some p \<Rightarrow> JoinHostPort (pv_Host s) (itoa p) | None \<Rightarrow> pv_Host s)
      in if pv_Path s = [] then host else host @ pv_Path s)"

section \<open>Validation\<close>

datatype prop_error =
    PMessageTooLong | PUserMessageTooLong | PEmpty | PTooManyServices | PTooManyCredentials
  | PService nat svc_error | PBadAction nat | PNothingToSet nat | PSubstitutionsWithoutAuth nat
  | PSlotAction | PSlotKeyRequired | PSlotKey string | PSlotDuplicate string | PSlotLength string
  | PSlotObtain string | PSlotType string | PSlotOAuth string | PSlotUnreferenced string
  | PUnresolved string string

definition ValidateMessages :: "string \<Rightarrow> string \<Rightarrow> prop_error go_error" where
  "ValidateMessages message userMessage =
     (if length message > 2000 then Some PMessageTooLong
      else if length userMessage > 5000 then Some PUserMessageTooLong else None)"

definition validate_prop_service :: "bool \<Rightarrow> nat \<Rightarrow> (string, nat) go_map \<Rightarrow> prop_service \<Rightarrow> prop_error go_error" where
  "validate_prop_service devMode i nameSet s =
     (if pv_Action s \<noteq> ActionSet \<and> pv_Action s \<noteq> ActionDelete then Some (PBadAction i)
      else if pv_Host s = [] then Some (PService i SvcHostRequired)
      else if str_contains (pv_Host s) ''/'' then Some (PService i SvcHostSlash)
      else guard_err (ValidateHost devMode (pv_Host s)) (PService i \<circ> SvcHost)
       (if pv_Name s = [] then Some (PService i SvcNameRequired)
        else guard_err (ValidateSlug (pv_Name s)) (PService i \<circ> SvcSlug)
         (case map_of nameSet (pv_Name s) of
            Some prev \<Rightarrow> Some (PService i (SvcDuplicateName (pv_Name s) prev))
          | None \<Rightarrow>
              guard_err (ValidatePath (pv_Path s)) (PService i \<circ> SvcPath)
               (guard_err (ValidatePort (pv_Port s)) (PService i \<circ> SvcPort)
                 (if pv_Action s = ActionSet then
                    (if pv_Auth s = None \<and> pv_Enabled s = None then Some (PNothingToSet i)
                     else guard_err (case pv_Auth s of None \<Rightarrow> None | Some a \<Rightarrow> auth_Validate a) (PService i \<circ> SvcAuth)
                       (if pv_Substitutions s \<noteq> [] then
                          (if pv_Auth s = None then Some (PSubstitutionsWithoutAuth i)
                           else guard_err (ValidateSubstitutions (pv_Substitutions s))
                                  (\<lambda>(j, e). PService i (SvcSubstitution j e)) None)
                        else None))
                  else None)))))"

fun validate_prop_services :: "bool \<Rightarrow> nat \<Rightarrow> (string, nat) go_map \<Rightarrow> prop_service list \<Rightarrow> prop_error go_error" where
  "validate_prop_services devMode i nameSet [] = None"
| "validate_prop_services devMode i nameSet (s # ss) =
     guard_err (validate_prop_service devMode i nameSet s) id
       (validate_prop_services devMode (Suc i) (map_put (pv_Name s) i nameSet) ss)"

text \<open>The credential keys the set actions refer to.\<close>

definition service_refs :: "prop_service \<Rightarrow> string list" where
  "service_refs s = (case pv_Auth s of
       Some a \<Rightarrow> if pv_Action s = ActionSet then auth_CredentialKeys a @ map sub_key (pv_Substitutions s) else []
     | None \<Rightarrow> [])"

definition http_url :: "(string \<Rightarrow> (string \<times> string) option) \<Rightarrow> string \<Rightarrow> bool" where
  "http_url url_parse s = (case url_parse s of None \<Rightarrow> False
     | Some (scheme, host) \<Rightarrow> (scheme = ''https'' \<or> scheme = ''http'') \<and> host \<noteq> [])"

definition validate_slot :: "(string \<Rightarrow> (string \<times> string) option) \<Rightarrow> bool \<Rightarrow> string list \<Rightarrow> string list \<Rightarrow> credential_slot
    \<Rightarrow> prop_error go_error" where
  "validate_slot url_parse withServices refs seen c =
     (if cs_Action c \<noteq> ActionSet \<and> cs_Action c \<noteq> ActionDelete then Some PSlotAction
      else if cs_Key c = [] then Some PSlotKeyRequired
      else if \<not> CredentialKeyPattern (cs_Key c) then Some (PSlotKey (cs_Key c))
      else if cs_Key c \<in> set seen then Some (PSlotDuplicate (cs_Key c))
      else if length (cs_Description c) > 500 then Some (PSlotLength (cs_Key c))
      else if length (cs_Obtain c) > 500 then Some (PSlotLength (cs_Key c))
      else if cs_Obtain c \<noteq> [] \<and> \<not> http_url url_parse (cs_Obtain c) then Some (PSlotObtain (cs_Key c))
      else if length (cs_ObtainInstructions c) > 1000 then Some (PSlotLength (cs_Key c))
      else if cs_Type c \<noteq> [] \<and> cs_Type c \<noteq> ''static'' \<and> cs_Type c \<noteq> ''oauth'' then Some (PSlotType (cs_Key c))
      else if cs_Type c = ''oauth'' \<and>
        (case cs_OAuth c of
           None \<Rightarrow> True
         | Some o' \<Rightarrow> po_TokenURL o' = []
             \<or> po_AuthorizationURL o' \<noteq> [] \<and> \<not> http_url url_parse (po_AuthorizationURL o')
             \<or> \<not> http_url url_parse (po_TokenURL o')
             \<or> cs_Value c \<noteq> None
             \<or> po_TokenAuthMethod o' \<noteq> [] \<and> po_TokenAuthMethod o' \<notin> set [''client_secret_post'', ''client_secret_basic''])
      then Some (PSlotOAuth (cs_Key c))
      else if withServices \<and> cs_Action c = ActionSet \<and> cs_Key c \<notin> set refs then Some (PSlotUnreferenced (cs_Key c))
      else None)"

fun validate_slots :: "(string \<Rightarrow> (string \<times> string) option) \<Rightarrow> bool \<Rightarrow> string list \<Rightarrow> string list \<Rightarrow> credential_slot list
    \<Rightarrow> prop_error go_error" where
  "validate_slots url_parse withServices refs seen [] = None"
| "validate_slots url_parse withServices refs seen (c # cs) =
     guard_err (validate_slot url_parse withServices refs seen c) id
       (validate_slots url_parse withServices refs (cs_Key c # seen) cs)"

definition prop_Validate :: "bool \<Rightarrow> (string \<Rightarrow> (string \<times> string) option) \<Rightarrow> prop_service list \<Rightarrow> credential_slot list
    \<Rightarrow> prop_error go_error" where
  "prop_Validate devMode url_parse services credentials =
     (if services = [] \<and> credentials = [] then Some PEmpty
      else if length services > 10 then Some PTooManyServices
      else if length credentials > 10 then Some PTooManyCredentials
      else guard_err (validate_prop_services devMode 0 [] services) id
        (validate_slots url_parse (services \<noteq> []) (concat (map service_refs services)) [] credentials))"

text \<open>The first key that is neither in a set slot nor in the vault, service by service.\<close>

fun unresolved :: "string list \<Rightarrow> prop_service list \<Rightarrow> prop_error go_error" where
  "unresolved available [] = None"
| "unresolved available (s # ss) =
     (case find (\<lambda>k. k \<notin> set available) (service_refs s) of
        Some k \<Rightarrow> Some (PUnresolved k (if pv_Name s = [] then pv_Host s else pv_Name s))
      | None \<Rightarrow> unresolved available ss)"

definition ValidateCredentialRefs :: "prop_service list \<Rightarrow> credential_slot list \<Rightarrow> string list \<Rightarrow> prop_error go_error" where
  "ValidateCredentialRefs services slots existingKeys =
     unresolved (map cs_Key (filter (\<lambda>s. cs_Action s = ActionSet) slots) @ existingKeys) services"

section \<open>Merging\<close>

definition empty_auth :: auth where
  "empty_auth = \<lparr>auth_type = [], auth_token = [], auth_username = [], auth_password = [], auth_key = [],
     auth_header = [], auth_prefix = [], auth_headers = []\<rparr>"

definition toBrokerService :: "prop_service \<Rightarrow> service" where
  "toBrokerService p = \<lparr>svc_name = pv_Name p, svc_host = pv_Host p, svc_path = pv_Path p, svc_port = pv_Port p,
     svc_enabled = pv_Enabled p, svc_auth = (case pv_Auth p of Some a \<Rightarrow> a | None \<Rightarrow> empty_auth),
     svc_substitutions = pv_Substitutions p, svc_fixed_query = None\<rparr>"

text \<open>The index of the services by name, the services, the indices to remove and the names of skipped deletes.\<close>

record merge_state =
  ms_index :: "(string, nat) go_map"
  ms_merged :: "service list"
  ms_remove :: "nat list"
  ms_warnings :: "string list"

definition replaced :: "prop_service \<Rightarrow> service \<Rightarrow> service" where
  "replaced p old =
     (if pv_Auth p = None \<and> pv_Enabled p \<noteq> None then old\<lparr>svc_enabled := pv_Enabled p\<rparr>
      else if pv_Substitutions p = [] then (toBrokerService p)\<lparr>svc_substitutions := svc_substitutions old\<rparr>
      else toBrokerService p)"

definition merge_step :: "merge_state \<Rightarrow> prop_service \<Rightarrow> merge_state" where
  "merge_step st p =
     (case map_of (ms_index st) (pv_Name p) of
        None \<Rightarrow>
          if pv_Action p = ActionDelete then st\<lparr>ms_warnings := ms_warnings st @ [pv_Name p]\<rparr>
          else st\<lparr>ms_index := map_put (pv_Name p) (length (ms_merged st)) (ms_index st),
                  ms_merged := ms_merged st @ [toBrokerService p]\<rparr>
      | Some idx \<Rightarrow>
          if pv_Action p = ActionDelete
          then st\<lparr>ms_remove := idx # ms_remove st, ms_index := map_del (pv_Name p) (ms_index st)\<rparr>
          else st\<lparr>ms_merged := (ms_merged st)[idx := replaced p (ms_merged st ! idx)]\<rparr>)"

definition kept :: "merge_state \<Rightarrow> service list" where
  "kept st = map (\<lambda>i. ms_merged st ! i) (filter (\<lambda>i. i \<notin> set (ms_remove st)) [0..<length (ms_merged st)])"

definition index_services :: "service list \<Rightarrow> (string, nat) go_map" where
  "index_services ss = foldl (\<lambda>m (i, s). map_put (svc_name s) i m) [] (zip [0..<length ss] ss)"

text \<open>\<open>None\<close> is the panic on a service without a name.\<close>

definition MergeServices :: "service list \<Rightarrow> prop_service list \<Rightarrow> (service list \<times> string list) option" where
  "MergeServices existing proposed =
     (if list_ex (\<lambda>s. svc_name s = []) existing \<or> list_ex (\<lambda>p. pv_Name p = []) proposed then None
      else
        (let st = foldl merge_step \<lparr>ms_index = index_services existing, ms_merged = existing, ms_remove = [], ms_warnings = []\<rparr> proposed
         in Some (kept st, ms_warnings st)))"

section \<open>The merge as updates of a map from names to services\<close>

definition by_name :: "service list \<Rightarrow> string \<Rightarrow> service option" where
  "by_name ss = map_of (map (\<lambda>s. (svc_name s, s)) ss)"

definition merge_spec :: "(string \<Rightarrow> service option) \<Rightarrow> prop_service \<Rightarrow> string \<Rightarrow> service option" where
  "merge_spec m p =
     (if pv_Action p = ActionDelete then m(pv_Name p := None)
      else m(pv_Name p \<mapsto> (case m (pv_Name p) of None \<Rightarrow> toBrokerService p | Some old \<Rightarrow> replaced p old)))"

definition merge_inv :: "merge_state \<Rightarrow> bool" where
  "merge_inv st \<longleftrightarrow>
     (\<forall>n i. map_of (ms_index st) n = Some i \<longleftrightarrow>
        i < length (ms_merged st) \<and> i \<notin> set (ms_remove st) \<and> svc_name (ms_merged st ! i) = n)
     \<and> set (ms_remove st) \<subseteq> {..<length (ms_merged st)}"

definition merge_abs :: "merge_state \<Rightarrow> string \<Rightarrow> service option" where
  "merge_abs st n = map_option (\<lambda>i. ms_merged st ! i) (map_of (ms_index st) n)"

lemma replaced_name: "svc_name old = pv_Name p \<Longrightarrow> svc_name (replaced p old) = pv_Name p"
  by (simp add: replaced_def toBrokerService_def)

lemma merge_invD:
  assumes "merge_inv st"
  shows "map_of (ms_index st) n = Some i \<longleftrightarrow>
    i < length (ms_merged st) \<and> i \<notin> set (ms_remove st) \<and> svc_name (ms_merged st ! i) = n"
    and "i \<in> set (ms_remove st) \<Longrightarrow> i < length (ms_merged st)"
  using assms unfolding merge_inv_def by (blast, blast)

lemma merge_invI:
  assumes "\<And>n i. map_of (ms_index st) n = Some i \<longleftrightarrow>
      i < length (ms_merged st) \<and> i \<notin> set (ms_remove st) \<and> svc_name (ms_merged st ! i) = n"
    and "\<And>i. i \<in> set (ms_remove st) \<Longrightarrow> i < length (ms_merged st)"
  shows "merge_inv st"
  using assms unfolding merge_inv_def by blast

lemma merge_step_inv:
  assumes "merge_inv st"
  shows "merge_inv (merge_step st p)"
proof (cases "map_of (ms_index st) (pv_Name p)")
  case None
  show ?thesis
  proof (cases "pv_Action p = ActionDelete")
    case True
    with None assms show ?thesis by (simp add: merge_step_def merge_inv_def)
  next
    case False
    have fresh: "\<not> (i < length (ms_merged st) \<and> i \<notin> set (ms_remove st) \<and> svc_name (ms_merged st ! i) = pv_Name p)" for i
    proof
      assume "i < length (ms_merged st) \<and> i \<notin> set (ms_remove st) \<and> svc_name (ms_merged st ! i) = pv_Name p"
      with assms have "map_of (ms_index st) (pv_Name p) = Some i" unfolding merge_inv_def by blast
      with None show False by simp
    qed
    have rem: "length (ms_merged st) \<notin> set (ms_remove st)" using assms by (auto simp: merge_inv_def)
    have name: "svc_name (toBrokerService p) = pv_Name p" by (simp add: toBrokerService_def)
    have step: "merge_step st p = st\<lparr>ms_index := map_put (pv_Name p) (length (ms_merged st)) (ms_index st),
        ms_merged := ms_merged st @ [toBrokerService p]\<rparr>" using None False by (simp add: merge_step_def)
    show ?thesis
    proof (rule merge_invI)
      show "map_of (ms_index (merge_step st p)) n = Some i \<longleftrightarrow> i < length (ms_merged (merge_step st p))
          \<and> i \<notin> set (ms_remove (merge_step st p)) \<and> svc_name (ms_merged (merge_step st p) ! i) = n" for n i
        using name rem fresh [of i] merge_invD(1) [OF assms, of n i]
        by (cases "n = pv_Name p"; cases "i = length (ms_merged st)") (simp_all add: step nth_append less_Suc_eq)
    qed (use merge_invD(2) [OF assms] in \<open>simp add: step less_SucI\<close>)
  qed
next
  case (Some idx)
  with assms have idx: "idx < length (ms_merged st)" "idx \<notin> set (ms_remove st)" "svc_name (ms_merged st ! idx) = pv_Name p"
    by (auto simp: merge_inv_def)
  show ?thesis
  proof (cases "pv_Action p = ActionDelete")
    case True
    then have step: "merge_step st p
        = st\<lparr>ms_remove := idx # ms_remove st, ms_index := map_del (pv_Name p) (ms_index st)\<rparr>"
      using Some by (simp add: merge_step_def)
    show ?thesis
    proof (rule merge_invI)
      show "map_of (ms_index (merge_step st p)) n = Some i \<longleftrightarrow> i < length (ms_merged (merge_step st p))
          \<and> i \<notin> set (ms_remove (merge_step st p)) \<and> svc_name (ms_merged (merge_step st p) ! i) = n" for n i
        using idx Some merge_invD(1) [OF assms, of n i]
        by (cases "n = pv_Name p"; cases "i = idx") (auto simp: step)
    qed (use merge_invD(2) [OF assms] idx in \<open>auto simp: step\<close>)
  next
    case False
    then have step: "merge_step st p = st\<lparr>ms_merged := (ms_merged st)[idx := replaced p (ms_merged st ! idx)]\<rparr>"
      using Some by (simp add: merge_step_def)
    show ?thesis
    proof (rule merge_invI)
      show "map_of (ms_index (merge_step st p)) n = Some i \<longleftrightarrow> i < length (ms_merged (merge_step st p))
          \<and> i \<notin> set (ms_remove (merge_step st p)) \<and> svc_name (ms_merged (merge_step st p) ! i) = n" for n i
        using idx merge_invD(1) [OF assms, of n i]
        by (cases "i = idx") (simp_all add: step replaced_name)
    qed (use merge_invD(2) [OF assms] in \<open>simp add: step\<close>)
  qed
qed

lemma merge_step_abs:
  assumes "merge_inv st"
  shows "merge_abs (merge_step st p) = merge_spec (merge_abs st) p"
proof (cases "map_of (ms_index st) (pv_Name p)")
  case None
  have "i < length (ms_merged st)" if "map_of (ms_index st) n = Some i" for n i
    using that assms by (auto simp: merge_inv_def)
  then have "map_option (\<lambda>i. (ms_merged st @ [x]) ! i) (map_of (ms_index st) n)
      = map_option (\<lambda>i. ms_merged st ! i) (map_of (ms_index st) n)" for x n
    by (auto simp: nth_append intro!: option.map_cong)
  with None show ?thesis
    by (auto simp: merge_step_def merge_spec_def merge_abs_def fun_eq_iff)
next
  case (Some idx)
  with assms have idx: "idx < length (ms_merged st)" by (auto simp: merge_inv_def)
  have "i \<noteq> idx" if "map_of (ms_index st) n = Some i" "n \<noteq> pv_Name p" for n i
    using that Some assms by (auto simp: merge_inv_def)
  then have "n \<noteq> pv_Name p \<Longrightarrow> map_option (\<lambda>i. (ms_merged st)[idx := x] ! i) (map_of (ms_index st) n)
      = map_option (\<lambda>i. ms_merged st ! i) (map_of (ms_index st) n)" for x n
    by (cases "map_of (ms_index st) n") (auto simp: nth_list_update_neq [OF not_sym])
  with Some idx show ?thesis
    by (auto simp: merge_step_def merge_spec_def merge_abs_def fun_eq_iff)
qed

lemma merge_run:
  "merge_inv st \<Longrightarrow> merge_inv (foldl merge_step st ps)
     \<and> merge_abs (foldl merge_step st ps) = foldl merge_spec (merge_abs st) ps"
  by (induction ps arbitrary: st) (simp_all add: merge_step_inv merge_step_abs)

lemma distinct_names_nth:
  "distinct (map svc_name ss) \<Longrightarrow> i < length ss \<Longrightarrow> by_name ss (svc_name (ss ! i)) = Some (ss ! i)"
  by (simp add: by_name_def map_of_eq_Some_iff comp_def)

lemma index_services_snoc:
  "index_services (ss @ [s]) = map_put (svc_name s) (length ss) (index_services ss)"
  by (simp add: index_services_def zip_append1)

lemma index_services_iff:
  "distinct (map svc_name ss)
   \<Longrightarrow> map_of (index_services ss) n = Some i \<longleftrightarrow> i < length ss \<and> svc_name (ss ! i) = n"
proof (induction ss arbitrary: n i rule: rev_induct)
  case (snoc s ss)
  have "svc_name (ss ! j) \<noteq> svc_name s" if "j < length ss" for j
    using snoc.prems that by (auto simp: image_iff) (metis nth_mem)
  with snoc show ?case by (auto simp: index_services_snoc nth_append less_Suc_eq split: if_splits)
qed (simp add: index_services_def)

lemma kept_distinct:
  assumes "merge_inv st"
  shows "distinct (map svc_name (kept st))"
proof -
  have "inj_on (\<lambda>i. svc_name (ms_merged st ! i)) {i. i < length (ms_merged st) \<and> i \<notin> set (ms_remove st)}"
  proof (rule inj_onI)
    fix i j assume ij: "i \<in> {i. i < length (ms_merged st) \<and> i \<notin> set (ms_remove st)}"
      "j \<in> {i. i < length (ms_merged st) \<and> i \<notin> set (ms_remove st)}" "svc_name (ms_merged st ! i) = svc_name (ms_merged st ! j)"
    with assms have "map_of (ms_index st) (svc_name (ms_merged st ! j)) = Some i"
      "map_of (ms_index st) (svc_name (ms_merged st ! j)) = Some j" unfolding merge_inv_def by auto
    then show "i = j" by simp
  qed
  then show ?thesis by (auto simp: kept_def comp_def distinct_map intro: inj_on_subset)
qed

lemma kept_abs:
  assumes "merge_inv st"
  shows "by_name (kept st) = merge_abs st"
proof
  fix n
  show "by_name (kept st) n = merge_abs st n"
  proof (cases "map_of (ms_index st) n")
    case (Some i)
    with assms have i: "i < length (ms_merged st)" "i \<notin> set (ms_remove st)" "svc_name (ms_merged st ! i) = n"
      by (auto simp: merge_inv_def)
    then have "ms_merged st ! i \<in> set (kept st)" by (auto simp: kept_def)
    with kept_distinct [OF assms] i have "by_name (kept st) n = Some (ms_merged st ! i)"
      by (auto simp: by_name_def comp_def map_of_eq_Some_iff)
    with Some show ?thesis by (simp add: merge_abs_def)
  next
    case None
    have "n \<notin> svc_name ` set (kept st)"
    proof
      assume "n \<in> svc_name ` set (kept st)"
      then obtain i where "i < length (ms_merged st)" "i \<notin> set (ms_remove st)" "svc_name (ms_merged st ! i) = n"
        by (auto simp: kept_def)
      with assms have "map_of (ms_index st) n = Some i" unfolding merge_inv_def by blast
      with None show False by simp
    qed
    then have "by_name (kept st) n = None" by (auto simp: by_name_def map_of_eq_None_iff)
    with None show ?thesis by (simp add: merge_abs_def)
  qed
qed

section \<open>Properties\<close>

text \<open>
  Claim C34. Merging a proposal is, name by name, the sequence of its changes: with distinct names in the
  vault and every name given, \<open>MergeServices\<close> returns services with distinct names that are exactly the
  vault's services after each set and delete in order, and it leaves every other service as it was.
\<close>

theorem merge_services_refines:
  assumes "distinct (map svc_name existing)" and "[] \<notin> svc_name ` set existing" and "[] \<notin> pv_Name ` set proposed"
  shows "\<exists>merged warnings. MergeServices existing proposed = Some (merged, warnings)
    \<and> distinct (map svc_name merged)
    \<and> by_name merged = foldl merge_spec (by_name existing) proposed
    \<and> (\<forall>n. n \<notin> pv_Name ` set proposed \<longrightarrow> by_name merged n = by_name existing n)"
proof -
  let ?st = "\<lparr>ms_index = index_services existing, ms_merged = existing, ms_remove = [], ms_warnings = []\<rparr>"
  have inv: "merge_inv ?st" using index_services_iff [OF assms(1)] by (simp add: merge_inv_def)
  have "merge_abs ?st n = by_name existing n" for n
  proof (cases "map_of (index_services existing) n")
    case (Some i)
    with index_services_iff [OF assms(1)] distinct_names_nth [OF assms(1), of i] show ?thesis by (auto simp: merge_abs_def)
  next
    case None
    have "n \<notin> svc_name ` set existing"
    proof
      assume "n \<in> svc_name ` set existing"
      then obtain i where "i < length existing" "svc_name (existing ! i) = n" by (auto simp: in_set_conv_nth)
      with index_services_iff [OF assms(1), of n i] None show False by simp
    qed
    then have "by_name existing n = None" by (auto simp: by_name_def map_of_eq_None_iff)
    with None show ?thesis by (simp add: merge_abs_def)
  qed
  then have abs: "merge_abs ?st = by_name existing" by blast
  let ?fin = "foldl merge_step ?st proposed"
  have fin: "merge_inv ?fin" "merge_abs ?fin = foldl merge_spec (by_name existing) proposed"
    using merge_run [OF inv, of proposed] abs by simp_all
  have m: "MergeServices existing proposed = Some (kept ?fin, ms_warnings ?fin)"
    using assms(2,3) by (auto simp: MergeServices_def Let_def list_ex_iff image_iff)
  have "n \<notin> pv_Name ` set ps \<Longrightarrow> foldl merge_spec f ps n = f n" for n f ps
    by (induction ps arbitrary: f) (auto simp: merge_spec_def)
  with m kept_distinct [OF fin(1)] kept_abs [OF fin(1)] fin(2) show ?thesis by simp
qed

definition demo_proposal :: "prop_service list" where
  "demo_proposal = [\<lparr>pv_Action = ActionSet, pv_Name = ''all'', pv_Host = ''api.test'', pv_Path = [], pv_Port = None,
     pv_Enabled = None, pv_Auth = Some no_auth, pv_Substitutions = []\<rparr>]"

theorem merge_services_refines_witness:
  "\<exists>merged warnings. MergeServices [plain_service ''old'' ''old.test''] demo_proposal = Some (merged, warnings)
     \<and> by_name merged ''old'' = Some (plain_service ''old'' ''old.test'')"
proof -
  have "by_name [plain_service ''old'' ''old.test''] ''old'' = Some (plain_service ''old'' ''old.test'')" by code_simp
  with merge_services_refines [of "[plain_service ''old'' ''old.test'']" demo_proposal] show ?thesis
    by (auto simp: demo_proposal_def plain_service_def)
qed

definition pinned_service :: service where
  "pinned_service = (plain_service ''pinned'' ''api.test'')\<lparr>svc_path := ''/v1'', svc_fixed_query := Some [(''tenant'', ''acme'')]\<rparr>"

text \<open>
  Claim C37. An approved proposal can shut a whole vault. A vault with a fixed-query service is valid and a
  proposal for the same host passes validation, but the merged services are ambiguous, which nothing
  checks before they are stored, and from then on every request of the vault is refused, whatever its
  host.
\<close>

theorem merge_can_block_vault:
  "Validate False \<lparr>cfg_vault = ''v1'', cfg_services = [pinned_service]\<rparr> = None
   \<and> prop_Validate False url_parse demo_proposal [] = None
   \<and> (\<exists>merged. MergeServices [pinned_service] demo_proposal = Some (merged, [])
        \<and> (\<forall>env v host port path. load_services env v = Inr merged
             \<longrightarrow> Inject env v host port path = (None, Some [ErrServiceNotFound])))"
proof -
  have v: "Validate False \<lparr>cfg_vault = ''v1'', cfg_services = [pinned_service]\<rparr> = None" by code_simp
  have p: "validate_prop_services False 0 [] demo_proposal = None" by code_simp
  have "prop_Validate False url_parse demo_proposal [] = None"
    unfolding prop_Validate_def p by (simp add: demo_proposal_def)
  moreover have m: "MergeServices [pinned_service] demo_proposal
      = Some ([pinned_service, toBrokerService (hd demo_proposal)], [])" by code_simp
  moreover have "ValidateFixedQueryBindings [pinned_service, toBrokerService (hd demo_proposal)] = Some FQAmbiguous" by code_simp
  ultimately show ?thesis using v by (simp add: Inject_def)
qed

theorem merge_can_block_vault_witness:
  "Inject (static_env ''s3''\<lparr>unmarshal_services := (\<lambda>_. Some [pinned_service, toBrokerService (hd demo_proposal)])\<rparr>)
     ''v1'' ''elsewhere.test'' 443 ''/'' = (None, Some [ErrServiceNotFound])"
proof -
  let ?env = "static_env ''s3''\<lparr>unmarshal_services := (\<lambda>_. Some [pinned_service, toBrokerService (hd demo_proposal)])\<rparr>"
  have m: "MergeServices [pinned_service] demo_proposal
      = Some ([pinned_service, toBrokerService (hd demo_proposal)], [])" by code_simp
  have l: "load_services ?env ''v1'' = Inr [pinned_service, toBrokerService (hd demo_proposal)]" by code_simp
  from merge_can_block_vault [of "\<lambda>_. None"] m l show ?thesis by auto
qed

end
