(* ===== verification/Startup.thy ===== *)
theory Startup
  imports HttpHeaders
begin

text \<open>
  What a PostgreSQL client may ask for at startup (internal/brokercore/startup.go) and how a broker is
  named in its fleet (replica.go). The relay and the broker both pass a client's parameters through
  \<open>StartupParameter\<close>, so a parameter one of them forwards must be one the other accepts unchanged.
\<close>

section \<open>Startup parameters\<close>

definition StartupParameters :: "string list" where
  "StartupParameters = [''application_name'', ''client_encoding'', ''DateStyle'', ''extra_float_digits'',
     ''search_path'', ''standard_conforming_strings'', ''statement_timeout'', ''TimeZone'']"

definition canonicalKeys :: "(nat list, string) go_map" where
  "canonicalKeys = map (\<lambda>name. (lower_runes name, name)) StartupParameters"

definition printable :: "string \<Rightarrow> bool" where
  "printable s \<longleftrightarrow> list_all (\<lambda>c. 32 \<le> byte_of c \<and> byte_of c \<le> 126) s"

definition cleanEncoding :: "string \<Rightarrow> string" where
  "cleanEncoding s =
     (if length s > 32 then []
      else concat (map (\<lambda>c. if is_upper c then [char_of (byte_of c + 32)]
                            else if is_lower c \<or> is_digit c then [c] else []) s))"

definition canonical_encodings :: "string list" where
  "canonical_encodings = [''SQL_ASCII'', ''EUC_JP'', ''EUC_CN'', ''EUC_KR'', ''EUC_TW'', ''EUC_JIS_2004'', ''UTF8'', ''MULE_INTERNAL'',
     ''LATIN1'', ''LATIN2'', ''LATIN3'', ''LATIN4'', ''LATIN5'', ''LATIN6'', ''LATIN7'', ''LATIN8'', ''LATIN9'', ''LATIN10'',
     ''WIN1256'', ''WIN1258'', ''WIN866'', ''WIN874'', ''KOI8R'', ''WIN1251'', ''WIN1252'', ''ISO_8859_5'', ''ISO_8859_6'',
     ''ISO_8859_7'', ''ISO_8859_8'', ''WIN1250'', ''WIN1253'', ''WIN1254'', ''WIN1255'', ''WIN1257'', ''KOI8U'']"

definition encoding_aliases :: "(string, string) go_map" where
  "encoding_aliases = [(''unicode'', ''UTF8''), (''iso88591'', ''LATIN1''), (''iso88592'', ''LATIN2''), (''iso88593'', ''LATIN3''),
     (''iso88594'', ''LATIN4''), (''iso88599'', ''LATIN5''), (''iso885910'', ''LATIN6''), (''iso885913'', ''LATIN7''),
     (''iso885914'', ''LATIN8''), (''iso885915'', ''LATIN9''), (''iso885916'', ''LATIN10''), (''koi8'', ''KOI8R''),
     (''win'', ''WIN1251''), (''alt'', ''WIN866''), (''cp866'', ''WIN866''), (''cp874'', ''WIN874''), (''cp1250'', ''WIN1250''),
     (''cp1251'', ''WIN1251''), (''cp1252'', ''WIN1252''), (''cp1253'', ''WIN1253''), (''cp1254'', ''WIN1254''),
     (''cp1255'', ''WIN1255''), (''cp1256'', ''WIN1256''), (''cp1257'', ''WIN1257''), (''cp1258'', ''WIN1258''),
     (''tcvn'', ''WIN1258''), (''tcvn5712'', ''WIN1258''), (''vscii'', ''WIN1258''), (''abc'', ''WIN1258'')]"

definition encodings :: "(string, string) go_map" where
  "encodings = foldl (\<lambda>m (k, v). map_put k v m)
     (foldl (\<lambda>m name. map_put (cleanEncoding name) name m) [] canonical_encodings) encoding_aliases"

definition StartupValue :: "string \<Rightarrow> string \<Rightarrow> string option" where
  "StartupValue key value =
     (if key = ''statement_timeout'' then
        (if value = [] \<or> length value > 10 then None
         else if \<not> list_all is_digit value then None
         else if read_nat value \<ge> 2 ^ 31 \<or> read_nat value = 0 then None
         else Some value)
      else if key = ''application_name'' then
        (if length value > 63 \<or> \<not> printable value then None else Some value)
      else if key = ''client_encoding'' then map_of encodings (cleanEncoding value)
      else if key = ''standard_conforming_strings'' then
        (if \<not> equal_fold_ascii value ''on'' then None else Some ''on'')
      else if key \<in> set [''DateStyle'', ''extra_float_digits'', ''search_path'', ''TimeZone''] then
        (if length value > 256 \<or> \<not> printable value then None else Some value)
      else None)"

definition StartupParameter :: "string \<Rightarrow> string \<Rightarrow> (string \<times> string) option" where
  "StartupParameter key value =
     (case map_of canonicalKeys (lower_runes key) of
        None \<Rightarrow> None
      | Some name \<Rightarrow> map_option (Pair name) (StartupValue name value))"

section \<open>Replica names\<close>

text \<open>An unset variable is empty, as \<open>os.Getenv\<close> reports it; \<open>host\<close> is the host's name.\<close>

definition ReplicaName :: "(string \<Rightarrow> string) \<Rightarrow> string \<Rightarrow> string" where
  "ReplicaName getenv host =
     (if getenv ''AGENT_VAULT_REPLICA'' \<noteq> [] then getenv ''AGENT_VAULT_REPLICA''
      else if getenv ''AGENT_VAULT_AUDIT_REPLICA'' \<noteq> [] then getenv ''AGENT_VAULT_AUDIT_REPLICA''
      else host)"

definition FleetReplicaName :: "(string \<Rightarrow> string) \<Rightarrow> string \<Rightarrow> string option" where
  "FleetReplicaName getenv host =
     (if getenv ''DATABASE_URL'' = [] \<and> getenv ''DATABASE_URL_FILE'' = [] then Some (ReplicaName getenv host)
      else if getenv ''AGENT_VAULT_REPLICA'' \<noteq> [] then Some (getenv ''AGENT_VAULT_REPLICA'')
      else None)"

text \<open>The regular expression \<open>^[a-z0-9]([-a-z0-9.]{0,251}[a-z0-9])?$\<close>.\<close>

definition ValidReplicaName :: "string \<Rightarrow> bool" where
  "ValidReplicaName name \<longleftrightarrow>
     (let edge = (\<lambda>c. is_lower c \<or> is_digit c) in
      name \<noteq> [] \<and> length name \<le> 253 \<and> edge (hd name) \<and> edge (last name)
      \<and> list_all (\<lambda>c. edge c \<or> c = CHR ''-'' \<or> c = CHR ''.'') name)"

section \<open>What a parameter may be\<close>

text \<open>Every canonical encoding name is its own canonical form.\<close>

definition encoding_fixed :: "string \<Rightarrow> bool" where
  "encoding_fixed w \<longleftrightarrow> map_of encodings (cleanEncoding w) = Some w \<and> printable w \<and> length w \<le> 256"

lemma encodings_fixed: "list_all (\<lambda>p. encoding_fixed (snd p)) encodings"
  by code_simp

lemma encoding_canonical: "map_of encodings c = Some w \<Longrightarrow> encoding_fixed w"
  using encodings_fixed by (auto simp: list_all_iff dest!: map_of_SomeD)

lemma canonical_key_fixed:
  "map_of canonicalKeys k = Some n \<Longrightarrow> n \<in> set StartupParameters \<and> map_of canonicalKeys (lower_runes n) = Some n"
proof -
  have all: "list_all (\<lambda>(k, n). n \<in> set StartupParameters \<and> map_of canonicalKeys (lower_runes n) = Some n) canonicalKeys"
    by code_simp
  assume "map_of canonicalKeys k = Some n"
  with all show ?thesis by (auto simp: list_all_iff dest!: map_of_SomeD)
qed

lemma digits_printable: "list_all is_digit s \<Longrightarrow> printable s"
  by (auto simp: printable_def list_all_iff is_digit_def)

lemma StartupValue_fixed:
  assumes "StartupValue n v = Some w"
  shows "StartupValue n w = Some w \<and> printable w \<and> length w \<le> 256"
proof -
  have on: "equal_fold_ascii ''on'' ''on''" "printable ''on''" by code_simp+
  consider "n = ''statement_timeout''" | "n = ''application_name''" | "n = ''client_encoding''"
    | "n = ''standard_conforming_strings''"
    | "n \<in> set [''DateStyle'', ''extra_float_digits'', ''search_path'', ''TimeZone'']"
    using assms by (auto simp: StartupValue_def split: if_splits)
  then show ?thesis
  proof cases
    case 3
    with assms have "encoding_fixed w" by (simp add: StartupValue_def encoding_canonical)
    with 3 show ?thesis by (simp add: StartupValue_def encoding_fixed_def)
  qed (use assms on in \<open>auto simp: StartupValue_def digits_printable split: if_splits\<close>)
qed

text \<open>
  A startup parameter that is forwarded is one of the eight, is at most 256 bytes of printable
  ASCII, and is a fixed point: the next hop accepts it and forwards the same name and value. It never
  turns off statement timeouts or standard-conforming strings, and a client encoding is one the server
  lists.
\<close>

theorem startup_parameter_stable:
  assumes "StartupParameter key value = Some (n, w)"
  shows "StartupParameter n w = Some (n, w) \<and> n \<in> set StartupParameters \<and> printable w \<and> length w \<le> 256
    \<and> (n = ''statement_timeout'' \<longrightarrow> 1 \<le> read_nat w \<and> read_nat w \<le> 2147483647)
    \<and> (n = ''standard_conforming_strings'' \<longrightarrow> w = ''on'')
    \<and> (n = ''client_encoding'' \<longrightarrow> w \<in> set canonical_encodings)"
proof -
  from assms have key: "map_of canonicalKeys (lower_runes key) = Some n" and val: "StartupValue n value = Some w"
    by (auto simp: StartupParameter_def split: option.splits)
  have enc: "list_all (\<lambda>p. snd p \<in> set canonical_encodings) encodings" by code_simp
  have "n = ''client_encoding'' \<Longrightarrow> w \<in> set canonical_encodings"
    using val enc by (auto simp: StartupValue_def list_all_iff dest!: map_of_SomeD)
  moreover have "n = ''statement_timeout'' \<Longrightarrow> 1 \<le> read_nat w \<and> read_nat w \<le> 2147483647"
    "n = ''standard_conforming_strings'' \<Longrightarrow> w = ''on''"
    using val by (auto simp: StartupValue_def split: if_splits)
  ultimately show ?thesis
    using canonical_key_fixed [OF key] StartupValue_fixed [OF val] by (simp add: StartupParameter_def)
qed

theorem startup_parameter_stable_witness:
  "StartupParameter ''CLIENT_ENCODING'' ''utf-8'' = Some (''client_encoding'', ''UTF8'')
   \<and> StartupParameter ''client_encoding'' ''UTF8'' = Some (''client_encoding'', ''UTF8'')"
proof -
  have p: "StartupParameter ''CLIENT_ENCODING'' ''utf-8'' = Some (''client_encoding'', ''UTF8'')" by code_simp
  with startup_parameter_stable [OF p] show ?thesis by simp
qed

end
