(* ===== verification/SqlText.thy ===== *)
theory SqlText
  imports Startup "HOL-Library.Sublist"
begin

text \<open>
  How the PostgreSQL broker reads the SQL of its clients (internal/pgproxy/session_state.go): the
  splitting of a text into statements, and the decisions taken on them: whether a client must keep its
  server connection (\<open>needsSession\<close>), and which texts are refused (\<open>changesRole\<close>, \<open>createsTemporary\<close>,
  \<open>changesLexer\<close>, \<open>readOnlyAllowed\<close>). Texts are byte strings; the words of a statement are runs of
  ASCII letters, digits and underscores of the lower-cased text.
\<close>

section \<open>Splitting a text into statements\<close>

definition identChar :: "char \<Rightarrow> bool" where
  "identChar c \<longleftrightarrow> c = CHR ''_'' \<or> is_alnum c \<or> 128 \<le> byte_of c"

abbreviation newline :: char where "newline \<equiv> CHR 0x0A"
abbreviation squote :: char where "squote \<equiv> CHR 0x27"
abbreviation dquote :: char where "dquote \<equiv> CHR 0x22"
abbreviation backslash :: char where "backslash \<equiv> CHR 0x5C"

text \<open>What follows the comment that closes at depth 0; \<open>None\<close> when it does not close.\<close>

fun block_comment :: "nat \<Rightarrow> string \<Rightarrow> string option" where
  "block_comment depth [] = None"
| "block_comment depth (c # s) =
     (if c = CHR ''/'' \<and> HasPrefix s ''*'' then block_comment (Suc depth) (tl s)
      else if c = CHR ''*'' \<and> HasPrefix s ''/'' then
        (if depth = 1 then Some (tl s) else block_comment (depth - 1) (tl s))
      else block_comment depth s)"

text \<open>What follows the closing quote of a string or quoted identifier.\<close>

fun quoted :: "char \<Rightarrow> bool \<Rightarrow> string \<Rightarrow> string option" where
  "quoted q escapes [] = None"
| "quoted q escapes (c # s) =
     (if escapes \<and> c = backslash then quoted q escapes (tl s)
      else if c = q then (if HasPrefix s [q] then quoted q escapes (tl s) else Some s)
      else quoted q escapes s)"

text \<open>The name between the dollars, which does not start with a digit.\<close>

definition dollar_name :: "string \<Rightarrow> string" where
  "dollar_name s = (case s of [] \<Rightarrow> [] | c # _ \<Rightarrow> if is_digit c then [] else takeWhile identChar s)"

text \<open>
  One step of the loop at \<open>c # s\<close> with the text before it reversed in \<open>pre\<close>: what is written and what
  remains, \<open>None\<close> for an unterminated comment, string or identifier.
\<close>

definition escape_string :: "string \<Rightarrow> bool" where
  "escape_string pre =
     (case pre of [] \<Rightarrow> False
      | p # pre' \<Rightarrow> (p = CHR ''e'' \<or> p = CHR ''E'') \<and> (case pre' of [] \<Rightarrow> True | p' # _ \<Rightarrow> \<not> identChar p'))"

definition after_ident :: "string \<Rightarrow> bool" where
  "after_ident pre = (case pre of [] \<Rightarrow> False | p # _ \<Rightarrow> identChar p)"

definition sql_token :: "string \<Rightarrow> char \<Rightarrow> string \<Rightarrow> (string \<times> string) option" where
  "sql_token pre c s =
     (if c = CHR ''-'' \<and> HasPrefix s ''-'' then Some ('' '', dropWhile (\<lambda>d. d \<noteq> newline) s)
      else if c = CHR ''/'' \<and> HasPrefix s ''*'' then map_option (Pair '' '') (block_comment 0 (c # s))
      else if c = squote then map_option (Pair [squote, squote]) (quoted squote (escape_string pre) s)
      else if c = dquote then map_option (Pair [dquote, CHR ''x'', dquote]) (quoted dquote False s)
      else if c = CHR ''$'' \<and> \<not> after_ident pre then
        (let name = dollar_name s; rest = drop (length name) s in
         if \<not> HasPrefix rest ''$'' then Some (''$'', s)
         else (let tag = ''$'' @ name @ ''$'' in
               case str_index (tl rest) tag of
                 None \<Rightarrow> None
               | Some closing \<Rightarrow> Some ([squote, squote], drop (closing + length tag) (tl rest))))
      else Some ([c], s))"

lemma block_comment_suffix: "block_comment d s = Some r \<Longrightarrow> suffix r s"
  by (induction d s rule: block_comment.induct)
    (auto split: if_splits intro: suffix_ConsI suffix_order.trans [OF _ suffix_tl])

lemma quoted_suffix: "quoted q e s = Some r \<Longrightarrow> suffix r s"
  by (induction q e s rule: quoted.induct)
    (auto split: if_splits intro: suffix_ConsI suffix_order.trans [OF _ suffix_tl])

lemma sql_token_suffix:
  assumes "sql_token pre c s = Some (w, r)"
  shows "suffix r s"
proof -
  have drop: "suffix (drop k (tl (drop j s))) s" for k j
    by (metis drop_Suc drop_drop suffix_drop tl_drop)
  have "block_comment 0 (c # s) = Some r \<Longrightarrow> c = CHR ''/'' \<Longrightarrow> HasPrefix s ''*'' \<Longrightarrow> suffix r s"
    using suffix_order.trans [OF block_comment_suffix suffix_tl] by simp
  with assms drop show ?thesis
    by (auto simp: sql_token_def Let_def suffix_dropWhile dest: quoted_suffix split: if_splits option.splits
        simp del: block_comment.simps)
qed

lemma sql_token_shorter: "sql_token pre c s = Some (w, r) \<Longrightarrow> length r < Suc (length s)"
  by (simp add: le_imp_less_Suc sql_token_suffix suffix_length_le)

text \<open>
  The loop: \<open>pre\<close> is the text before (reversed), \<open>cur\<close> the statement so far and \<open>raw\<close> its text.
\<close>

function split_scan :: "string \<Rightarrow> string \<Rightarrow> string \<Rightarrow> string \<Rightarrow> (string list \<times> string list) option" where
  "split_scan pre [] cur raw = Some ([cur], [raw])"
| "split_scan pre (c # s) cur raw =
     (if c = CHR '';'' then
        map_option (\<lambda>(ss, rs). (cur # ss, raw # rs)) (split_scan (c # pre) s [] [])
      else case sql_token pre c s of
        None \<Rightarrow> None
      | Some (w, r) \<Rightarrow>
          (let eaten = take (Suc (length s) - length r) (c # s)
           in split_scan (rev eaten @ pre) r (cur @ w) (raw @ eaten)))"
  by pat_completeness auto
termination
  by (relation "measure (\<lambda>(pre, s, cur, raw). length s)") (auto simp: sql_token_shorter)

definition splitStatementsRaw :: "string \<Rightarrow> (string list \<times> string list) option" where
  "splitStatementsRaw sql = split_scan [] sql [] []"

definition splitStatements :: "string \<Rightarrow> string list option" where
  "splitStatements sql = map_option fst (splitStatementsRaw sql)"

section \<open>Words\<close>

definition word_rune :: "nat \<Rightarrow> bool" where
  "word_rune r \<longleftrightarrow> r \<le> 127 \<and> identChar (char_of r)"

text \<open>\<open>strings.FieldsFunc\<close>: the maximal runs of runes of words.\<close>

fun fields_runes :: "nat list \<Rightarrow> string \<Rightarrow> string list" where
  "fields_runes [] w = (if w = [] then [] else [w])"
| "fields_runes (r # rs) w =
     (if word_rune r then fields_runes rs (w @ [char_of r])
      else (if w = [] then [] else [w]) @ fields_runes rs [])"

definition sqlWords :: "string \<Rightarrow> string list" where
  "sqlWords statement = fields_runes (lower_runes statement) []"

text \<open>\<open>strings.Contains\<close> of the lower-cased text, for an ASCII pattern.\<close>

fun runes_contain :: "nat list \<Rightarrow> nat list \<Rightarrow> bool" where
  "runes_contain [] p = (p = [])"
| "runes_contain (r # rs) p = (take (length p) (r # rs) = p \<or> runes_contain rs p)"

definition lower_contains :: "string \<Rightarrow> string \<Rightarrow> bool" where
  "lower_contains sql p = runes_contain (lower_runes sql) (map byte_of p)"

section \<open>Session state\<close>

definition sessionFunctions :: "string list" where
  "sessionFunctions = [''set_config'', ''pg_advisory_lock'', ''pg_try_advisory_lock'', ''pg_advisory_unlock'',
     ''dblink_connect'', ''lo_open'']"

definition safe_keywords :: "string list" where
  "safe_keywords = [''select'', ''insert'', ''update'', ''delete'', ''merge'', ''with'', ''values'', ''table'', ''begin'',
     ''start'', ''commit'', ''end'', ''rollback'', ''abort'', ''savepoint'', ''release'', ''show'', ''explain'', ''copy'',
     ''lock'', ''notify'', ''fetch'', ''move'', ''close'', ''alter'', ''drop'', ''comment'', ''grant'', ''revoke'',
     ''truncate'', ''analyze'', ''refresh'', ''reindex'', ''cluster'', ''vacuum'']"

text \<open>\<open>x\<close> directly followed by a word with \<open>P\<close>.\<close>

fun followed_by :: "string \<Rightarrow> (string \<Rightarrow> bool) \<Rightarrow> string list \<Rightarrow> bool" where
  "followed_by x P [] = False"
| "followed_by x P (w # ws) = (w = x \<and> (case ws of [] \<Rightarrow> False | w' # _ \<Rightarrow> P w') \<or> followed_by x P ws)"

definition temp_word :: "string \<Rightarrow> bool" where
  "temp_word w \<longleftrightarrow> w = ''temp'' \<or> w = ''temporary''"

definition transactionSafe :: "string \<Rightarrow> bool" where
  "transactionSafe statement =
     (case sqlWords statement of
        [] \<Rightarrow> True
      | w0 # rest \<Rightarrow>
          let words = w0 # rest in
          if list_ex (\<lambda>f. list_ex (\<lambda>w. HasPrefix w f) words) sessionFunctions then False
          else if followed_by ''into'' temp_word words \<or> list_ex (\<lambda>w. HasPrefix w ''pg_temp'') words then False
          else if w0 \<in> set safe_keywords then True
          else if w0 = ''declare'' then \<not> followed_by ''with'' (\<lambda>w. w = ''hold'') words
          else if w0 = ''create'' then \<not> list_ex temp_word (take 4 rest)
          else if w0 = ''set'' then
            (case rest of [] \<Rightarrow> False | w1 # _ \<Rightarrow> w1 = ''local'' \<or> w1 = ''transaction'' \<or> w1 = ''constraints'')
          else False)"

definition needsSession :: "string \<Rightarrow> bool" where
  "needsSession sql = (case splitStatements sql of None \<Rightarrow> True
     | Some statements \<Rightarrow> list_ex (\<lambda>s. \<not> transactionSafe s) statements)"

section \<open>Refused texts\<close>

definition alters_role :: "string list \<Rightarrow> bool" where
  "alters_role words = (case words of
       w0 # w1 # _ \<Rightarrow> w0 = ''alter'' \<and> w1 \<in> set [''role'', ''user'', ''group'', ''database'']
     | _ \<Rightarrow> False)"

definition changesRole :: "string \<Rightarrow> bool" where
  "changesRole sql = (case splitStatements sql of None \<Rightarrow> True
     | Some statements \<Rightarrow> list_ex (\<lambda>s. alters_role (sqlWords s)) statements)"

text \<open>A temporary object created or selected into: the three words before are looked at.\<close>

definition temp_created :: "string list \<Rightarrow> nat \<Rightarrow> bool" where
  "temp_created words i \<longleftrightarrow> temp_word (words ! i)
     \<and> list_ex (\<lambda>b. b = ''create'' \<or> b = ''into'') (drop (i - 3) (take i words))"

definition creates_temporary_statement :: "bool \<Rightarrow> string list \<Rightarrow> bool" where
  "creates_temporary_statement has_backslash words =
     (case words of
        [] \<Rightarrow> False
      | w0 # _ \<Rightarrow>
          w0 = ''do''
          \<or> list_ex (temp_created words) [0..<length words]
          \<or> list_ex (\<lambda>w. HasPrefix w ''set_config'') words
          \<or> ''update'' \<in> set words \<and> ''pg_settings'' \<in> set words
          \<or> (''search_path'' \<in> set words \<or> w0 = ''set'' \<and> ''schema'' \<in> set (take 3 words)) \<and> has_backslash)"

definition createsTemporary :: "string \<Rightarrow> bool" where
  "createsTemporary sql =
     (if list_ex (lower_contains sql) [''pg_temp'', [CHR ''u'', CHR ''&'', squote], [CHR ''u'', CHR ''&'', dquote]] then True
      else case splitStatements sql of
        None \<Rightarrow> True
      | Some statements \<Rightarrow>
          list_ex (\<lambda>s. creates_temporary_statement (backslash \<in> set sql) (sqlWords s)) statements)"

section \<open>Settings that change how the server reads text\<close>

text \<open>
  The regular expression \<open>lexerSet\<close>, on runes. Under \<open>(?i)\<close> an ASCII letter also matches the other case,
  U+017F for \<open>s\<close> and U+212A for \<open>k\<close>. The value is a run of its class that ends the text up to a quote and
  white space, and no other split of the text matches, so the expression is read from both ends.
\<close>

definition lex_space :: "nat \<Rightarrow> bool" where
  "lex_space r \<longleftrightarrow> r \<in> set [9, 10, 12, 13, 32]"

definition fold_letter :: "nat \<Rightarrow> nat" where
  "fold_letter r = (if 65 \<le> r \<and> r \<le> 90 then r + 32 else if r = 383 then 115 else if r = 8490 then 107 else r)"

definition re_literal :: "string \<Rightarrow> nat list \<Rightarrow> nat list option" where
  "re_literal w rs = (if map fold_letter (take (length w) rs) = map byte_of w then Some (drop (length w) rs) else None)"

definition re_spaces1 :: "nat list \<Rightarrow> nat list option" where
  "re_spaces1 rs = (case rs of r # rs' \<Rightarrow> if lex_space r then Some (dropWhile lex_space rs') else None | [] \<Rightarrow> None)"

definition re_class :: "nat \<Rightarrow> bool" where
  "re_class r \<longleftrightarrow> (let f = fold_letter r in 97 \<le> f \<and> f \<le> 122 \<or> 48 \<le> f \<and> f \<le> 57 \<or> f = 95 \<or> f = 45)"

definition re_names :: "string list" where
  "re_names = [''standard_conforming_strings'', ''client_encoding'', ''names'']"

text \<open>Between the name and the value: \<open>\s*(=|\s+to\s+|\s)\s*\<close> with the white space at the end already gone or kept.\<close>

definition re_separator :: "nat list \<Rightarrow> bool" where
  "re_separator rs =
     (let inner = dropWhile lex_space rs in
      if inner = [] then rs \<noteq> []
      else if hd inner = 61 then list_all lex_space (tl inner)
      else rs \<noteq> inner \<and> (case re_literal ''to'' inner of
             None \<Rightarrow> False | Some r \<Rightarrow> r \<noteq> [] \<and> list_all lex_space r))"

text \<open>The text before the value and its quote: the name that is set.\<close>

definition re_head :: "nat list \<Rightarrow> string option" where
  "re_head rs =
     (case Option.bind (re_literal ''set'' (dropWhile lex_space rs)) re_spaces1 of
        None \<Rightarrow> None
      | Some r1 \<Rightarrow>
          let r2 = (case Option.bind (re_literal ''session'' r1) re_spaces1 of None \<Rightarrow> r1 | Some r \<Rightarrow> r) in
          find (\<lambda>n. case re_literal n r2 of None \<Rightarrow> False | Some r3 \<Rightarrow> re_separator r3) re_names)"

definition lexerSet :: "string \<Rightarrow> (string \<times> nat list) option" where
  "lexerSet raw =
     (let back = dropWhile lex_space (rev (runes raw));
          back1 = (case back of r # b \<Rightarrow> if r = 39 then b else back | [] \<Rightarrow> []);
          val = rev (takeWhile re_class back1);
          back2 = dropWhile re_class back1;
          back3 = (case back2 of r # b \<Rightarrow> if r = 39 then b else back2 | [] \<Rightarrow> []) in
      if val = [] then None
      else map_option (\<lambda>n. (n, val)) (re_head (rev back3)))"

definition lexer_word :: "string \<Rightarrow> bool" where
  "lexer_word w \<longleftrightarrow> w \<in> set re_names"

definition lexerSetting :: "string list \<Rightarrow> string \<Rightarrow> bool \<times> bool" where
  "lexerSetting words raw =
     (if length words < 2 \<or> hd words \<noteq> ''set'' then (False, False)
      else if \<not> list_ex lexer_word (take 2 (tl words)) then (False, False)
      else case lexerSet raw of
        None \<Rightarrow> (True, False)
      | Some (name, val) \<Rightarrow>
          (True, map to_lower_rune val = map byte_of (if name = ''standard_conforming_strings'' then ''on'' else ''utf8'')))"

text \<open>The loop of \<open>changesLexer\<close>: whether the text is refused, and whether a statement has run.\<close>

fun lexer_loop :: "(string \<times> string) list \<Rightarrow> bool \<Rightarrow> bool \<times> bool" where
  "lexer_loop [] started = (False, started)"
| "lexer_loop ((statement, raw) # rest) started =
     (let words = sqlWords statement in
      if words = [] then lexer_loop rest started
      else (let (isSet, safe) = lexerSetting words raw in
            if isSet \<and> (\<not> safe \<or> started) then (True, True)
            else lexer_loop rest (if \<not> isSet then True else started)))"

definition changesLexer :: "string \<Rightarrow> bool \<Rightarrow> bool \<times> bool" where
  "changesLexer sql started = (case splitStatementsRaw sql of
       None \<Rightarrow> (False, True)
     | Some (statements, raw) \<Rightarrow> lexer_loop (zip statements raw) started)"

definition unsafeLexerParameter :: "string \<Rightarrow> string \<Rightarrow> bool" where
  "unsafeLexerParameter name val =
     (if name \<noteq> ''standard_conforming_strings'' \<and> name \<noteq> ''client_encoding'' then False
      else StartupValue name val = None)"

section \<open>Read-only logins\<close>

definition read_keywords :: "string list" where
  "read_keywords = [''select'', ''values'', ''table'', ''with'']"

definition write_keywords :: "string list" where
  "write_keywords = [''insert'', ''update'', ''delete'', ''merge'', ''into'', ''create'', ''drop'', ''alter'', ''truncate'',
     ''grant'', ''revoke'', ''copy'', ''call'', ''do'', ''lock'', ''listen'', ''notify'', ''refresh'', ''vacuum'', ''cluster'',
     ''reindex'', ''import'', ''security'']"

definition control_keywords :: "string list" where
  "control_keywords = [''show'', ''commit'', ''end'', ''rollback'', ''abort'', ''savepoint'', ''release'', ''fetch'', ''move'',
     ''close'', ''deallocate'']"

definition readQuery :: "string list \<Rightarrow> bool" where
  "readQuery words = list_all (\<lambda>w. w \<notin> set write_keywords) words"

fun explained :: "string list \<Rightarrow> bool" where
  "explained [] = False"
| "explained (w # ws) =
     (if w \<in> set read_keywords then readQuery (w # ws)
      else if w \<in> set [''insert'', ''update'', ''delete'', ''merge'', ''create'', ''execute'', ''declare''] then False
      else explained ws)"

definition readOnlySettings :: "string list" where
  "readOnlySettings = [''search_path'', ''schema'', ''statement_timeout'', ''lock_timeout'',
     ''idle_in_transaction_session_timeout'', ''application_name'', ''timezone'', ''datestyle'', ''intervalstyle'',
     ''extra_float_digits'', ''client_min_messages'', ''bytea_output'', ''standard_conforming_strings'', ''client_encoding'',
     ''names'']"

definition readOnlySet :: "string list \<Rightarrow> string \<Rightarrow> bool" where
  "readOnlySet words raw =
     (if ''write'' \<in> set words then False
      else
        (let name = tl words;
             name' = (case name of n # ns \<Rightarrow> if n = ''session'' \<or> n = ''local'' then ns else name | [] \<Rightarrow> []) in
         case name' of
           [] \<Rightarrow> False
         | n # ns \<Rightarrow>
             if n = ''transaction'' \<or> n = ''characteristics'' \<or> n = ''constraints'' then True
             else if n = ''time'' \<and> ns \<noteq> [] \<and> hd ns = ''zone'' then True
             else if n = ''search_path'' \<or> n = ''schema'' then backslash \<notin> set raw
             else n \<in> set readOnlySettings))"

definition readOnlyStatement :: "string list \<Rightarrow> string \<Rightarrow> bool" where
  "readOnlyStatement words raw =
     (case words of
        [] \<Rightarrow> True
      | w0 # rest \<Rightarrow>
          if w0 \<in> set read_keywords \<or> w0 = ''declare'' then readQuery words
          else if w0 = ''explain'' then explained rest
          else if w0 \<in> set control_keywords then True
          else if w0 = ''begin'' \<or> w0 = ''start'' then ''write'' \<notin> set words
          else if w0 = ''set'' then readOnlySet words raw
          else if w0 = ''reset'' then length words = 2 \<and> hd rest \<in> set readOnlySettings
          else False)"

definition readOnlyAllowed :: "string \<Rightarrow> bool" where
  "readOnlyAllowed sql =
     (if list_ex (lower_contains sql)
           [''pg_temp'', ''set_config'', ''pg_settings'', [CHR ''u'', CHR ''&'', squote], [CHR ''u'', CHR ''&'', dquote]]
      then False
      else if createsTemporary sql then False
      else case splitStatementsRaw sql of
        None \<Rightarrow> False
      | Some (statements, raw) \<Rightarrow> list_all (\<lambda>(s, r). readOnlyStatement (sqlWords s) r) (zip statements raw))"

section \<open>The pieces of a split text\<close>

declare split_scan.simps [simp del]

lemma split_scan_Cons_cases:
  assumes "split_scan pre (c # s) cur raw = Some (ss, rs)"
  obtains ss' rs' where "c = CHR '';''" "split_scan (c # pre) s [] [] = Some (ss', rs')" "ss = cur # ss'" "rs = raw # rs'"
  | w r eaten where "c \<noteq> CHR '';''" "sql_token pre c s = Some (w, r)" "eaten @ r = c # s" "eaten \<noteq> []"
      "eaten = take (Suc (length s) - length r) (c # s)" "split_scan (rev eaten @ pre) r (cur @ w) (raw @ eaten) = Some (ss, rs)"
proof (cases "c = CHR '';''")
  case True
  with assms that(1) show thesis by (auto simp: split_scan.simps(2))
next
  case False
  with assms obtain w r where tok: "sql_token pre c s = Some (w, r)"
    by (auto simp: split_scan.simps(2) split: option.splits)
  let ?eaten = "take (Suc (length s) - length r) (c # s)"
  have suf: "suffix r s" by (rule sql_token_suffix [OF tok])
  then have "?eaten @ r = c # s" "?eaten \<noteq> []" by (auto simp: suffix_def Suc_diff_le)
  moreover have "split_scan (rev ?eaten @ pre) r (cur @ w) (raw @ ?eaten) = Some (ss, rs)"
    using False assms tok by (simp add: split_scan.simps(2) Let_def)
  ultimately show thesis using that(2) [OF False tok _ _ refl] by blast
qed

lemma split_scan_pieces:
  "split_scan pre s cur raw = Some (ss, rs) \<Longrightarrow>
     concat (map (\<lambda>r. r @ '';'') rs) = raw @ s @ '';'' \<and> length ss = length rs"
proof (induction pre s cur raw arbitrary: ss rs rule: split_scan.induct)
  case (1 pre cur raw)
  then show ?case by (auto simp: split_scan.simps(1))
next
  case (2 pre c s cur raw)
  from "2.prems" show ?case
  proof (cases rule: split_scan_Cons_cases)
    case (1 ss' rs')
    with "2.IH"(1) [OF 1(1,2)] show ?thesis by simp
  next
    case (2 w r eaten)
    have "concat (map (\<lambda>r. r @ '';'') rs) = (raw @ eaten) @ r @ '';'' \<and> length ss = length rs"
      using "2.IH"(2) [OF 2(1,2) refl 2(5)] 2(6) by simp
    with 2(3) show ?thesis by (metis append.assoc append_Cons)
  qed
qed

text \<open>A token does not depend on what precedes a semicolon, nor on what follows one it does not reach.\<close>

lemma sql_token_context:
  "sql_token (x @ CHR '';'' # y) c s = sql_token x c s"
  by (cases x; cases "tl x") (auto simp: sql_token_def escape_string_def after_ident_def identChar_def char_class_defs)

lemma HasPrefix_byte_append: "b \<noteq> d \<Longrightarrow> HasPrefix (s @ d # t) [b] = HasPrefix s [b]"
  by (cases s) (auto simp: HasPrefix_Cons)

lemma tl_append_ne: "HasPrefix s [b] \<Longrightarrow> tl (s @ t) = tl s @ t"
  by (cases s) auto

lemma suffix_too_long: "suffix (r @ CHR '';'' # t) t \<Longrightarrow> False"
  by (auto dest: suffix_length_le)

lemma block_comment_before:
  "block_comment d (s @ CHR '';'' # t) = Some (r @ CHR '';'' # t) \<Longrightarrow> block_comment d s = Some r"
proof (induction d s rule: block_comment.induct)
  case (1 d)
  then show ?case using suffix_too_long by (auto dest!: block_comment_suffix split: if_splits)
next
  case (2 d c s)
  then show ?case
    by (auto simp: HasPrefix_byte_append tl_append_ne split: if_splits)
qed

lemma quoted_before:
  "q \<noteq> CHR '';'' \<Longrightarrow> quoted q e (s @ CHR '';'' # t) = Some (r @ CHR '';'' # t) \<Longrightarrow> quoted q e s = Some r"
proof (induction q e s rule: quoted.induct)
  case (1 q e)
  then show ?case using suffix_too_long by (auto dest!: quoted_suffix split: if_splits)
next
  case (2 q e c s)
  show ?case
  proof (cases "s = []")
    case True
    have "suffix (r @ CHR '';'' # t) t" if "quoted q e t = Some (r @ CHR '';'' # t)"
      using that quoted_suffix by blast
    with 2 True suffix_too_long [of r t] show ?thesis
      by (auto split: if_splits simp: HasPrefix_Cons dest!: quoted_suffix)
  next
    case False
    with 2 show ?thesis
      by (auto simp: HasPrefix_byte_append tl_append_ne split: if_splits)
  qed
qed

lemma dropWhile_before:
  assumes "dropWhile (\<lambda>d. d \<noteq> newline) (s @ CHR '';'' # t) = r @ CHR '';'' # t"
  shows "dropWhile (\<lambda>d. d \<noteq> newline) s = r"
proof (cases "newline \<in> set s")
  case True
  with assms show ?thesis by (simp add: dropWhile_append1)
next
  case False
  then have "dropWhile (\<lambda>d. d \<noteq> newline) (s @ u) = dropWhile (\<lambda>d. d \<noteq> newline) u" for u
    by (induction s) auto
  with assms have "dropWhile (\<lambda>d. d \<noteq> newline) t = r @ CHR '';'' # t" by simp
  then have "suffix (r @ CHR '';'' # t) t" by (metis suffix_dropWhile)
  then show ?thesis using suffix_too_long by blast
qed


lemma str_index_before:
  assumes "str_index (u @ CHR '';'' # t) p = Some k" and "k + length p \<le> length u"
  shows "str_index u p = Some k"
  using assms
proof (induction u arbitrary: k)
  case Nil
  then show ?case by (auto simp: HasPrefix_def split: if_splits)
next
  case (Cons c u)
  show ?case
  proof (cases "HasPrefix (c # u @ CHR '';'' # t) p")
    case True
    with Cons.prems have "k = 0" "length p \<le> length (c # u)" by auto
    moreover from this True have "HasPrefix (c # u) p" by (auto simp: HasPrefix_def take_append simp flip: append_Cons)
    ultimately show ?thesis by simp
  next
    case False
    with Cons.prems obtain j where j: "str_index (u @ CHR '';'' # t) p = Some j" "k = Suc j" by auto
    have "\<not> HasPrefix (c # u) p" using False by (auto simp: HasPrefix_iff) (metis append.assoc append_Cons)
    with j Cons.IH [of j] Cons.prems(2) show ?thesis by simp
  qed
qed

lemma dollar_name_before: "dollar_name (s @ CHR '';'' # t) = dollar_name s"
proof -
  have "\<not> identChar (CHR '';'')" "\<not> is_digit (CHR '';'')" by code_simp+
  then show ?thesis by (cases s) (simp_all add: dollar_name_def takeWhile_tail)
qed

lemma sql_token_before:
  assumes "sql_token pre c (s @ CHR '';'' # t) = Some (w, r @ CHR '';'' # t)"
  shows "sql_token pre c s = Some (w, r)"
proof -
  let ?rest = "drop (length (dollar_name s)) s" and ?tag = "''$'' @ dollar_name s @ ''$''"
  have len: "length (dollar_name s) \<le> length s"
    by (cases s) (auto simp: dollar_name_def length_takeWhile_le intro: le_SucI)
  have dollar: "map_option (\<lambda>k. drop (k + length ?tag) (tl ?rest)) (str_index (tl ?rest) ?tag) = Some r"
    if h: "HasPrefix ?rest ''$''" "str_index (tl ?rest @ CHR '';'' # t) ?tag = Some k"
      "drop (k + length ?tag) (tl ?rest @ CHR '';'' # t) = r @ CHR '';'' # t" for k
  proof -
    have "k + length ?tag \<le> length (tl ?rest)"
    proof (rule ccontr)
      assume "\<not> k + length ?tag \<le> length (tl ?rest)"
      with h(3) have "drop (k + length ?tag - length (tl ?rest)) (CHR '';'' # t) = r @ CHR '';'' # t" by simp
      moreover have "0 < k + length ?tag - length (tl ?rest)" using \<open>\<not> _\<close> by simp
      ultimately have "suffix (r @ CHR '';'' # t) t" by (metis drop_Cons' nat_neq_iff suffix_drop)
      then show False by (rule suffix_too_long)
    qed
    with str_index_before [OF h(2)] h(3) show ?thesis by simp
  qed
  have sq: "quoted squote e s = Some r" if "quoted squote e (s @ CHR '';'' # t) = Some (r @ CHR '';'' # t)" for e
    using that by (rule quoted_before [rotated]) simp
  have dq: "quoted dquote e s = Some r" if "quoted dquote e (s @ CHR '';'' # t) = Some (r @ CHR '';'' # t)" for e
    using that by (rule quoted_before [rotated]) simp
  have bc: "block_comment 0 (d # s) = Some r" if "block_comment 0 (d # s @ CHR '';'' # t) = Some (r @ CHR '';'' # t)" for d
    by (rule block_comment_before [of 0 "d # s" t r, unfolded append_Cons, OF that])
  show ?thesis
    using assms len dollar
    by (auto simp: sql_token_def Let_def HasPrefix_byte_append dollar_name_before tl_append_ne
        simp del: block_comment.simps quoted.simps dest: dropWhile_before sq dq bc split: if_splits option.splits)
qed

lemma split_scan_context: "split_scan (x @ CHR '';'' # y) s cur raw = split_scan x s cur raw"
proof (induction x s cur raw rule: split_scan.induct)
  case (2 pre c s cur raw)
  show ?case
  proof (cases "c = CHR '';''")
    case True
    with "2.IH"(1) show ?thesis by (simp add: split_scan.simps(2))
  next
    case False
    show ?thesis
    proof (cases "sql_token pre c s")
      case (Some wr)
      with "2.IH"(2) [OF False Some] False show ?thesis
        by (cases wr) (simp add: split_scan.simps(2) sql_token_context Let_def)
    qed (simp add: False split_scan.simps(2) sql_token_context)
  qed
qed (simp add: split_scan.simps(1))

text \<open>The first piece of a text that splits, read alone, and the rest read alone.\<close>

lemma split_scan_first:
  "split_scan pre s cur raw = Some (ss, rs) \<Longrightarrow>
     rs = [raw @ s] \<and> length ss = 1
     \<or> (\<exists>u v. s = u @ CHR '';'' # v \<and> hd rs = raw @ u \<and> split_scan pre u cur raw = Some ([hd ss], [raw @ u])
          \<and> ss \<noteq> [] \<and> rs \<noteq> [] \<and> split_scan [] v [] [] = Some (tl ss, tl rs))"
proof (induction pre s cur raw arbitrary: ss rs rule: split_scan.induct)
  case (1 pre cur raw)
  then show ?case by (auto simp: split_scan.simps(1))
next
  case (2 pre c s cur raw)
  from "2.prems" show ?case
  proof (cases rule: split_scan_Cons_cases)
    case (1 ss' rs')
    with split_scan_context [of "[]" pre s] show ?thesis by (auto simp: split_scan.simps(1) intro!: exI [of _ "[]"])
  next
    case (2 w r eaten)
    from "2.IH"(2) [OF 2(1,2) refl 2(5,6)] show ?thesis
    proof (elim disjE exE conjE)
      assume "rs = [(raw @ eaten) @ r]" "length ss = 1"
      with 2(3) show ?thesis by simp
    next
      fix u v
      assume h: "r = u @ CHR '';'' # v" "hd rs = (raw @ eaten) @ u"
        "split_scan (rev eaten @ pre) u (cur @ w) (raw @ eaten) = Some ([hd ss], [(raw @ eaten) @ u])"
        "ss \<noteq> []" "rs \<noteq> []" "split_scan [] v [] [] = Some (tl ss, tl rs)"
      from 2(3,4) obtain e where e: "eaten = c # e" "s = e @ r" by (cases eaten) auto
      have tok: "sql_token pre c (e @ u) = Some (w, u)"
        using 2(2) sql_token_before [of pre c "e @ u" v w u] e(2) h(1) by simp
      have "split_scan pre (c # e @ u) cur raw = Some ([hd ss], [raw @ eaten @ u])"
        using tok h(3) 2(1) e(1) by (simp add: split_scan.simps(2) Let_def)
      with h e show ?thesis by (auto intro!: exI [of _ "c # e @ u"])
    qed
  qed
qed

lemma split_pieces_alone:
  "splitStatementsRaw sql = Some (ss, rs) \<Longrightarrow> list_all2 (\<lambda>s r. splitStatementsRaw r = Some ([s], [r])) ss rs"
proof (induction "length sql" arbitrary: sql ss rs rule: less_induct)
  case less
  from split_scan_first [OF less.prems [unfolded splitStatementsRaw_def]] show ?case
  proof (elim disjE exE conjE)
    assume one: "rs = [[] @ sql]" "length ss = 1"
    then obtain x where "ss = [x]" by (auto simp: length_Suc_conv)
    with one less.prems show ?thesis by simp
  next
    fix u v
    assume h: "sql = u @ CHR '';'' # v" "hd rs = [] @ u" "split_scan [] u [] [] = Some ([hd ss], [[] @ u])"
      "ss \<noteq> []" "rs \<noteq> []" "split_scan [] v [] [] = Some (tl ss, tl rs)"
    have "list_all2 (\<lambda>s r. splitStatementsRaw r = Some ([s], [r])) (tl ss) (tl rs)"
      using h by (intro less.hyps [of v]) (simp_all add: splitStatementsRaw_def)
    moreover obtain s0 ss' r0 rs' where "ss = s0 # ss'" "rs = r0 # rs'" using h(4,5) by (cases ss; cases rs) auto
    ultimately show ?thesis using h(2,3) by (simp add: splitStatementsRaw_def)
  qed
qed

lemma split_decides:
  assumes "splitStatementsRaw sql = Some (ss, rs)"
    and "\<And>t. D t = (case splitStatements t of None \<Rightarrow> True | Some statements \<Rightarrow> list_ex P statements)"
  shows "D sql = list_ex D rs"
proof -
  have "list_all2 (\<lambda>s r. P s = D r) ss rs"
    using split_pieces_alone [OF assms(1)]
    by (rule list_all2_mono) (simp add: assms(2) splitStatements_def)
  then have "list_ex P ss = list_ex D rs" by (induction rule: list_all2_induct) auto
  with assms show ?thesis by (simp add: splitStatements_def)
qed

section \<open>What a read-only login can send\<close>

text \<open>
  The rules as they are documented, for the words of one statement and its raw text: a query or a cursor that names nothing which writes; an
  \<open>explain\<close> of such a query; transaction control that does not ask for writes; a \<open>set\<close> of the
  transaction, of the time zone or of a listed setting (with no escape in a search path) that does not ask for writes; a \<open>reset\<close> of
  one listed setting. Nothing else, so no setting that would turn the read-only default off.
\<close>

definition reads_only :: "string list \<Rightarrow> bool" where
  "reads_only ws \<longleftrightarrow> set ws \<inter> {''insert'', ''update'', ''delete'', ''merge'', ''into'', ''create'', ''drop'', ''alter'', ''truncate'',
     ''grant'', ''revoke'', ''copy'', ''call'', ''do'', ''lock'', ''listen'', ''notify'', ''refresh'', ''vacuum'', ''cluster'',
     ''reindex'', ''import'', ''security''} = {}"

definition harmless_setting :: "string \<Rightarrow> bool" where
  "harmless_setting s \<longleftrightarrow> s \<in> {''search_path'', ''schema'', ''statement_timeout'', ''lock_timeout'',
     ''idle_in_transaction_session_timeout'', ''application_name'', ''timezone'', ''datestyle'', ''intervalstyle'',
     ''extra_float_digits'', ''client_min_messages'', ''bytea_output'', ''standard_conforming_strings'', ''client_encoding'', ''names''}"

definition set_target :: "string list \<Rightarrow> string \<Rightarrow> bool" where
  "set_target name raw \<longleftrightarrow> (\<exists>n more. name = n # more
     \<and> (n \<in> {''transaction'', ''characteristics'', ''constraints''} \<or> n = ''time'' \<and> (\<exists>z. more = ''zone'' # z)
        \<or> harmless_setting n \<and> (n \<in> {''search_path'', ''schema''} \<longrightarrow> backslash \<notin> set raw)))"

definition query_rule :: "string \<Rightarrow> string list \<Rightarrow> bool" where
  "query_rule w rest \<longleftrightarrow> w \<in> {''select'', ''values'', ''table'', ''with'', ''declare''} \<and> reads_only (w # rest)"

definition explain_rule :: "string \<Rightarrow> string list \<Rightarrow> bool" where
  "explain_rule w rest \<longleftrightarrow> w = ''explain'' \<and> (\<exists>pre q post. rest = pre @ q # post
     \<and> q \<in> {''select'', ''values'', ''table'', ''with''} \<and> reads_only (q # post)
     \<and> set pre \<inter> {''insert'', ''update'', ''delete'', ''merge'', ''create'', ''execute'', ''declare''} = {})"

definition control_rule :: "string \<Rightarrow> string list \<Rightarrow> bool" where
  "control_rule w rest \<longleftrightarrow>
     w \<in> {''show'', ''commit'', ''end'', ''rollback'', ''abort'', ''savepoint'', ''release'', ''fetch'', ''move'', ''close'', ''deallocate''}
     \<or> w \<in> {''begin'', ''start''} \<and> ''write'' \<notin> set rest"

definition set_rule :: "string \<Rightarrow> string list \<Rightarrow> string \<Rightarrow> bool" where
  "set_rule w rest raw \<longleftrightarrow> w = ''set'' \<and> ''write'' \<notin> set rest
     \<and> (set_target rest raw \<or> (\<exists>name. (rest = ''session'' # name \<or> rest = ''local'' # name) \<and> set_target name raw))"

definition reset_rule :: "string \<Rightarrow> string list \<Rightarrow> bool" where
  "reset_rule w rest \<longleftrightarrow> w = ''reset'' \<and> (\<exists>s. rest = [s] \<and> harmless_setting s)"

definition read_only_discipline :: "string list \<Rightarrow> string \<Rightarrow> bool" where
  "read_only_discipline ws raw = (case ws of
       [] \<Rightarrow> True
     | w # rest \<Rightarrow> query_rule w rest \<or> explain_rule w rest \<or> control_rule w rest \<or> set_rule w rest raw \<or> reset_rule w rest)"

lemma readQuery_reads: "readQuery ws \<longleftrightarrow> reads_only ws"
  by (auto simp: readQuery_def reads_only_def write_keywords_def list_all_iff)

lemma disjoint_Cons: "w \<notin> S \<Longrightarrow> set pre \<inter> S = {} \<Longrightarrow> set (w # pre) \<inter> S = {}"
  by auto

lemma explained_reads:
  "explained ws \<Longrightarrow> explain_rule ''explain'' ws"
proof (induction ws)
  case (Cons w ws)
  let ?S = "{''insert'', ''update'', ''delete'', ''merge'', ''create'', ''execute'', ''declare''}"
  show ?case
  proof (cases "w \<in> set read_keywords")
    case True
    then have q: "w \<in> {''select'', ''values'', ''table'', ''with''}" unfolding read_keywords_def list.set .
    have "readQuery (w # ws)" using Cons.prems True unfolding explained.simps by meson
    then have r: "reads_only (w # ws)" unfolding readQuery_reads .
    have "w # ws = [] @ w # ws" "set [] \<inter> ?S = {}" by (simp_all only: append_Nil list.set Int_empty_left)
    with q r show ?thesis unfolding explain_rule_def by meson
  next
    case False
    then have "w \<notin> set [''insert'', ''update'', ''delete'', ''merge'', ''create'', ''execute'', ''declare''] \<and> explained ws"
      using Cons.prems unfolding explained.simps by meson
    then have w: "w \<notin> ?S" "explained ws" unfolding list.set by (rule conjunct1, rule conjunct2)
    from Cons.IH [OF w(2)] obtain pre q post where p: "ws = pre @ q # post" "q \<in> {''select'', ''values'', ''table'', ''with''}"
        "reads_only (q # post)" "set pre \<inter> ?S = {}" unfolding explain_rule_def by (elim conjE exE) (rule that)
    have "w # ws = (w # pre) @ q # post" "set (w # pre) \<inter> ?S = {}"
      using p(1) disjoint_Cons [OF w(1) p(4)] by (simp_all only: append_Cons)
    with p(2,3) show ?thesis unfolding explain_rule_def by meson
  qed
qed (simp only: explained.simps)

lemma readOnlySettings_harmless: "n \<in> set readOnlySettings \<longleftrightarrow> harmless_setting n"
  unfolding readOnlySettings_def harmless_setting_def by simp

lemma set_targetI:
  "(if n = ''transaction'' \<or> n = ''characteristics'' \<or> n = ''constraints'' then True
    else if n = ''time'' \<and> ns \<noteq> [] \<and> hd ns = ''zone'' then True
    else if n = ''search_path'' \<or> n = ''schema'' then backslash \<notin> set raw
    else n \<in> set readOnlySettings) \<Longrightarrow> set_target (n # ns) raw"
  unfolding set_target_def readOnlySettings_harmless by (cases ns) (auto simp: harmless_setting_def split: if_splits)

lemma readOnlySet_target:
  assumes "readOnlySet (''set'' # rest) raw"
  shows "set_rule ''set'' rest raw"
proof -
  have w: "''write'' \<notin> set (''set'' # rest)" using assms unfolding readOnlySet_def by meson
  define name where "name = (case rest of n # ns \<Rightarrow> if n = ''session'' \<or> n = ''local'' then ns else rest | [] \<Rightarrow> [])"
  have r: "case name of [] \<Rightarrow> False | n # ns \<Rightarrow>
      if n = ''transaction'' \<or> n = ''characteristics'' \<or> n = ''constraints'' then True
      else if n = ''time'' \<and> ns \<noteq> [] \<and> hd ns = ''zone'' then True
      else if n = ''search_path'' \<or> n = ''schema'' then backslash \<notin> set raw
      else n \<in> set readOnlySettings"
    using assms w unfolding readOnlySet_def Let_def list.sel name_def [symmetric] by meson
  have t: "set_target name raw"
  proof (cases name)
    case Nil
    with r show ?thesis by (simp only: list.case)
  next
    case (Cons n ns)
    show ?thesis unfolding Cons by (rule set_targetI) (use r in \<open>simp only: Cons list.case\<close>)
  qed
  have "rest = name \<or> rest = ''session'' # name \<or> rest = ''local'' # name"
    unfolding name_def by (cases rest) simp_all
  with w t show ?thesis unfolding set_rule_def list.set by (metis insertCI)
qed

lemma readOnlyStatement_discipline:
  assumes "readOnlyStatement ws raw"
  shows "read_only_discipline ws raw"
proof (cases ws)
  case (Cons w0 rest)
  consider "w0 \<in> set read_keywords \<or> w0 = ''declare''" "readQuery ws" | "w0 = ''explain''" "explained rest"
    | "w0 \<in> set control_keywords" | "w0 = ''begin'' \<or> w0 = ''start''" "''write'' \<notin> set ws" | "w0 = ''set''" "readOnlySet ws raw"
    | "w0 = ''reset''" "length ws = 2" "hd rest \<in> set readOnlySettings"
    using assms [unfolded readOnlyStatement_def Cons list.case, folded Cons] by meson
  then have "query_rule w0 rest \<or> explain_rule w0 rest \<or> control_rule w0 rest \<or> set_rule w0 rest raw \<or> reset_rule w0 rest"
  proof cases
    case 1
    then have "query_rule w0 rest" unfolding query_rule_def readQuery_reads Cons read_keywords_def by auto
    then show ?thesis by blast
  next
    case 2
    then show ?thesis using explained_reads by blast
  next
    case 3
    then have "control_rule w0 rest" unfolding control_rule_def control_keywords_def by simp
    then show ?thesis by blast
  next
    case 4
    then have "control_rule w0 rest" unfolding control_rule_def Cons by auto
    then show ?thesis by blast
  next
    case 5
    then show ?thesis using readOnlySet_target unfolding Cons by blast
  next
    case 6
    then obtain s where "rest = [s]" using Cons by (cases rest) auto
    with 6 have "reset_rule w0 rest" unfolding reset_rule_def readOnlySettings_harmless by simp
    then show ?thesis by blast
  qed
  then show ?thesis unfolding read_only_discipline_def Cons list.case .
qed (simp add: read_only_discipline_def)

lemma discipline_no_alter: "read_only_discipline ws raw \<Longrightarrow> \<not> alters_role ws"
  by (auto simp: read_only_discipline_def query_rule_def explain_rule_def control_rule_def set_rule_def reset_rule_def alters_role_def
      split: list.splits)

lemma readOnlyAllowed_split:
  assumes "readOnlyAllowed sql"
  obtains ss rs where "splitStatementsRaw sql = Some (ss, rs)" "list_all2 (\<lambda>s r. read_only_discipline (sqlWords s) r) ss rs"
proof -
  from assms obtain ss rs where sp: "splitStatementsRaw sql = Some (ss, rs)"
      and all: "list_all (\<lambda>(s, r). readOnlyStatement (sqlWords s) r) (zip ss rs)"
    by (auto simp: readOnlyAllowed_def split: if_splits option.splits)
  have "length ss = length rs" using split_scan_pieces [OF sp [unfolded splitStatementsRaw_def]] by simp
  then have "list_all2 (\<lambda>s r. read_only_discipline (sqlWords s) r) ss rs"
    using all readOnlyStatement_discipline by (auto simp: list_all2_iff list_all_iff)
  with sp that show ?thesis by blast
qed

text \<open>What every text that passes looks like.\<close>

definition read_only_text :: "string \<Rightarrow> bool" where
  "read_only_text sql \<longleftrightarrow> \<not> changesRole sql \<and> \<not> createsTemporary sql
     \<and> (\<forall>b \<in> {''pg_temp'', ''set_config'', ''pg_settings'', [CHR ''u'', CHR ''&'', squote], [CHR ''u'', CHR ''&'', dquote]}. \<not> lower_contains sql b)
     \<and> (\<exists>ss rs. splitStatementsRaw sql = Some (ss, rs) \<and> list_all2 (\<lambda>s r. read_only_discipline (sqlWords s) r) ss rs)"

lemma readOnlyAllowed_safe:
  assumes "readOnlyAllowed sql"
  shows "read_only_text sql"
  using assms
proof (rule readOnlyAllowed_split)
  fix ss rs assume h: "splitStatementsRaw sql = Some (ss, rs)" "list_all2 (\<lambda>s r. read_only_discipline (sqlWords s) r) ss rs"
  have "\<not> createsTemporary sql" "\<not> list_ex (lower_contains sql)
           [''pg_temp'', ''set_config'', ''pg_settings'', [CHR ''u'', CHR ''&'', squote], [CHR ''u'', CHR ''&'', dquote]]"
    using assms unfolding readOnlyAllowed_def by meson+
  moreover have "\<not> alters_role (sqlWords s)" if "s \<in> set ss" for s
  proof -
    from that h(2) obtain r where "read_only_discipline (sqlWords s) r"
      by (metis in_set_conv_nth list_all2_conv_all_nth)
    then show ?thesis by (rule discipline_no_alter)
  qed
  then have "\<not> changesRole sql" using h(1) by (auto simp: changesRole_def splitStatements_def list_ex_iff)
  ultimately show ?thesis using h unfolding read_only_text_def by (auto simp: list_ex_iff)
qed

section \<open>The settings of the lexer in a session\<close>

text \<open>The statements of a text with their words, empty ones left out; an unterminated text counts as one other statement.\<close>

definition lexer_view :: "string \<Rightarrow> (bool \<times> bool) list" where
  "lexer_view sql = (case splitStatementsRaw sql of
       None \<Rightarrow> [(False, False)]
     | Some (ss, rs) \<Rightarrow> map (\<lambda>(s, r). lexerSetting (sqlWords s) r) (filter (\<lambda>(s, r). sqlWords s \<noteq> []) (zip ss rs)))"

text \<open>Safe settings first, then only other statements.\<close>

fun lexer_order :: "bool \<Rightarrow> (bool \<times> bool) list \<Rightarrow> bool" where
  "lexer_order started [] = True"
| "lexer_order started ((isSet, safe) # vs) =
     ((isSet \<longrightarrow> safe \<and> \<not> started) \<and> lexer_order (started \<or> \<not> isSet) vs)"

definition lexer_started :: "bool \<Rightarrow> (bool \<times> bool) list \<Rightarrow> bool" where
  "lexer_started started vs \<longleftrightarrow> started \<or> list_ex (\<lambda>(isSet, safe). \<not> isSet) vs"

lemma lexer_order_append:
  "lexer_order started (us @ vs) = (lexer_order started us \<and> lexer_order (lexer_started started us) vs)"
  by (induction us arbitrary: started) (auto simp: lexer_started_def)

lemma lexer_loop_order:
  "lexer_loop xs started = (False, next) \<longleftrightarrow>
     lexer_order started (map (\<lambda>(s, r). lexerSetting (sqlWords s) r) (filter (\<lambda>(s, r). sqlWords s \<noteq> []) xs))
     \<and> next = lexer_started started (map (\<lambda>(s, r). lexerSetting (sqlWords s) r) (filter (\<lambda>(s, r). sqlWords s \<noteq> []) xs))"
proof (induction xs started rule: lexer_loop.induct)
  case (2 s r rest started)
  show ?case
  proof (cases "lexerSetting (sqlWords s) r")
    case (Pair isSet safe)
    with 2 show ?thesis by (cases isSet) (auto simp: Let_def lexer_started_def)
  qed
qed (auto simp: lexer_started_def)

lemma changesLexer_order:
  "changesLexer sql started = (False, next) \<Longrightarrow>
     lexer_order started (lexer_view sql) \<and> next = lexer_started started (lexer_view sql)"
  by (auto simp: changesLexer_def lexer_view_def lexer_loop_order lexer_started_def split: option.splits)

section \<open>Properties\<close>

text \<open>
  Claim C28. Splitting loses nothing and is context-free: the pieces of a text that splits, put together
  with semicolons, are the text, every piece read alone is the one statement it was read as, and
  whether the text needs a session of its own or changes a role is decided piece by piece.
\<close>

theorem split_statements_exact:
  assumes "splitStatementsRaw sql = Some (statements, raw)"
  shows "concat (map (\<lambda>r. r @ '';'') raw) = sql @ '';''
    \<and> list_all2 (\<lambda>s r. splitStatementsRaw r = Some ([s], [r])) statements raw
    \<and> needsSession sql = list_ex needsSession raw
    \<and> changesRole sql = list_ex changesRole raw"
  using split_scan_pieces [OF assms [unfolded splitStatementsRaw_def]] split_pieces_alone [OF assms]
    split_decides [OF assms, of needsSession] split_decides [OF assms, of changesRole]
  by (simp add: needsSession_def changesRole_def)

theorem split_statements_exact_witness:
  "splitStatementsRaw ''begin;select $$;$$ -- ;'' = Some ([''begin'', ''select '' @ [squote, squote] @ ''  ''], [''begin'', ''select $$;$$ -- ;''])
   \<and> \<not> needsSession ''begin;select $$;$$ -- ;''"
proof -
  have sp: "splitStatementsRaw ''begin;select $$;$$ -- ;''
      = Some ([''begin'', ''select '' @ [squote, squote] @ ''  ''], [''begin'', ''select $$;$$ -- ;''])" by code_simp
  have "\<not> list_ex needsSession [''begin'', ''select $$;$$ -- ;'']" by code_simp
  with sp split_statements_exact [OF sp] show ?thesis by simp
qed

end
