(* ===== verification/PgWire.thy ===== *)
theory PgWire
  imports SqlText AuditRow
begin

text \<open>
  The PostgreSQL wire protocol as the broker relays it: the relay of a read-only login
  (internal/pgproxy/readonly_relay.go), which classifies every statement a client sends and follows the
  framing of what the server sends. A stream is the list of its bytes.
\<close>

section \<open>Frames\<close>

definition uint32_of :: "string \<Rightarrow> nat" where
  "uint32_of bs = foldl (\<lambda>a c. a * 256 + byte_of c) 0 bs"

definition frame_bytes :: "char \<times> string \<Rightarrow> string" where
  "frame_bytes f = fst f # be32 (length (snd f) + 4) @ snd f"

definition frame_ok :: "char \<times> string \<Rightarrow> bool" where
  "frame_ok f \<longleftrightarrow> length (snd f) + 4 < 2 ^ 32"

lemma uint32_be32 [simp]: "n < 2 ^ 32 \<Longrightarrow> uint32_of (be32 n) = n"
proof -
  assume n: "n < 2 ^ 32"
  have step: "n div 2 ^ (k + 8) * 256 + n div 2 ^ k mod 256 = n div 2 ^ k" for k
    by (simp add: power_add div_mult2_eq div_mult_mod_eq)
  have "n div 2 ^ 24 mod 256 = n div 2 ^ 24" using n by simp
  with step [of 16] step [of 8] step [of 0] show ?thesis by (simp add: uint32_of_def be32_def)
qed

lemma length_be32 [simp]: "length (be32 n) = 4"
  by (simp add: be32_def)

lemma be32_uint32:
  assumes "length bs = 4"
  shows "be32 (uint32_of bs) = bs"
proof -
  from assms obtain a b c d where bs: "bs = [a, b, c, d]" by (auto simp: numeral_eq_Suc length_Suc_conv)
  have lt: "byte_of x < 256" for x :: char by simp
  let ?v = "((byte_of a * 256 + byte_of b) * 256 + byte_of c) * 256 + byte_of d"
  have byte: "(x * 256 + byte_of y) div 256 = x" "(x * 256 + byte_of y) mod 256 = byte_of y" for x and y :: char
    using lt [of y] by simp_all
  have pow: "n div 2 ^ 8 = n div 256" "n div 2 ^ 16 = n div 256 div 256" "n div 2 ^ 24 = n div 256 div 256 div 256" for n :: nat
    by (simp_all flip: div_mult2_eq)
  have "?v div 2 ^ 24 mod 256 = byte_of a" "?v div 2 ^ 16 mod 256 = byte_of b" "?v div 2 ^ 8 mod 256 = byte_of c"
    "?v mod 256 = byte_of d"
    using lt [of a] unfolding pow byte by simp_all
  then show ?thesis by (simp only: bs uint32_of_def be32_def foldl.simps mult_0 add_0 char_of_char)
qed

lemma uint32_of_less: "length bs = 4 \<Longrightarrow> uint32_of bs < 2 ^ 32"
proof -
  assume "length bs = 4"
  then obtain a b c d where bs: "bs = [a, b, c, d]" by (auto simp: numeral_eq_Suc length_Suc_conv)
  have "w < 256 \<Longrightarrow> x < 256 \<Longrightarrow> y < 256 \<Longrightarrow> z < 256 \<Longrightarrow> ((w * 256 + x) * 256 + y) * 256 + z < 2 ^ 32" for w x y z :: nat
    by simp
  from this [of "byte_of a" "byte_of b" "byte_of c" "byte_of d"]
  have "((byte_of a * 256 + byte_of b) * 256 + byte_of c) * 256 + byte_of d < 2 ^ 32" by simp
  then show ?thesis by (simp add: bs uint32_of_def)
qed

section \<open>Statements of a read-only client\<close>

definition maxReadOnlyStatementBytes :: nat where
  "maxReadOnlyStatementBytes = 64 * 2 ^ 20"

definition statementText :: "char \<Rightarrow> string \<Rightarrow> string option" where
  "statementText kind payload =
     (let payload' = (if kind = CHR ''P'' then map_option (\<lambda>n. drop (Suc n) payload) (index_byte (CHR 0x00) payload)
                      else Some payload) in
      case payload' of
        None \<Rightarrow> None
      | Some p \<Rightarrow> map_option (\<lambda>n. take n p) (index_byte (CHR 0x00) p))"

text \<open>
  What is written upstream, and whether a statement was refused. The bytes that reach the server are a
  prefix of it: the writer flushes when the client has nothing more buffered, and a failed write ends
  the relay.
\<close>

function copyClientReadOnly :: "bool \<Rightarrow> string \<Rightarrow> string \<times> bool" where
  "copyClientReadOnly started input =
     (if length input < 5 then ([], False)
      else
        (let header = take 5 input; r = drop 5 input; len = uint32_of (tl header); body = len - 4; kind = hd header in
         if len < 4 then ([], False)
         else if kind = CHR ''F'' then ([], True)
         else if kind = CHR ''Q'' \<or> kind = CHR ''P'' then
           (if body > maxReadOnlyStatementBytes then ([], True)
            else if length r < body then ([], False)
            else case statementText kind (take body r) of
              None \<Rightarrow> ([], False)
            | Some sql \<Rightarrow>
                (let (refused, started') = changesLexer sql started in
                 if refused \<or> \<not> readOnlyAllowed sql then ([], True)
                 else (let (w, res) = copyClientReadOnly started' (drop body r)
                       in (header @ take body r @ w, res))))
         else if length r < body then (header @ r, False)
         else (let (w, res) = copyClientReadOnly started (drop body r)
               in (header @ take body r @ w, res))))"
  by pat_completeness auto
termination
  by (relation "measure (\<lambda>(started, input). length input)") auto

section \<open>Framing of the server's stream\<close>

record frame_tracker =
  ft_header :: string
  ft_remaining :: nat
  ft_broken :: bool
  ft_last :: char
  ft_status :: char
  ft_first :: bool

definition new_tracker :: frame_tracker where
  "new_tracker = \<lparr>ft_header = [], ft_remaining = 0, ft_broken = False, ft_last = CHR 0x00, ft_status = CHR 0x00, ft_first = False\<rparr>"

text \<open>\<open>ft_header\<close> holds the header bytes seen, fewer than five between calls.\<close>

function advance :: "frame_tracker \<Rightarrow> string \<Rightarrow> frame_tracker" where
  "advance t p =
     (if p = [] \<or> ft_broken t \<or> 5 \<le> length (ft_header t) then t
      else if ft_remaining t > 0 then
        (let t1 = (if ft_first t \<and> ft_last t = CHR ''Z'' then t\<lparr>ft_status := hd p\<rparr> else t);
             k = min (length p) (ft_remaining t)
         in advance (t1\<lparr>ft_first := False, ft_remaining := ft_remaining t - k\<rparr>) (drop k p))
      else
        (let k = min (5 - length (ft_header t)) (length p);
             header = ft_header t @ take k p
         in if length header = 5 then
              (let len = uint32_of (tl header) in
               if len < 4 then t\<lparr>ft_header := [], ft_broken := True\<rparr>
               else advance (t\<lparr>ft_header := [], ft_remaining := len - 4, ft_last := hd header, ft_first := True\<rparr>) (drop k p))
            else advance (t\<lparr>ft_header := header\<rparr>) (drop k p)))"
  by pat_completeness auto
termination
  by (relation "measure (\<lambda>(t, p). length p)") auto

declare advance.simps [simp del]

definition atBoundary :: "frame_tracker \<Rightarrow> bool" where
  "atBoundary t \<longleftrightarrow> \<not> ft_broken t \<and> ft_header t = [] \<and> ft_remaining t = 0"

definition tracker_idle :: "frame_tracker \<Rightarrow> bool" where
  "tracker_idle t \<longleftrightarrow> atBoundary t \<and> ft_last t = CHR ''Z'' \<and> ft_status t = CHR ''I''"

section \<open>Byte by byte\<close>

definition advance_byte :: "frame_tracker \<Rightarrow> char \<Rightarrow> frame_tracker" where
  "advance_byte t b =
     (if ft_broken t \<or> 5 \<le> length (ft_header t) then t
      else if ft_remaining t > 0 then
        (if ft_first t \<and> ft_last t = CHR ''Z'' then t\<lparr>ft_status := b\<rparr> else t)\<lparr>ft_first := False, ft_remaining := ft_remaining t - 1\<rparr>
      else
        (let header = ft_header t @ [b] in
         if length header = 5 then
           (let len = uint32_of (tl header) in
            if len < 4 then t\<lparr>ft_header := [], ft_broken := True\<rparr>
            else t\<lparr>ft_header := [], ft_remaining := len - 4, ft_last := hd header, ft_first := True\<rparr>)
         else t\<lparr>ft_header := header\<rparr>))"

lemma advance_stuck: "ft_broken t \<or> 5 \<le> length (ft_header t) \<Longrightarrow> advance t p = t"
  by (subst advance.simps) simp

lemma advance_Nil [simp]: "advance t [] = t"
  by (subst advance.simps) simp

lemma advance_body:
  assumes "\<not> ft_broken t" "length (ft_header t) < 5" "ft_remaining t > 0"
  shows "advance t (b # p) = advance (advance_byte t b) p"
proof -
  let ?t = "advance_byte t b"
  have t: "\<not> ft_broken ?t" "length (ft_header ?t) < 5" "ft_remaining ?t = ft_remaining t - 1" "\<not> ft_first ?t"
    using assms by (simp_all add: advance_byte_def)
  have lhs: "advance t (b # p) = advance (?t\<lparr>ft_remaining := ft_remaining t - min (Suc (length p)) (ft_remaining t)\<rparr>)
      (drop (min (Suc (length p)) (ft_remaining t)) (b # p))"
    using assms by (subst advance.simps) (simp add: advance_byte_def Let_def)
  show ?thesis
  proof (cases "p = [] \<or> ft_remaining t = 1")
    case True
    with assms have k: "min (Suc (length p)) (ft_remaining t) = 1" by auto
    have "?t\<lparr>ft_remaining := ft_remaining t - 1\<rparr> = ?t" using assms by (simp add: advance_byte_def)
    then show ?thesis unfolding lhs k by simp
  next
    case False
    then obtain j where j: "min (Suc (length p)) (ft_remaining t) = Suc j" "j = min (length p) (ft_remaining ?t)"
      using t(3) assms(3) by (cases "ft_remaining t") auto
    have "advance ?t p = advance (?t\<lparr>ft_first := False, ft_remaining := ft_remaining ?t - j\<rparr>) (drop j p)"
      using False t assms(3) j(2) by (subst advance.simps) (simp add: Let_def)
    moreover have "?t\<lparr>ft_first := False, ft_remaining := ft_remaining ?t - j\<rparr> = ?t\<lparr>ft_remaining := ft_remaining t - Suc j\<rparr>"
      using t by simp
    ultimately show ?thesis unfolding lhs j(1) by simp
  qed
qed

lemma advance_header:
  assumes "\<not> ft_broken t" "length (ft_header t) < 5" "ft_remaining t = 0"
  shows "advance t (b # p) = advance (advance_byte t b) p"
proof (cases "p = [] \<or> length (ft_header t) = 4")
  case True
  with assms have k: "min (5 - length (ft_header t)) (Suc (length p)) = 1" by auto
  show ?thesis
  proof (cases "length (ft_header t) = 4")
    case len: True
    with assms k show ?thesis
      by (subst advance.simps) (auto simp: advance_byte_def Let_def advance_stuck)
  next
    case False
    with assms k True show ?thesis by (subst advance.simps) (simp add: advance_byte_def Let_def)
  qed
next
  case False
  let ?t = "t\<lparr>ft_header := ft_header t @ [b]\<rparr>"
  have t: "advance_byte t b = ?t" using False assms by (simp add: advance_byte_def Let_def)
  obtain j where j: "min (5 - length (ft_header t)) (Suc (length p)) = Suc j" "j = min (5 - length (ft_header ?t)) (length p)"
    using assms False by (cases "5 - length (ft_header t)") auto
  show ?thesis
    unfolding t using False assms j(1) j(2) [symmetric]
    by (subst (1 2) advance.simps) (simp add: Let_def)
qed

lemma advance_bytes: "advance t p = foldl advance_byte t p"
proof (induction p arbitrary: t)
  case (Cons b p)
  show ?case
  proof (cases "ft_broken t \<or> 5 \<le> length (ft_header t)")
    case True
    then have "advance_byte t b = t" by (auto simp: advance_byte_def)
    with True Cons.IH [of t] show ?thesis by (simp add: advance_stuck)
  next
    case False
    with advance_body [of t b p] advance_header [of t b p] Cons.IH show ?thesis by fastforce
  qed
qed simp

section \<open>The tracker on whole frames\<close>

lemma whole_frame:
  assumes "5 \<le> length bs" "4 \<le> uint32_of (tl (take 5 bs))" "uint32_of (tl (take 5 bs)) - 4 \<le> length (drop 5 bs)"
  shows "take 5 bs @ take (uint32_of (tl (take 5 bs)) - 4) (drop 5 bs)
      = frame_bytes (hd (take 5 bs), take (uint32_of (tl (take 5 bs)) - 4) (drop 5 bs))"
    and "frame_ok (hd (take 5 bs), take (uint32_of (tl (take 5 bs)) - 4) (drop 5 bs))"
proof -
  let ?h = "take 5 bs" and ?r = "drop 5 bs" and ?len = "uint32_of (tl (take 5 bs))"
  have hlen: "length (tl ?h) = 4" using assms(1) by simp
  have flen: "length (take (?len - 4) ?r) + 4 = ?len" using assms by (simp add: min_absorb2)
  have "?h = hd ?h # tl ?h" using hlen by (cases ?h) auto
  then show "?h @ take (?len - 4) ?r = frame_bytes (hd ?h, take (?len - 4) ?r)"
    unfolding frame_bytes_def fst_conv snd_conv flen be32_uint32 [OF hlen] by (metis append_Cons)
  show "frame_ok (hd ?h, take (?len - 4) ?r)"
    unfolding frame_ok_def snd_conv flen by (rule uint32_of_less [OF hlen])
qed

definition track_frame :: "frame_tracker \<Rightarrow> char \<times> string \<Rightarrow> frame_tracker" where
  "track_frame t f = t\<lparr>ft_last := fst f, ft_first := (snd f = []),
     ft_status := (if fst f = CHR ''Z'' \<and> snd f \<noteq> [] then hd (snd f) else ft_status t)\<rparr>"

definition ready_status :: "(char \<times> string) list \<Rightarrow> char" where
  "ready_status fs = foldl (\<lambda>s f. if fst f = CHR ''Z'' \<and> snd f \<noteq> [] then hd (snd f) else s) (CHR 0x00) fs"

lemma advance_rest:
  "\<not> ft_broken t \<Longrightarrow> ft_header t = [] \<Longrightarrow> \<not> ft_first t \<Longrightarrow> length b \<le> ft_remaining t \<Longrightarrow>
     foldl advance_byte t b = t\<lparr>ft_remaining := ft_remaining t - length b\<rparr>"
proof (induction b arbitrary: t)
  case (Cons c b)
  have "advance_byte t c = t\<lparr>ft_remaining := ft_remaining t - 1\<rparr>"
    using Cons.prems by (auto simp: advance_byte_def)
  with Cons.prems Cons.IH [of "t\<lparr>ft_remaining := ft_remaining t - 1\<rparr>"] show ?case by simp
qed simp

lemma advance_frame_body:
  assumes "\<not> ft_broken t" "ft_header t = []" "ft_first t" "length b \<le> ft_remaining t" "b \<noteq> []"
  shows "foldl advance_byte t b = t\<lparr>ft_first := False, ft_remaining := ft_remaining t - length b,
     ft_status := (if ft_last t = CHR ''Z'' then hd b else ft_status t)\<rparr>"
proof (cases b)
  case (Cons c b')
  let ?t = "t\<lparr>ft_first := False, ft_remaining := ft_remaining t - 1,
     ft_status := (if ft_last t = CHR ''Z'' then c else ft_status t)\<rparr>"
  have "advance_byte t c = ?t" using assms Cons by (auto simp: advance_byte_def)
  with advance_rest [of ?t b'] assms Cons show ?thesis by simp
qed (use assms in simp)

lemma advance_short_header:
  "\<not> ft_broken t \<Longrightarrow> ft_remaining t = 0 \<Longrightarrow> length (ft_header t) + length h < 5 \<Longrightarrow>
     foldl advance_byte t h = t\<lparr>ft_header := ft_header t @ h\<rparr>"
proof (induction h arbitrary: t)
  case (Cons c h)
  have "advance_byte t c = t\<lparr>ft_header := ft_header t @ [c]\<rparr>"
    using Cons.prems by (simp add: advance_byte_def Let_def)
  with Cons show ?case by simp
qed simp

lemma advance_full_header:
  assumes "atBoundary t" "length h = 5"
  shows "foldl advance_byte t h =
    (if uint32_of (tl h) < 4 then t\<lparr>ft_header := [], ft_broken := True\<rparr>
     else t\<lparr>ft_header := [], ft_remaining := uint32_of (tl h) - 4, ft_last := hd h, ft_first := True\<rparr>)"
proof -
  have h: "h = butlast h @ [List.last h]" using assms(2) by (metis append_butlast_last_id length_0_conv zero_neq_numeral)
  have "foldl advance_byte t (butlast h) = t\<lparr>ft_header := butlast h\<rparr>"
    using advance_short_header [of t "butlast h"] assms by (simp add: atBoundary_def)
  then have "foldl advance_byte t (butlast h @ [List.last h]) = advance_byte (t\<lparr>ft_header := butlast h\<rparr>) (List.last h)"
    by simp
  also have "\<dots> = (if uint32_of (tl h) < 4 then t\<lparr>ft_header := [], ft_broken := True\<rparr>
     else t\<lparr>ft_header := [], ft_remaining := uint32_of (tl h) - 4, ft_last := hd h, ft_first := True\<rparr>)"
    using assms h [symmetric] by (simp add: advance_byte_def Let_def atBoundary_def)
  finally show ?thesis using h by simp
qed

lemma atBoundary_track [simp]: "atBoundary (track_frame t f) = atBoundary t"
  by (simp add: atBoundary_def track_frame_def)

lemma advance_frame:
  assumes "atBoundary t" "frame_ok f"
  shows "foldl advance_byte t (frame_bytes f) = track_frame t f"
proof -
  let ?h = "fst f # be32 (length (snd f) + 4)"
  let ?t = "t\<lparr>ft_header := [], ft_remaining := length (snd f), ft_last := fst f, ft_first := True\<rparr>"
  have "uint32_of (be32 (length (snd f) + 4)) = length (snd f) + 4" using assms(2) by (intro uint32_be32) (simp add: frame_ok_def)
  with advance_full_header [OF assms(1), of ?h] have h: "foldl advance_byte t ?h = ?t" by simp
  have "foldl advance_byte t (frame_bytes f) = foldl advance_byte ?t (snd f)"
    using h unfolding frame_bytes_def by (metis append_Cons foldl_append)
  also have "\<dots> = track_frame t f"
    using assms(1) advance_frame_body [of ?t "snd f"]
    by (cases "snd f = []") (auto simp: track_frame_def atBoundary_def)
  finally show ?thesis .
qed

lemma advance_frames:
  "atBoundary t \<Longrightarrow> list_all frame_ok fs \<Longrightarrow> foldl advance_byte t (concat (map frame_bytes fs)) = foldl track_frame t fs"
  by (induction fs arbitrary: t) (simp_all add: advance_frame)

lemma advance_broken: "ft_broken t \<Longrightarrow> foldl advance_byte t bs = t"
  by (induction bs) (simp_all add: advance_byte_def)

text \<open>A stream that ends at a boundary is made of whole frames.\<close>

lemma boundary_frames:
  "atBoundary t \<Longrightarrow> atBoundary (foldl advance_byte t bs) \<Longrightarrow> \<exists>fs. list_all frame_ok fs \<and> bs = concat (map frame_bytes fs)"
proof (induction "length bs" arbitrary: t bs rule: less_induct)
  case less
  show ?case
  proof (cases "bs = []")
    case True
    then show ?thesis by (intro exI [of _ "[]"]) simp
  next
    case ne: False
    have long: "5 \<le> length bs"
    proof (rule ccontr)
      assume "\<not> 5 \<le> length bs"
      with less.prems ne advance_short_header [of t bs] show False by (simp add: atBoundary_def)
    qed
    let ?h = "take 5 bs" and ?r = "drop 5 bs"
    let ?len = "uint32_of (tl ?h)"
    have split: "foldl advance_byte t bs = foldl advance_byte (foldl advance_byte t ?h) ?r"
      by (metis append_take_drop_id foldl_append)
    have head: "foldl advance_byte t ?h = (if ?len < 4 then t\<lparr>ft_header := [], ft_broken := True\<rparr>
       else t\<lparr>ft_header := [], ft_remaining := ?len - 4, ft_last := hd ?h, ft_first := True\<rparr>)"
      using advance_full_header [OF less.prems(1), of ?h] long by simp
    let ?t = "t\<lparr>ft_header := [], ft_remaining := ?len - 4, ft_last := hd ?h, ft_first := True\<rparr>"
    have len: "4 \<le> ?len"
    proof (rule ccontr)
      assume "\<not> 4 \<le> ?len"
      then have "foldl advance_byte t bs = t\<lparr>ft_header := [], ft_broken := True\<rparr>"
        using split head advance_broken [of "t\<lparr>ft_header := [], ft_broken := True\<rparr>" ?r] by simp
      with less.prems(2) show False by (simp add: atBoundary_def)
    qed
    have enough: "?len - 4 \<le> length ?r"
    proof (rule ccontr)
      assume short: "\<not> ?len - 4 \<le> length ?r"
      have "ft_remaining (foldl advance_byte ?t ?r) > 0"
        using short less.prems(1) advance_frame_body [of ?t ?r] by (cases "?r = []") (auto simp: atBoundary_def)
      with less.prems(2) split head len show False by (simp add: atBoundary_def)
    qed
    let ?f = "(hd ?h, take (?len - 4) ?r)"
    have "bs = frame_bytes ?f @ drop (?len - 4) ?r" "frame_ok ?f"
      using whole_frame [OF long len enough] append_take_drop_id [of 5 bs] append_take_drop_id [of "?len - 4" ?r]
      by (metis append_assoc, blast)
    then obtain f rest where f: "frame_ok f" "bs = frame_bytes f @ rest" "length rest < length bs"
      by (metis (no_types, lifting) append_Cons frame_bytes_def le_add2 length_Cons length_append less_Suc_eq_le)
    have "atBoundary (foldl advance_byte (track_frame t f) rest)"
      using less.prems(2) f(2) advance_frame [OF less.prems(1) f(1)] by simp
    then obtain fs where fs: "list_all frame_ok fs" "rest = concat (map frame_bytes fs)"
      using less.hyps [OF f(3), of "track_frame t f"] less.prems(1) by auto
    with f show ?thesis by (intro exI [of _ "f # fs"]) simp
  qed
qed

lemma track_frames_last:
  "fs \<noteq> [] \<Longrightarrow> ft_last (foldl track_frame t fs) = fst (List.last fs)"
  by (induction fs rule: rev_induct) (simp_all add: track_frame_def)

lemma track_frames_status:
  "ft_status (foldl track_frame t fs) =
     foldl (\<lambda>s f. if fst f = CHR ''Z'' \<and> snd f \<noteq> [] then hd (snd f) else s) (ft_status t) fs"
  by (induction fs arbitrary: t) (simp_all add: track_frame_def)

lemma foldl_advance_chunks: "foldl advance t ps = foldl advance_byte t (concat ps)"
  by (induction ps arbitrary: t) (simp_all add: advance_bytes)

section \<open>The read-only relay\<close>

declare copyClientReadOnly.simps [simp del]

definition statements_of :: "(char \<times> string) list \<Rightarrow> string list" where
  "statements_of fs = List.map_filter
     (\<lambda>(k, b). if k = CHR ''Q'' \<or> k = CHR ''P'' then statementText k b else None) fs"

definition relayed_ok :: "char \<times> string \<Rightarrow> bool" where
  "relayed_ok f \<longleftrightarrow> frame_ok f \<and> fst f \<noteq> CHR ''F''
     \<and> (fst f = CHR ''Q'' \<or> fst f = CHR ''P'' \<longrightarrow> statementText (fst f) (snd f) \<noteq> None)"

definition relay_spec :: "bool \<Rightarrow> string \<Rightarrow> string \<Rightarrow> bool" where
  "relay_spec started input written \<longleftrightarrow> prefix written input \<and>
     (\<exists>fs tail. written = concat (map frame_bytes fs) @ tail \<and> list_all relayed_ok fs
        \<and> (tail \<noteq> [] \<longrightarrow> hd tail \<notin> set [CHR ''F'', CHR ''Q'', CHR ''P''])
        \<and> list_all readOnlyAllowed (statements_of fs)
        \<and> lexer_order started (concat (map lexer_view (statements_of fs))))"

lemma relay_spec_Nil: "relay_spec started input []"
  unfolding relay_spec_def by (intro conjI exI [of _ "[]"]) (simp_all add: statements_of_def)

lemma relay_spec_partial:
  "kind \<notin> set [CHR ''F'', CHR ''Q'', CHR ''P''] \<Longrightarrow> relay_spec started (kind # input) (kind # input)"
  unfolding relay_spec_def by (intro conjI exI [of _ "[]"] exI [of _ "kind # input"]) (simp_all add: statements_of_def)

lemma relay_spec_frame:
  assumes "relay_spec started' rest w" "relayed_ok f"
    and "list_all readOnlyAllowed (statements_of [f])"
    and "lexer_order started (concat (map lexer_view (statements_of [f])))"
    and "started' = lexer_started started (concat (map lexer_view (statements_of [f])))"
  shows "relay_spec started (frame_bytes f @ rest) (frame_bytes f @ w)"
proof -
  have app: "statements_of (f # fs) = statements_of [f] @ statements_of fs" for fs
    by (simp add: statements_of_def map_filter_simps split: option.splits)
  from assms(1) obtain fs tail where w: "w = concat (map frame_bytes fs) @ tail" "list_all relayed_ok fs"
      "tail \<noteq> [] \<longrightarrow> hd tail \<notin> set [CHR ''F'', CHR ''Q'', CHR ''P'']" "list_all readOnlyAllowed (statements_of fs)"
      "lexer_order started' (concat (map lexer_view (statements_of fs)))" "prefix w rest"
    unfolding relay_spec_def by blast
  show ?thesis
    unfolding relay_spec_def
    by (intro conjI exI [of _ "f # fs"] exI [of _ tail])
      (use w assms(2-5) in \<open>simp_all only: app [of fs] lexer_order_append list_all_append_iff map_append concat_append
         list.pred_inject concat.simps list.map append_assoc same_prefix_prefix\<close>)
qed

lemma read_only_statement_cases:
  assumes "5 \<le> length input" "4 \<le> uint32_of (tl (take 5 input))" "uint32_of (tl (take 5 input)) - 4 \<le> length (drop 5 input)"
    and stmt: "hd (take 5 input) = CHR ''Q'' \<or> hd (take 5 input) = CHR ''P''"
    and body: "b = take (uint32_of (tl (take 5 input)) - 4) (drop 5 input)" "rest = drop (uint32_of (tl (take 5 input)) - 4) (drop 5 input)"
  obtains "fst (copyClientReadOnly started input) = []"
  | sql started' where "statementText (hd (take 5 input)) b = Some sql" "changesLexer sql started = (False, started')"
      "readOnlyAllowed sql" "fst (copyClientReadOnly started input) = take 5 input @ b @ fst (copyClientReadOnly started' rest)"
proof (cases "uint32_of (tl (take 5 input)) - 4 > maxReadOnlyStatementBytes")
  case True
  with assms(1-4) that(1) show thesis by (auto simp: copyClientReadOnly.simps [of started input] Let_def)
next
  case small: False
  note unf = copyClientReadOnly.simps [of started input] Let_def
  show thesis
  proof (cases "statementText (hd (take 5 input)) b")
    case None
    with assms small that(1) show thesis by (auto simp: unf)
  next
    case (Some sql)
    obtain refused started' where cl: "changesLexer sql started = (refused, started')" by fastforce
    show thesis
    proof (cases "refused \<or> \<not> readOnlyAllowed sql")
      case True
      with assms small Some cl that(1) show thesis by (auto simp: unf)
    next
      case False
      with assms small Some cl have "fst (copyClientReadOnly started input) = take 5 input @ b @ fst (copyClientReadOnly started' rest)"
        by (auto simp: unf case_prod_beta)
      with False that(2) [OF Some] cl show thesis by simp
    qed
  qed
qed

text \<open>Nothing is written, or an incomplete message of another kind, or one whole message and what follows it.\<close>

lemma copy_read_only_cases:
  obtains "fst (copyClientReadOnly started input) = []"
  | kind r where "kind \<notin> set [CHR ''F'', CHR ''Q'', CHR ''P'']" "input = kind # r" "fst (copyClientReadOnly started input) = input"
  | f rest started' where "input = frame_bytes f @ rest" "relayed_ok f" "list_all readOnlyAllowed (statements_of [f])"
      "lexer_order started (concat (map lexer_view (statements_of [f])))"
      "started' = lexer_started started (concat (map lexer_view (statements_of [f])))"
      "fst (copyClientReadOnly started input) = frame_bytes f @ fst (copyClientReadOnly started' rest)"
proof -
  let ?h = "take 5 input" and ?r = "drop 5 input"
  let ?len = "uint32_of (tl ?h)" and ?kind = "hd ?h"
  let ?b = "take (?len - 4) ?r" and ?rest = "drop (?len - 4) ?r"
  note unf = copyClientReadOnly.simps [of started input] Let_def
  consider (none) "length input < 5 \<or> ?len < 4 \<or> ?kind = CHR ''F''"
    | (short) "5 \<le> length input" "4 \<le> ?len" "?kind \<noteq> CHR ''F''" "length ?r < ?len - 4"
    | (whole) "5 \<le> length input" "4 \<le> ?len" "?kind \<noteq> CHR ''F''" "?len - 4 \<le> length ?r" by linarith
  then show thesis
  proof cases
    case none
    with that(1) show thesis by (auto simp: unf)
  next
    case short
    then have inp: "?h @ ?r = input" "input = ?kind # tl input" by (cases input; simp)+
    show thesis
    proof (cases "?kind = CHR ''Q'' \<or> ?kind = CHR ''P''")
      case True
      with short that(1) show thesis by (auto simp: unf)
    next
      case False
      with short have "fst (copyClientReadOnly started input) = ?h @ ?r" by (auto simp: unf)
      with False short(3) inp that(2) [of ?kind "tl input"] show thesis by simp
    qed
  next
    case whole
    note w = whole_frame [OF whole(1,2,4)]
    have inp: "input = frame_bytes (?kind, ?b) @ ?rest" using w(1) by (metis append.assoc append_take_drop_id)
    show thesis
    proof (cases "?kind = CHR ''Q'' \<or> ?kind = CHR ''P''")
      case False
      then have "statements_of [(?kind, ?b)] = []" by (simp add: statements_of_def map_filter_simps)
      moreover have "fst (copyClientReadOnly started input) = frame_bytes (?kind, ?b) @ fst (copyClientReadOnly started ?rest)"
        using whole False unfolding w(1) [symmetric] by (auto simp: unf case_prod_beta)
      moreover have "relayed_ok (?kind, ?b)" using w(2) whole(3) False by (simp add: relayed_ok_def)
      ultimately show thesis using that(3) [OF inp, of started] by (simp add: lexer_started_def)
    next
      case True
      from whole(1,2,4) True refl refl show thesis
      proof (rule read_only_statement_cases)
        fix sql started' assume s: "statementText ?kind ?b = Some sql" "changesLexer sql started = (False, started')"
          "readOnlyAllowed sql" "fst (copyClientReadOnly started input) = ?h @ ?b @ fst (copyClientReadOnly started' ?rest)"
        have "statements_of [(?kind, ?b)] = [sql]" using True s(1) by (simp add: statements_of_def map_filter_simps)
        moreover have "relayed_ok (?kind, ?b)" using w(2) whole(3) s(1) by (simp add: relayed_ok_def)
        moreover have "fst (copyClientReadOnly started input) = frame_bytes (?kind, ?b) @ fst (copyClientReadOnly started' ?rest)"
          using s(4) unfolding w(1) [symmetric] by simp
        ultimately show thesis
          using that(3) [OF inp, of started'] changesLexer_order [OF s(2)] s(3) by simp
      qed (rule that(1))
    qed
  qed
qed

lemma relay_relayed: "relay_spec started input (fst (copyClientReadOnly started input))"
proof (induction "length input" arbitrary: started input rule: less_induct)
  case less
  show ?case
  proof (rule copy_read_only_cases [of started input])
    fix f rest started'
    assume h: "input = frame_bytes f @ rest" "relayed_ok f" "list_all readOnlyAllowed (statements_of [f])"
      "lexer_order started (concat (map lexer_view (statements_of [f])))"
      "started' = lexer_started started (concat (map lexer_view (statements_of [f])))"
      "fst (copyClientReadOnly started input) = frame_bytes f @ fst (copyClientReadOnly started' rest)"
    have "relay_spec started' rest (fst (copyClientReadOnly started' rest))"
      using h(1) by (intro less.hyps) (simp add: frame_bytes_def)
    from relay_spec_frame [OF this h(2-5)] show ?thesis unfolding h(1) [symmetric] h(6) [symmetric] .
  qed (simp_all add: relay_spec_Nil relay_spec_partial)
qed

section \<open>Properties\<close>

text \<open>
  Claim C22. What the relay of a read-only login writes to the database is a prefix of what the client
  sent and consists of whole messages (the last one may be cut short by the end of the stream, if it
  carries no statement and is no function call). No function call is among them; every statement follows the read-only
  rules (\<open>read_only_text\<close>: only reads, an explanation of one, transaction control that does not ask for writes, and a
  \<open>set\<close> or \<open>reset\<close> of the listed settings only; no role is altered, no temporary object created, none of the
  banned words named); and the settings that decide how text is read come first, in their safe form.
\<close>

theorem read_only_relay_safe:
  assumes "copyClientReadOnly False input = (written, refused)"
  shows "prefix written input
    \<and> (\<exists>fs tail. written = concat (map frame_bytes fs) @ tail
        \<and> list_all (\<lambda>f. frame_ok f \<and> fst f \<noteq> CHR ''F''
             \<and> (fst f = CHR ''Q'' \<or> fst f = CHR ''P'' \<longrightarrow> statementText (fst f) (snd f) \<noteq> None)) fs
        \<and> (tail \<noteq> [] \<longrightarrow> hd tail \<notin> set [CHR ''F'', CHR ''Q'', CHR ''P''])
        \<and> list_all read_only_text (statements_of fs)
        \<and> lexer_order False (concat (map lexer_view (statements_of fs))))"
proof -
  from relay_relayed [of False input] assms have sp: "relay_spec False input written" by simp
  then obtain fs tail where f: "written = concat (map frame_bytes fs) @ tail" "list_all relayed_ok fs"
      "tail \<noteq> [] \<longrightarrow> hd tail \<notin> set [CHR ''F'', CHR ''Q'', CHR ''P'']" "list_all readOnlyAllowed (statements_of fs)"
      "lexer_order False (concat (map lexer_view (statements_of fs)))" "prefix written input"
    unfolding relay_spec_def by blast
  have "list_all read_only_text (statements_of fs)"
    using f(4) by (rule list.pred_mono_strong) (rule readOnlyAllowed_safe)
  with f show ?thesis unfolding relayed_ok_def by blast
qed

definition demo_client :: string where
  "demo_client = concat (map frame_bytes [(CHR ''Q'', ''select 1'' @ [CHR 0x00]), (CHR ''Q'', ''drop table t'' @ [CHR 0x00])])"

theorem read_only_relay_safe_witness:
  "copyClientReadOnly False demo_client = (frame_bytes (CHR ''Q'', ''select 1'' @ [CHR 0x00]), True)
   \<and> prefix (frame_bytes (CHR ''Q'', ''select 1'' @ [CHR 0x00])) demo_client"
proof -
  have "copyClientReadOnly False demo_client = (frame_bytes (CHR ''Q'', ''select 1'' @ [CHR 0x00]), True)" by code_simp
  with read_only_relay_safe [OF this] show ?thesis by blast
qed

text \<open>
  Claim C29. However the server's stream is cut into reads, the tracker is at a boundary exactly when the
  stream is made of whole messages, and it reports the session idle exactly when the last of them is a
  ReadyForQuery and the last status given is idle.
\<close>

theorem frame_tracker_exact:
  "(atBoundary (foldl advance new_tracker chunks)
      \<longleftrightarrow> (\<exists>fs. list_all frame_ok fs \<and> concat chunks = concat (map frame_bytes fs)))
   \<and> (\<forall>fs. list_all frame_ok fs \<and> concat chunks = concat (map frame_bytes fs) \<longrightarrow>
        (tracker_idle (foldl advance new_tracker chunks)
           \<longleftrightarrow> fs \<noteq> [] \<and> fst (List.last fs) = CHR ''Z'' \<and> ready_status fs = CHR ''I''))"
proof (intro conjI allI impI)
  have b0: "atBoundary new_tracker" by (simp add: atBoundary_def new_tracker_def)
  have fwd: "foldl advance new_tracker chunks = foldl track_frame new_tracker fs"
    if "list_all frame_ok fs" "concat chunks = concat (map frame_bytes fs)" for fs
    using that advance_frames [OF b0] by (simp add: foldl_advance_chunks)
  have bt: "atBoundary (foldl track_frame t fs) = atBoundary t" for t fs
    by (induction fs arbitrary: t) simp_all
  show "atBoundary (foldl advance new_tracker chunks)
      \<longleftrightarrow> (\<exists>fs. list_all frame_ok fs \<and> concat chunks = concat (map frame_bytes fs))"
    using boundary_frames [OF b0, of "concat chunks"] fwd bt b0 by (auto simp: foldl_advance_chunks)
  fix fs assume "list_all frame_ok fs \<and> concat chunks = concat (map frame_bytes fs)"
  then have f: "foldl advance new_tracker chunks = foldl track_frame new_tracker fs" using fwd by blast
  show "tracker_idle (foldl advance new_tracker chunks)
      \<longleftrightarrow> fs \<noteq> [] \<and> fst (List.last fs) = CHR ''Z'' \<and> ready_status fs = CHR ''I''"
    unfolding f tracker_idle_def bt using b0
    by (cases "fs = []") (auto simp: track_frames_last track_frames_status ready_status_def new_tracker_def)
qed

theorem frame_tracker_exact_witness:
  "tracker_idle (foldl advance new_tracker [''Z'' @ [CHR 0x00], [CHR 0x00, CHR 0x00], [CHR 0x05, CHR ''I'']])"
proof -
  have "list_all frame_ok [(CHR ''Z'', ''I'')]
      \<and> concat [''Z'' @ [CHR 0x00], [CHR 0x00, CHR 0x00], [CHR 0x05, CHR ''I'']] = concat (map frame_bytes [(CHR ''Z'', ''I'')])"
    by code_simp
  moreover have "ready_status [(CHR ''Z'', ''I'')] = CHR ''I''" by code_simp
  ultimately show ?thesis
    using frame_tracker_exact [of "[''Z'' @ [CHR 0x00], [CHR 0x00, CHR 0x00], [CHR 0x05, CHR ''I'']]"] by (metis fst_conv last.simps list.distinct(1))
qed

end
