(* ===== verification/PgPool.thy ===== *)
theory PgPool
  imports Complex_Main AuditRow "HOL-Library.Multiset"
begin

text \<open>
  The pool of server connections of the PostgreSQL broker (internal/pgproxy/pool.go): client sessions
  share a bounded set of connections per pool key, each key with one database credential that rotates.
  One mutex guards the state, so every stretch of code under it is one atomic operation here, and
  what a goroutine does between two stretches (dialing the database, issuing a credential, waiting) is
  a position in \<open>pool_op\<close>. Credentials and connections are numbered in the order of their creation; a
  nil pool or budget is one that is empty. A credential's map of open connections is kept as a
  flag of each connection. Times are nanoseconds, float64 options exact rationals. What the code leaves to the
  scheduler, the clock, the database, the credential issuer or the order of a range over a map is an
  argument of the operation.
\<close>

section \<open>State\<close>

record pool_key =
  pk_pool :: string
  pk_binding :: string
  pk_mount :: string
  pk_role :: string
  pk_addr :: string
  pk_database :: string
  pk_trust :: string

record pool_opts =
  po_Replicas :: int
  po_SessionShare :: rat
  po_QueueFactor :: int
  po_QueueWait :: int
  po_RotateFraction :: rat
  po_IdleTimeout :: int
  po_IdleInTransaction :: int
  po_DefaultBudget :: int

definition defaultDatabaseConns :: int where "defaultDatabaseConns = 50"

definition withDefaults :: "pool_opts \<Rightarrow> pool_opts" where
  "withDefaults p = p\<lparr>
     po_Replicas := (if po_Replicas p < 1 then 1 else po_Replicas p),
     po_SessionShare := (if po_SessionShare p \<le> 0 \<or> po_SessionShare p > 1 then 1 / 10 else po_SessionShare p),
     po_QueueFactor := (if po_QueueFactor p < 1 then 200 else po_QueueFactor p),
     po_QueueWait := (if po_QueueWait p \<le> 0 then 5 * 1000000000 else po_QueueWait p),
     po_RotateFraction := (if po_RotateFraction p \<le> 0 \<or> po_RotateFraction p \<ge> 1 then 1 / 2 else po_RotateFraction p),
     po_IdleTimeout := (if po_IdleTimeout p \<le> 0 then 300 * 1000000000 else po_IdleTimeout p),
     po_IdleInTransaction := (if po_IdleInTransaction p \<le> 0 then 300 * 1000000000 else po_IdleInTransaction p),
     po_DefaultBudget := (if po_DefaultBudget p \<le> 0 then defaultDatabaseConns else po_DefaultBudget p)\<rparr>"

record db_service =
  db_Name :: string
  db_Addr :: string
  db_Database :: string
  db_Mount :: string
  db_Role :: string
  db_MaxConns :: int
  db_CA :: string
  db_ServerName :: string

text \<open>\<open>sha\<close> is the hexadecimal SHA-256.\<close>

definition trustKey :: "(string \<Rightarrow> string) \<Rightarrow> db_service \<Rightarrow> string" where
  "trustKey sha svc =
     (if db_CA svc = [] \<and> db_ServerName svc = [] then []
      else sha (be32 (length (db_CA svc)) @ db_CA svc @ db_ServerName svc))"

definition databaseBinding :: "string \<Rightarrow> db_service \<Rightarrow> string" where
  "databaseBinding vaultID svc = vaultID @ ''/'' @ db_Name svc"

definition pooledKey :: "(string \<Rightarrow> string) \<Rightarrow> string \<Rightarrow> string \<Rightarrow> string \<Rightarrow> db_service \<Rightarrow> pool_key" where
  "pooledKey sha scopePool vaultID actorID svc =
     \<lparr>pk_pool = (if scopePool = [] then ''actor:'' @ actorID else scopePool), pk_binding = databaseBinding vaultID svc,
      pk_mount = db_Mount svc, pk_role = db_Role svc, pk_addr = db_Addr svc, pk_database = db_Database svc,
      pk_trust = trustKey sha svc\<rparr>"

record pool_cred =
  pc_expires :: int
  pc_rotateAt :: int
  pc_margin :: int
  pc_conns :: int
  pc_retiring :: bool
  pc_revoked :: bool
  pc_pool :: pool_key

record server_conn =
  sc_cred :: nat
  sc_pool :: pool_key
  sc_pinned :: bool
  sc_idleAt :: int
  sc_open :: bool

record server_pool =
  sp_cur :: "nat option"
  sp_minting :: bool
  sp_creds :: "nat list"
  sp_idle :: "nat list"
  sp_pinned :: int

record conn_budget =
  bd_base :: int
  bd_limit :: int
  bd_open :: int
  bd_waiters :: int

text \<open>
  Where a goroutine stands: in the queue, opening a connection without and with a credential reserved,
  with an error or a connection not yet accounted for, holding a connection, rotating the
  credential of a key, or done. The key, the connection limit of the service, whether the
  connection is to be pinned, and whether the goroutine is counted as a waiter.
\<close>

datatype pool_op =
    OpWait pool_key int bool
  | OpOpening pool_key bool bool
  | OpConnecting pool_key bool bool nat
  | OpFailed pool_key bool
  | OpOpened pool_key bool bool nat
  | OpHolding nat
  | OpRotating pool_key
  | OpDone

record pool_state =
  pl_pools :: "pool_key \<Rightarrow> server_pool"
  pl_budgets :: "string \<Rightarrow> conn_budget"
  pl_creds :: "pool_cred list"
  pl_conns :: "server_conn list"
  pl_revocations :: "nat list"
  pl_closed :: bool
  pl_ops :: "pool_op list"

definition empty_pool :: server_pool where
  "empty_pool = \<lparr>sp_cur = None, sp_minting = False, sp_creds = [], sp_idle = [], sp_pinned = 0\<rparr>"

definition newServerPools :: pool_state where
  "newServerPools = \<lparr>pl_pools = (\<lambda>_. empty_pool), pl_budgets = (\<lambda>_. \<lparr>bd_base = 0, bd_limit = 0, bd_open = 0, bd_waiters = 0\<rparr>),
     pl_creds = [], pl_conns = [], pl_revocations = [], pl_closed = False, pl_ops = []\<rparr>"

section \<open>Updates of one part\<close>

definition upd_pool :: "pool_key \<Rightarrow> (server_pool \<Rightarrow> server_pool) \<Rightarrow> pool_state \<Rightarrow> pool_state" where
  "upd_pool k f st = st\<lparr>pl_pools := (pl_pools st)(k := f (pl_pools st k))\<rparr>"

definition upd_budget :: "string \<Rightarrow> (conn_budget \<Rightarrow> conn_budget) \<Rightarrow> pool_state \<Rightarrow> pool_state" where
  "upd_budget a f st = st\<lparr>pl_budgets := (pl_budgets st)(a := f (pl_budgets st a))\<rparr>"

definition upd_cred :: "nat \<Rightarrow> (pool_cred \<Rightarrow> pool_cred) \<Rightarrow> pool_state \<Rightarrow> pool_state" where
  "upd_cred i f st = st\<lparr>pl_creds := (pl_creds st)[i := f (pl_creds st ! i)]\<rparr>"

definition upd_conn :: "nat \<Rightarrow> (server_conn \<Rightarrow> server_conn) \<Rightarrow> pool_state \<Rightarrow> pool_state" where
  "upd_conn c f st = st\<lparr>pl_conns := (pl_conns st)[c := f (pl_conns st ! c)]\<rparr>"

definition set_op :: "nat \<Rightarrow> pool_op \<Rightarrow> pool_state \<Rightarrow> pool_state" where
  "set_op t op st = st\<lparr>pl_ops := (pl_ops st)[t := op]\<rparr>"

definition add_op :: "pool_op \<Rightarrow> pool_state \<Rightarrow> pool_state" where
  "add_op op st = st\<lparr>pl_ops := pl_ops st @ [op]\<rparr>"

abbreviation bud_add :: "string \<Rightarrow> int \<Rightarrow> pool_state \<Rightarrow> pool_state" where
  "bud_add a n \<equiv> upd_budget a (\<lambda>b. b\<lparr>bd_open := bd_open b + n\<rparr>)"

abbreviation wait_add :: "string \<Rightarrow> int \<Rightarrow> pool_state \<Rightarrow> pool_state" where
  "wait_add a n \<equiv> upd_budget a (\<lambda>b. b\<lparr>bd_waiters := bd_waiters b + n\<rparr>)"

section \<open>Closing and retiring\<close>

definition usable :: "int \<Rightarrow> pool_cred \<Rightarrow> bool" where
  "usable now c \<longleftrightarrow> now < pc_expires c - pc_margin c"

definition retireIfDrainedLocked :: "pool_key \<Rightarrow> nat \<Rightarrow> pool_state \<Rightarrow> pool_state" where
  "retireIfDrainedLocked k i st =
     (let c = pl_creds st ! i in
      if \<not> pc_retiring c \<or> pc_revoked c \<or> pc_conns c > 0 then st
      else (upd_pool k (\<lambda>p. p\<lparr>sp_creds := filter (\<lambda>j. j \<noteq> i) (sp_creds p)\<rparr>)
             (upd_cred i (\<lambda>c. c\<lparr>pc_revoked := True\<rparr>) st))\<lparr>pl_revocations := pl_revocations st @ [i]\<rparr>)"

definition closeLocked :: "nat \<Rightarrow> pool_state \<Rightarrow> pool_state" where
  "closeLocked c st =
     (let con = pl_conns st ! c in
      retireIfDrainedLocked (sc_pool con) (sc_cred con)
        (bud_add (pk_addr (sc_pool con)) (-1)
          (upd_cred (sc_cred con) (\<lambda>cr. cr\<lparr>pc_conns := pc_conns cr - 1\<rparr>)
            (upd_conn c (\<lambda>cn. cn\<lparr>sc_open := False\<rparr>) st))))"

section \<open>Checking a connection out\<close>

definition budgetFor :: "pool_opts \<Rightarrow> string \<Rightarrow> int \<Rightarrow> int \<Rightarrow> pool_state \<Rightarrow> pool_state" where
  "budgetFor opts addr maxConns replicas st =
     (let limit = (if maxConns \<le> 0 then po_DefaultBudget opts else maxConns) in
      upd_budget addr (\<lambda>b. b\<lparr>bd_base := limit, bd_limit := max 1 (limit div replicas)\<rparr>) st)"

definition session_share :: "pool_opts \<Rightarrow> int \<Rightarrow> int" where
  "session_share opts limit = max 1 \<lfloor>of_int limit * po_SessionShare opts\<rfloor>"

text \<open>From the end of the idle list, whose last connection comes first: the first one on a current credential.\<close>

fun reuse_idle :: "pool_key \<Rightarrow> nat list \<Rightarrow> pool_state \<Rightarrow> nat option \<times> pool_state" where
  "reuse_idle k [] st = (None, st)"
| "reuse_idle k (c # cs) st =
     (let st1 = upd_pool k (\<lambda>p. p\<lparr>sp_idle := rev cs\<rparr>) st in
      if pc_retiring (pl_creds st1 ! sc_cred (pl_conns st1 ! c)) then reuse_idle k cs (closeLocked c st1)
      else (Some c, st1))"

definition evictable :: "pool_state \<Rightarrow> string \<Rightarrow> pool_key \<Rightarrow> pool_key \<Rightarrow> bool" where
  "evictable st addr except k \<longleftrightarrow> k \<noteq> except \<and> pk_addr k = addr \<and> sp_idle (pl_pools st k) \<noteq> []"

text \<open>\<open>victim\<close> is the first such key the range over the pools meets, \<open>None\<close> when there is none.\<close>

definition evictIdleLocked :: "pool_key option \<Rightarrow> pool_state \<Rightarrow> pool_state" where
  "evictIdleLocked victim st =
     (case victim of
        None \<Rightarrow> st
      | Some k \<Rightarrow>
          (case sp_idle (pl_pools st k) of
             [] \<Rightarrow> st
           | c # cs \<Rightarrow> closeLocked c (upd_pool k (\<lambda>p. p\<lparr>sp_idle := cs\<rparr>) st)))"

definition victim_ok :: "pool_state \<Rightarrow> string \<Rightarrow> pool_key \<Rightarrow> pool_key option \<Rightarrow> bool" where
  "victim_ok st addr except victim =
     (case victim of Some k \<Rightarrow> evictable st addr except k
      | None \<Rightarrow> \<not> list_ex (\<lambda>cn. evictable st addr except (sc_pool cn)) (pl_conns st))"

definition pin_conn :: "bool \<Rightarrow> nat \<Rightarrow> pool_state \<Rightarrow> pool_state" where
  "pin_conn pinned c st =
     (let st1 = upd_conn c (\<lambda>cn. cn\<lparr>sc_pinned := pinned\<rparr>) st in
      if pinned then upd_pool (sc_pool (pl_conns st ! c)) (\<lambda>p. p\<lparr>sp_pinned := sp_pinned p + 1\<rparr>) st1 else st1)"

datatype pass_result = PassClosed | PassShare | PassGot nat | PassOpen | PassFull

text \<open>One pass of the loop of \<open>acquire\<close>; \<open>None\<close> when \<open>victim\<close> is not what the range would give.\<close>

definition acquire_pass ::
  "pool_opts \<Rightarrow> pool_key \<Rightarrow> int \<Rightarrow> bool \<Rightarrow> int \<Rightarrow> pool_key option \<Rightarrow> pool_state \<Rightarrow> (pass_result \<times> pool_state) option" where
  "acquire_pass opts k maxConns pinned replicas victim st =
     (if pl_closed st then Some (PassClosed, st)
      else
        (let st1 = budgetFor opts (pk_addr k) maxConns replicas st;
             limit = bd_limit (pl_budgets st1 (pk_addr k)) in
         if pinned \<and> sp_pinned (pl_pools st1 k) \<ge> session_share opts limit then Some (PassShare, st1)
         else
           (case reuse_idle k (rev (sp_idle (pl_pools st1 k))) st1 of
              (Some c, st2) \<Rightarrow> Some (PassGot c, pin_conn pinned c st2)
            | (None, st2) \<Rightarrow>
                if bd_open (pl_budgets st2 (pk_addr k)) < limit then Some (PassOpen, bud_add (pk_addr k) 1 st2)
                else if \<not> victim_ok st2 (pk_addr k) k victim then None
                else
                  (let st3 = evictIdleLocked victim st2 in
                   if bd_open (pl_budgets st3 (pk_addr k)) < limit then Some (PassOpen, bud_add (pk_addr k) 1 st3)
                   else Some (PassFull, st3)))))"

definition end_wait :: "bool \<Rightarrow> pool_key \<Rightarrow> pool_state \<Rightarrow> pool_state" where
  "end_wait waiting k st = (if waiting then wait_add (pk_addr k) (-1) st else st)"

definition acquire ::
  "pool_opts \<Rightarrow> pool_key \<Rightarrow> int \<Rightarrow> bool \<Rightarrow> int \<Rightarrow> pool_key option \<Rightarrow> pool_state \<Rightarrow> pool_state option" where
  "acquire opts k maxConns pinned replicas victim st =
     (case acquire_pass opts k maxConns pinned replicas victim st of
        None \<Rightarrow> None
      | Some (r, st1) \<Rightarrow> Some
          (case r of
             PassClosed \<Rightarrow> add_op OpDone st1
           | PassShare \<Rightarrow> add_op OpDone st1
           | PassGot c \<Rightarrow> add_op (OpHolding c) st1
           | PassOpen \<Rightarrow> add_op (OpOpening k pinned False) st1
           | PassFull \<Rightarrow>
               (let b = pl_budgets st1 (pk_addr k) in
                if bd_waiters b \<ge> bd_limit b * po_QueueFactor opts then add_op OpDone st1
                else add_op (OpWait k maxConns pinned) (wait_add (pk_addr k) 1 st1))))"

text \<open>A waiting goroutine wakes and passes again.\<close>

definition acquire_again ::
  "pool_opts \<Rightarrow> nat \<Rightarrow> int \<Rightarrow> pool_key option \<Rightarrow> pool_state \<Rightarrow> pool_state option" where
  "acquire_again opts t replicas victim st =
     (case pl_ops st ! t of
        OpWait k maxConns pinned \<Rightarrow>
          (case acquire_pass opts k maxConns pinned replicas victim st of
             None \<Rightarrow> None
           | Some (r, st1) \<Rightarrow> Some
               (case r of
                  PassClosed \<Rightarrow> set_op t OpDone (end_wait True k st1)
                | PassShare \<Rightarrow> set_op t OpDone (end_wait True k st1)
                | PassGot c \<Rightarrow> set_op t (OpHolding c) (end_wait True k st1)
                | PassOpen \<Rightarrow> set_op t (OpOpening k pinned True) st1
                | PassFull \<Rightarrow> st1))
      | _ \<Rightarrow> None)"

section \<open>Opening a connection\<close>

text \<open>\<open>usable\<close> in \<open>credentialFor\<close>: a connection is reserved on the current credential.\<close>

definition reserve :: "nat \<Rightarrow> int \<Rightarrow> pool_state \<Rightarrow> pool_state option" where
  "reserve t now st =
     (case pl_ops st ! t of
        OpOpening k pinned waiting \<Rightarrow>
          (case sp_cur (pl_pools st k) of
             None \<Rightarrow> None
           | Some i \<Rightarrow>
               (let c = pl_creds st ! i in
                if \<not> pc_retiring c \<and> \<not> pc_revoked c \<and> usable now c
                then Some (set_op t (OpConnecting k pinned waiting i)
                       (upd_cred i (\<lambda>c. c\<lparr>pc_conns := pc_conns c + 1\<rparr>) st))
                else None))
      | _ \<Rightarrow> None)"

definition op_mints :: "pool_op \<Rightarrow> pool_key option" where
  "op_mints op = (case op of OpOpening k _ _ \<Rightarrow> Some k | OpRotating k \<Rightarrow> Some k | _ \<Rightarrow> None)"

text \<open>The part of \<open>mintLocked\<close> under the lock, for a lease that is valid: \<open>rotateAt\<close> has the jitter in it.\<close>

definition mint_install :: "pool_key \<Rightarrow> int \<Rightarrow> int \<Rightarrow> int \<Rightarrow> pool_state \<Rightarrow> pool_state" where
  "mint_install k now expires rotateAt st =
     (let cred = \<lparr>pc_expires = expires, pc_rotateAt = rotateAt, pc_margin = min (5 * 1000000000) ((expires - now) div 4),
            pc_conns = 0, pc_retiring = False, pc_revoked = False, pc_pool = k\<rparr>;
          st1 =
            (case sp_cur (pl_pools st k) of
               None \<Rightarrow> st
             | Some old \<Rightarrow>
                 (let stale = (\<lambda>c. sc_cred (pl_conns st ! c) = old);
                      idle = sp_idle (pl_pools st k);
                      st0 = upd_pool k (\<lambda>p. p\<lparr>sp_idle := filter (\<lambda>c. \<not> stale c) idle\<rparr>)
                              (upd_cred old (\<lambda>c. c\<lparr>pc_retiring := True\<rparr>) st)
                  in retireIfDrainedLocked k old (foldl (\<lambda>s c. closeLocked c s) st0 (filter stale idle))));
          i = length (pl_creds st1)
      in upd_pool k (\<lambda>p. p\<lparr>sp_cur := Some i, sp_creds := sp_creds p @ [i]\<rparr>)
           (st1\<lparr>pl_creds := pl_creds st1 @ [cred]\<rparr>))"

definition mintLocked :: "nat \<Rightarrow> int \<Rightarrow> int \<Rightarrow> int \<Rightarrow> pool_state \<Rightarrow> pool_state option" where
  "mintLocked t now expires rotateAt st =
     (case op_mints (pl_ops st ! t) of
        None \<Rightarrow> None
      | Some k \<Rightarrow> if expires > now + 1000000000 then Some (mint_install k now expires rotateAt st) else None)"

text \<open>No credential could be had: \<open>open\<close> returns the error.\<close>

definition open_refused :: "nat \<Rightarrow> pool_state \<Rightarrow> pool_state option" where
  "open_refused t st = (case pl_ops st ! t of OpOpening k pinned waiting \<Rightarrow> Some (set_op t (OpFailed k waiting) st) | _ \<Rightarrow> None)"

text \<open>After the dial: the reservation is given up, or the connection is recorded.\<close>

definition open_done :: "nat \<Rightarrow> bool \<Rightarrow> pool_state \<Rightarrow> pool_state option" where
  "open_done t ok st =
     (case pl_ops st ! t of
        OpConnecting k pinned waiting i \<Rightarrow> Some
          (if \<not> ok
           then set_op t (OpFailed k waiting)
                  (retireIfDrainedLocked k i (upd_cred i (\<lambda>c. c\<lparr>pc_conns := pc_conns c - 1\<rparr>) st))
           else set_op t (OpOpened k pinned waiting (length (pl_conns st)))
                  (st\<lparr>pl_conns := pl_conns st @ [\<lparr>sc_cred = i, sc_pool = k, sc_pinned = False, sc_idleAt = 0, sc_open = True\<rparr>]\<rparr>))
      | _ \<Rightarrow> None)"

text \<open>\<open>acquire\<close> returns after \<open>open\<close>, with the error or with the connection; or it gives up waiting.\<close>

definition acquire_return :: "nat \<Rightarrow> pool_state \<Rightarrow> pool_state option" where
  "acquire_return t st =
     (case pl_ops st ! t of
        OpFailed k waiting \<Rightarrow> Some (set_op t OpDone (end_wait waiting k (bud_add (pk_addr k) (-1) st)))
      | OpOpened k pinned waiting c \<Rightarrow> Some (set_op t (OpHolding c) (end_wait waiting k (pin_conn pinned c st)))
      | OpWait k maxConns pinned \<Rightarrow> Some (set_op t OpDone (end_wait True k st))
      | _ \<Rightarrow> None)"

section \<open>Holding a connection\<close>

definition pin :: "pool_opts \<Rightarrow> nat \<Rightarrow> pool_state \<Rightarrow> pool_state option" where
  "pin opts t st =
     (case pl_ops st ! t of
        OpHolding c \<Rightarrow>
          (let k = sc_pool (pl_conns st ! c) in
           if sc_pinned (pl_conns st ! c) then None
           else if sp_pinned (pl_pools st k) \<ge> session_share opts (bd_limit (pl_budgets st (pk_addr k))) then Some st
           else Some (pin_conn True c st))
      | _ \<Rightarrow> None)"

definition release_conn :: "nat \<Rightarrow> bool \<Rightarrow> int \<Rightarrow> pool_state \<Rightarrow> pool_state option" where
  "release_conn t reusable now st =
     (case pl_ops st ! t of
        OpHolding c \<Rightarrow>
          (let con = pl_conns st ! c; k = sc_pool con;
               st1 = (if sc_pinned con
                      then upd_pool k (\<lambda>p. p\<lparr>sp_pinned := sp_pinned p - 1\<rparr>) (upd_conn c (\<lambda>cn. cn\<lparr>sc_pinned := False\<rparr>) st)
                      else st);
               b = pl_budgets st (pk_addr k); cr = pl_creds st ! sc_cred con in
           Some (set_op t OpDone
             (if \<not> reusable \<or> bd_open b > bd_limit b \<or> pl_closed st \<or> pc_retiring cr \<or> pc_revoked cr \<or> \<not> usable now cr
              then closeLocked c st1
              else upd_pool k (\<lambda>p. p\<lparr>sp_idle := sp_idle p @ [c]\<rparr>) (upd_conn c (\<lambda>cn. cn\<lparr>sc_idleAt := now\<rparr>) st1))))
      | _ \<Rightarrow> None)"

text \<open>\<open>retire\<close> is called on the credential of a connection that is held.\<close>

definition retire :: "nat \<Rightarrow> pool_state \<Rightarrow> pool_state option" where
  "retire t st =
     (case pl_ops st ! t of
        OpHolding c \<Rightarrow>
          (let i = sc_cred (pl_conns st ! c) in
           Some (upd_cred i (\<lambda>c. c\<lparr>pc_retiring := True\<rparr>)
             (st\<lparr>pl_pools := (\<lambda>k. let p = pl_pools st k in if sp_cur p = Some i then p\<lparr>sp_cur := None\<rparr> else p)\<rparr>)))
      | _ \<Rightarrow> None)"

section \<open>Maintenance\<close>

text \<open>Close idle connections of a key, from the end, while the budget is exceeded.\<close>

fun trim_idle :: "pool_key \<Rightarrow> nat list \<Rightarrow> pool_state \<Rightarrow> pool_state" where
  "trim_idle k [] st = st"
| "trim_idle k (c # cs) st =
     (let b = pl_budgets st (pk_addr k) in
      if bd_open b > bd_limit b
      then trim_idle k cs (closeLocked c (upd_pool k (\<lambda>p. p\<lparr>sp_idle := rev cs\<rparr>) st))
      else st)"

definition trim_addr :: "int \<Rightarrow> pool_key list \<Rightarrow> pool_state \<Rightarrow> string \<Rightarrow> pool_state" where
  "trim_addr replicas ks st addr =
     (let b = pl_budgets st addr; limit = max 1 (bd_base b div replicas) in
      if limit = bd_limit b then st
      else foldl (\<lambda>s k. if pk_addr k = addr then trim_idle k (rev (sp_idle (pl_pools s k))) s else s)
             (upd_budget addr (\<lambda>b. b\<lparr>bd_limit := limit\<rparr>) st) ks)"

definition trimLocked :: "int \<Rightarrow> string list \<Rightarrow> pool_key list \<Rightarrow> pool_state \<Rightarrow> pool_state" where
  "trimLocked replicas addrs ks st = foldl (trim_addr replicas ks) st addrs"

text \<open>A credential that expired with connections open is revoked all the same.\<close>

definition expire_cred :: "int \<Rightarrow> pool_key \<Rightarrow> pool_state \<Rightarrow> nat \<Rightarrow> pool_state" where
  "expire_cred now k st i =
     (if now < pc_expires (pl_creds st ! i) then st
      else (upd_pool k (\<lambda>p. if sp_cur p = Some i then p\<lparr>sp_cur := None\<rparr> else p)
             (upd_cred i (\<lambda>c. c\<lparr>pc_retiring := True, pc_revoked := True\<rparr>) st))\<lparr>pl_revocations := pl_revocations st @ [i]\<rparr>)"

definition maintain_idle :: "pool_opts \<Rightarrow> int \<Rightarrow> pool_state \<Rightarrow> pool_key \<Rightarrow> pool_state" where
  "maintain_idle opts now st k =
     (let old = (\<lambda>c. now - sc_idleAt (pl_conns st ! c) > po_IdleTimeout opts); idle = sp_idle (pl_pools st k) in
      foldl (\<lambda>s c. closeLocked c s) (upd_pool k (\<lambda>p. p\<lparr>sp_idle := filter (\<lambda>c. \<not> old c) idle\<rparr>) st) (filter old idle))"

definition maintain_rotate :: "int \<Rightarrow> pool_state \<Rightarrow> pool_key \<Rightarrow> pool_state" where
  "maintain_rotate now st k =
     (let p = pl_pools st k in
      case sp_cur p of
        None \<Rightarrow> st
      | Some i \<Rightarrow>
          if \<not> sp_minting p \<and> now \<ge> pc_rotateAt (pl_creds st ! i) \<and> (pc_conns (pl_creds st ! i) > 0 \<or> sp_idle p \<noteq> [])
          then add_op (OpRotating k) (upd_pool k (\<lambda>p. p\<lparr>sp_minting := True\<rparr>) st) else st)"

definition maintain_unused :: "int \<Rightarrow> pool_state \<Rightarrow> pool_key \<Rightarrow> pool_state" where
  "maintain_unused now st k =
     (case sp_cur (pl_pools st k) of
        None \<Rightarrow> st
      | Some i \<Rightarrow>
          if pc_conns (pl_creds st ! i) = 0 \<and> now \<ge> pc_rotateAt (pl_creds st ! i)
          then retireIfDrainedLocked k i (upd_pool k (\<lambda>p. p\<lparr>sp_cur := None\<rparr>) (upd_cred i (\<lambda>c. c\<lparr>pc_retiring := True\<rparr>) st))
          else st)"

definition maintain_expire :: "int \<Rightarrow> pool_state \<Rightarrow> pool_key \<Rightarrow> pool_state" where
  "maintain_expire now st k =
     (let live = filter (\<lambda>i. \<not> pc_revoked (pl_creds st ! i)) (sp_creds (pl_pools st k)) in
      foldl (expire_cred now k) (upd_pool k (\<lambda>p. p\<lparr>sp_creds := live\<rparr>) st) live)"

definition maintain_pool :: "pool_opts \<Rightarrow> int \<Rightarrow> pool_state \<Rightarrow> pool_key \<Rightarrow> pool_state" where
  "maintain_pool opts now st k =
     maintain_expire now (maintain_unused now (maintain_rotate now (maintain_idle opts now st k) k) k) k"

definition maintain :: "pool_opts \<Rightarrow> int \<Rightarrow> int \<Rightarrow> string list \<Rightarrow> pool_key list \<Rightarrow> pool_state \<Rightarrow> pool_state" where
  "maintain opts now replicas addrs ks st = foldl (maintain_pool opts now) (trimLocked replicas addrs ks st) ks"

definition rotated_key :: "nat \<Rightarrow> pool_state \<Rightarrow> pool_state option" where
  "rotated_key t st = (case pl_ops st ! t of
       OpRotating k \<Rightarrow> Some (set_op t OpDone (upd_pool k (\<lambda>p. p\<lparr>sp_minting := False\<rparr>) st))
     | _ \<Rightarrow> None)"

section \<open>Shutting down\<close>

text \<open>
  The loop over the credentials ranges over the array that \<open>retireIfDrainedLocked\<close> filters in place:
  \<open>arr\<close> is that array, of which the credentials of the pool are a prefix.
\<close>

fun close_creds :: "pool_key \<Rightarrow> nat list \<Rightarrow> nat list \<Rightarrow> pool_state \<Rightarrow> pool_state" where
  "close_creds k arr [] st = st"
| "close_creds k arr (n # ns) st =
     (let i = arr ! n;
          st1 = retireIfDrainedLocked k i (upd_cred i (\<lambda>c. c\<lparr>pc_retiring := True\<rparr>) st);
          kept = sp_creds (pl_pools st1 k)
      in close_creds k (kept @ drop (length kept) arr) ns st1)"

definition close_pool :: "pool_state \<Rightarrow> pool_key \<Rightarrow> pool_state" where
  "close_pool st k =
     (let idle = sp_idle (pl_pools st k);
          st1 = foldl (\<lambda>s c. closeLocked c s) (upd_pool k (\<lambda>p. p\<lparr>sp_idle := []\<rparr>) st) idle;
          creds = sp_creds (pl_pools st1 k)
      in upd_pool k (\<lambda>p. p\<lparr>sp_cur := None\<rparr>) (close_creds k creds [0..<length creds] st1))"

definition pools_close :: "pool_key list \<Rightarrow> pool_state \<Rightarrow> pool_state" where
  "pools_close ks st = (if pl_closed st then st else foldl close_pool (st\<lparr>pl_closed := True\<rparr>) ks)"

section \<open>Any operation\<close>

datatype pool_label =
    LAcquire pool_key int bool int "pool_key option"
  | LAgain nat int "pool_key option"
  | LReserve nat int
  | LMint nat int int int
  | LRefused nat
  | LOpened nat bool
  | LReturn nat
  | LPin nat
  | LRelease nat bool int
  | LRetire nat
  | LMaintain int int "string list" "pool_key list"
  | LRotated nat
  | LClose "pool_key list"

text \<open>The keys a range over the pools visits: at least every key with a credential or a connection.\<close>

definition all_keys :: "pool_state \<Rightarrow> pool_key list \<Rightarrow> bool" where
  "all_keys st ks \<longleftrightarrow> distinct ks \<and> list_all (\<lambda>c. pc_pool c \<in> set ks) (pl_creds st)"

definition op_index :: "nat \<Rightarrow> pool_state \<Rightarrow> pool_state option \<Rightarrow> pool_state option" where
  "op_index t st r = (if t < length (pl_ops st) then r else None)"

fun pool_exec :: "pool_opts \<Rightarrow> pool_label \<Rightarrow> pool_state \<Rightarrow> pool_state option" where
  "pool_exec opts (LAcquire k maxConns pinned replicas victim) st =
     (if replicas > 0 then acquire opts k maxConns pinned replicas victim st else None)"
| "pool_exec opts (LAgain t replicas victim) st =
     (if replicas > 0 then op_index t st (acquire_again opts t replicas victim st) else None)"
| "pool_exec opts (LReserve t now) st = op_index t st (reserve t now st)"
| "pool_exec opts (LMint t now expires rotateAt) st = op_index t st (mintLocked t now expires rotateAt st)"
| "pool_exec opts (LRefused t) st = op_index t st (open_refused t st)"
| "pool_exec opts (LOpened t ok) st = op_index t st (open_done t ok st)"
| "pool_exec opts (LReturn t) st = op_index t st (acquire_return t st)"
| "pool_exec opts (LPin t) st = op_index t st (pin opts t st)"
| "pool_exec opts (LRelease t reusable now) st = op_index t st (release_conn t reusable now st)"
| "pool_exec opts (LRetire t) st = op_index t st (retire t st)"
| "pool_exec opts (LMaintain now replicas addrs ks) st =
     (if replicas \<le> 0 \<or> \<not> all_keys st ks then None else Some (maintain opts now replicas addrs ks st))"
| "pool_exec opts (LRotated t) st = op_index t st (rotated_key t st)"
| "pool_exec opts (LClose ks) st = (if all_keys st ks then Some (pools_close ks st) else None)"

fun pool_run :: "pool_opts \<Rightarrow> pool_label list \<Rightarrow> pool_state \<Rightarrow> pool_state option" where
  "pool_run opts [] st = Some st"
| "pool_run opts (l # ls) st = (case pool_exec opts l st of None \<Rightarrow> None | Some st' \<Rightarrow> pool_run opts ls st')"

end
