(* ===== verification/PgPoolInv.thy ===== *)
theory PgPoolInv
  imports PgPool
begin

text \<open>
  Invariants of the connection pool: every open connection has exactly one owner, and the counters of
  budgets, credentials, waiters and pins are exact (\<open>acc_ok\<close>); a credential is current or retiring,
  and one that retires is revoked once, when its last connection is gone or it has expired
  (\<open>life_ok\<close>). Every operation keeps them.
\<close>

section \<open>Counting\<close>

definition cnt :: "('a \<Rightarrow> bool) \<Rightarrow> 'a list \<Rightarrow> int" where
  "cnt P xs = int (length (filter P xs))"

lemma cnt_simps [simp]:
  "cnt P [] = 0" "cnt P (x # xs) = of_bool (P x) + cnt P xs" "cnt P (xs @ ys) = cnt P xs + cnt P ys"
  by (simp_all add: cnt_def)

lemma cnt_nonneg [simp]: "0 \<le> cnt P xs"
  by (simp add: cnt_def)

lemma cnt_update:
  "i < length xs \<Longrightarrow> cnt P (xs[i := y]) = cnt P xs - of_bool (P (xs ! i)) + of_bool (P y)"
proof (induction xs arbitrary: i)
  case (Cons x xs)
  then show ?case by (cases i) simp_all
qed simp

lemma nth_update: "xs[i := y] ! j = (if j = i \<and> i < length xs then y else xs ! j)"
  by (cases "i < length xs"; cases "i = j") (simp_all add: list_update_beyond)

lemma cnt_pos: "x \<in> set xs \<Longrightarrow> P x \<Longrightarrow> 0 < cnt P xs"
  by (auto simp: cnt_def filter_empty_conv)

lemma cnt_zero: "cnt P xs = 0 \<longleftrightarrow> (\<forall>x \<in> set xs. \<not> P x)"
  by (auto simp: cnt_def filter_empty_conv)

lemma cnt_mset: "mset xs = mset ys \<Longrightarrow> cnt P xs = cnt P ys"
  unfolding cnt_def by (metis mset_filter size_mset)

section \<open>The invariants\<close>

definition op_conn :: "pool_op \<Rightarrow> nat option" where
  "op_conn op = (case op of OpOpened _ _ _ c \<Rightarrow> Some c | OpHolding c \<Rightarrow> Some c | _ \<Rightarrow> None)"

definition op_counted :: "string \<Rightarrow> pool_op \<Rightarrow> bool" where
  "op_counted a op = (case op of OpOpening k _ _ \<Rightarrow> pk_addr k = a | OpConnecting k _ _ _ \<Rightarrow> pk_addr k = a
     | OpFailed k _ \<Rightarrow> pk_addr k = a | _ \<Rightarrow> False)"

definition op_waits :: "string \<Rightarrow> pool_op \<Rightarrow> bool" where
  "op_waits a op = (case op of OpWait k _ _ \<Rightarrow> pk_addr k = a | OpOpening k _ w \<Rightarrow> w \<and> pk_addr k = a
     | OpConnecting k _ w _ \<Rightarrow> w \<and> pk_addr k = a | OpFailed k w \<Rightarrow> w \<and> pk_addr k = a
     | OpOpened k _ w _ \<Rightarrow> w \<and> pk_addr k = a | _ \<Rightarrow> False)"

definition op_connects :: "nat \<Rightarrow> pool_op \<Rightarrow> bool" where
  "op_connects i op = (case op of OpConnecting _ _ _ j \<Rightarrow> i = j | _ \<Rightarrow> False)"

lemma op_simps [simp]:
  "op_conn (OpWait k m p) = None" "op_conn (OpOpening k p w) = None" "op_conn (OpConnecting k p w i) = None"
  "op_conn (OpFailed k w) = None" "op_conn (OpOpened k p w c) = Some c" "op_conn (OpHolding c) = Some c"
  "op_conn (OpRotating k) = None" "op_conn OpDone = None"
  "op_counted a (OpWait k m p) = False" "op_counted a (OpOpening k p w) = (pk_addr k = a)"
  "op_counted a (OpConnecting k p w i) = (pk_addr k = a)" "op_counted a (OpFailed k w) = (pk_addr k = a)"
  "op_counted a (OpOpened k p w c) = False" "op_counted a (OpHolding c) = False" "op_counted a (OpRotating k) = False"
  "op_counted a OpDone = False"
  "op_waits a (OpWait k m p) = (pk_addr k = a)" "op_waits a (OpOpening k p w) = (w \<and> pk_addr k = a)"
  "op_waits a (OpConnecting k p w i) = (w \<and> pk_addr k = a)" "op_waits a (OpFailed k w) = (w \<and> pk_addr k = a)"
  "op_waits a (OpOpened k p w c) = (w \<and> pk_addr k = a)" "op_waits a (OpHolding c) = False" "op_waits a (OpRotating k) = False"
  "op_waits a OpDone = False"
  "op_connects i (OpWait k m p) = False" "op_connects i (OpOpening k p w) = False"
  "op_connects i (OpConnecting k p w j) = (i = j)" "op_connects i (OpFailed k w) = False"
  "op_connects i (OpOpened k p w c) = False" "op_connects i (OpHolding c) = False" "op_connects i (OpRotating k) = False"
  "op_connects i OpDone = False"
  by (simp_all add: op_conn_def op_counted_def op_waits_def op_connects_def)

abbreviation idle :: "pool_state \<Rightarrow> pool_key \<Rightarrow> nat list" where "idle st k \<equiv> sp_idle (pl_pools st k)"

text \<open>
  Every open connection has exactly one owner: the idle list of its key, one goroutine, or the
  code that is moving it (\<open>T\<close>).
\<close>

definition own_ok :: "nat set \<Rightarrow> pool_state \<Rightarrow> bool" where
  "own_ok T st \<longleftrightarrow>
     (\<forall>c < length (pl_conns st). of_bool (sc_open (pl_conns st ! c)) =
        cnt ((=) c) (idle st (sc_pool (pl_conns st ! c))) + cnt (\<lambda>op. op_conn op = Some c) (pl_ops st) + of_bool (c \<in> T))
     \<and> (\<forall>k. \<forall>c \<in> set (idle st k). c < length (pl_conns st) \<and> sc_pool (pl_conns st ! c) = k)
     \<and> (\<forall>op \<in> set (pl_ops st). \<forall>c. op_conn op = Some c \<longrightarrow> c < length (pl_conns st))
     \<and> T \<subseteq> {..<length (pl_conns st)}"

text \<open>Connections and reservations are on a credential of their key.\<close>

definition link_ok :: "pool_state \<Rightarrow> bool" where
  "link_ok st \<longleftrightarrow>
     (\<forall>cn \<in> set (pl_conns st). sc_cred cn < length (pl_creds st) \<and> pc_pool (pl_creds st ! sc_cred cn) = sc_pool cn)
     \<and> (\<forall>k p w i. OpConnecting k p w i \<in> set (pl_ops st) \<longrightarrow> i < length (pl_creds st) \<and> pc_pool (pl_creds st ! i) = k)
     \<and> (\<forall>k p w c. OpOpened k p w c \<in> set (pl_ops st) \<longrightarrow> sc_pool (pl_conns st ! c) = k \<and> \<not> sc_pinned (pl_conns st ! c))"

definition count_ok :: "pool_state \<Rightarrow> bool" where
  "count_ok st \<longleftrightarrow>
     (\<forall>i < length (pl_creds st). pc_conns (pl_creds st ! i) =
        cnt (\<lambda>cn. sc_open cn \<and> sc_cred cn = i) (pl_conns st) + cnt (op_connects i) (pl_ops st))
     \<and> (\<forall>a. bd_open (pl_budgets st a) =
        cnt (\<lambda>cn. sc_open cn \<and> pk_addr (sc_pool cn) = a) (pl_conns st) + cnt (op_counted a) (pl_ops st))
     \<and> (\<forall>a. bd_waiters (pl_budgets st a) = cnt (op_waits a) (pl_ops st))"

definition pin_ok :: "nat set \<Rightarrow> pool_state \<Rightarrow> bool" where
  "pin_ok T st \<longleftrightarrow>
     (\<forall>k. sp_pinned (pl_pools st k) = cnt (\<lambda>cn. sc_pinned cn \<and> sc_pool cn = k) (pl_conns st))
     \<and> (\<forall>c < length (pl_conns st). sc_pinned (pl_conns st ! c) \<longrightarrow> OpHolding c \<in> set (pl_ops st) \<or> c \<in> T)"

definition acc_ok :: "nat set \<Rightarrow> pool_state \<Rightarrow> bool" where
  "acc_ok T st \<longleftrightarrow> own_ok T st \<and> link_ok st \<and> count_ok st \<and> pin_ok T st"

text \<open>
  The life of credentials. In the middle of an operation the credentials in \<open>D\<close> may be retiring without a
  connection, and the keys in \<open>X\<close> have a current credential that is being replaced.
\<close>

definition cur_ok :: "pool_state \<Rightarrow> pool_key \<Rightarrow> bool" where
  "cur_ok st k \<longleftrightarrow> (\<forall>i. sp_cur (pl_pools st k) = Some i \<longrightarrow>
     sp_creds (pl_pools st k) \<noteq> [] \<and> List.last (sp_creds (pl_pools st k)) = i
     \<and> \<not> pc_retiring (pl_creds st ! i) \<and> \<not> pc_revoked (pl_creds st ! i))"

definition cred_ok :: "nat set \<Rightarrow> pool_state \<Rightarrow> nat \<Rightarrow> bool" where
  "cred_ok D st i \<longleftrightarrow> (let c = pl_creds st ! i in
     (\<not> pc_retiring c \<longrightarrow> sp_cur (pl_pools st (pc_pool c)) = Some i)
     \<and> (pc_retiring c \<and> \<not> pc_revoked c \<and> i \<notin> D \<longrightarrow> pc_conns c > 0)
     \<and> (\<not> pc_revoked c \<longrightarrow> i \<in> set (sp_creds (pl_pools st (pc_pool c))))
     \<and> (pc_revoked c \<longleftrightarrow> i \<in> set (pl_revocations st))
     \<and> (pc_revoked c \<longrightarrow> pc_retiring c))"

definition life_ok :: "nat set \<Rightarrow> pool_key set \<Rightarrow> pool_state \<Rightarrow> bool" where
  "life_ok D X st \<longleftrightarrow>
     (\<forall>i < length (pl_creds st). cred_ok D st i) \<and> (\<forall>k. k \<notin> X \<longrightarrow> cur_ok st k)
     \<and> (\<forall>k. \<forall>i \<in> set (sp_creds (pl_pools st k)). i < length (pl_creds st) \<and> pc_pool (pl_creds st ! i) = k)
     \<and> (\<forall>k. distinct (sp_creds (pl_pools st k)))
     \<and> distinct (pl_revocations st) \<and> set (pl_revocations st) \<subseteq> {..<length (pl_creds st)}"

definition pool_inv :: "pool_state \<Rightarrow> bool" where
  "pool_inv st \<longleftrightarrow> acc_ok {} st \<and> life_ok {} {} st"

lemmas upd_defs = upd_pool_def upd_budget_def upd_cred_def upd_conn_def set_op_def add_op_def

lemma pool_inv_new: "pool_inv newServerPools"
  by (simp add: pool_inv_def newServerPools_def acc_ok_def own_ok_def link_ok_def count_ok_def pin_ok_def life_ok_def
      cur_ok_def empty_pool_def)

section \<open>Moving connections\<close>

text \<open>Taking a connection out of an idle list.\<close>

lemma own_idle:
  assumes "own_ok T st" "c \<in> set (idle st k)"
  shows "c < length (pl_conns st)" "sc_pool (pl_conns st ! c) = k" "c \<notin> T" "sc_open (pl_conns st ! c)"
    and "cnt (\<lambda>op. op_conn op = Some c) (pl_ops st) = 0"
proof -
  show c: "c < length (pl_conns st)" "sc_pool (pl_conns st ! c) = k" using assms by (auto simp: own_ok_def)
  have eq: "of_bool (sc_open (pl_conns st ! c)) =
      cnt ((=) c) (idle st k) + cnt (\<lambda>op. op_conn op = Some c) (pl_ops st) + of_bool (c \<in> T)"
    using assms c by (simp add: own_ok_def)
  have pos: "0 < cnt ((=) c) (idle st k)" using assms(2) by (auto intro: cnt_pos)
  have nn: "0 \<le> cnt (\<lambda>op. op_conn op = Some c) (pl_ops st)" by simp
  have bounds: "of_bool (sc_open (pl_conns st ! c)) \<le> (1 :: int)" "0 \<le> (of_bool (c \<in> T) :: int)" by simp_all
  then have "of_bool (c \<in> T) = (0 :: int)" "of_bool (sc_open (pl_conns st ! c)) = (1 :: int)"
    using eq pos nn by linarith+
  then show "c \<notin> T" "sc_open (pl_conns st ! c)" by simp_all
  show "cnt (\<lambda>op. op_conn op = Some c) (pl_ops st) = 0" using eq pos nn bounds by linarith
qed

lemma idle_not_pinned: "acc_ok T st \<Longrightarrow> c \<in> set (idle st k) \<Longrightarrow> \<not> sc_pinned (pl_conns st ! c)"
  using own_idle [of T st c k] unfolding acc_ok_def pin_ok_def cnt_zero by (metis op_simps(6))

lemma acc_pop:
  assumes "acc_ok T st" "mset (idle st k) = mset (c # xs)"
  shows "acc_ok (insert c T) (upd_pool k (\<lambda>p. p\<lparr>sp_idle := xs\<rparr>) st)"
proof -
  have own: "own_ok T st" using assms(1) by (simp add: acc_ok_def)
  have c: "c \<in> set (idle st k)" using assms(2) by (metis list.set_intros(1) set_mset_mset)
  note i = own_idle [OF own c]
  have count: "cnt ((=) d) (idle st k) = of_bool (d = c) + cnt ((=) d) xs" for d
    using cnt_mset [OF assms(2), of "(=) d"] by simp
  have sub: "set xs \<subseteq> set (idle st k)" using assms(2) by (metis set_mset_mset list.set_intros(2) subsetI)
  have "own_ok (insert c T) (upd_pool k (\<lambda>p. p\<lparr>sp_idle := xs\<rparr>) st)"
    using own i count sub unfolding own_ok_def upd_pool_def by (auto split: if_splits)
  with assms(1) show ?thesis
    by (auto simp: acc_ok_def link_ok_def count_ok_def pin_ok_def upd_pool_def)
qed

text \<open>Adding a connection to the idle list of its key.\<close>

lemma acc_push:
  assumes "acc_ok (insert c T) st" "c \<notin> T" "\<not> sc_pinned (pl_conns st ! c)" "k = sc_pool (pl_conns st ! c)"
  shows "acc_ok T (upd_pool k (\<lambda>p. p\<lparr>sp_idle := sp_idle p @ [c]\<rparr>) st)"
proof -
  have own: "own_ok (insert c T) st" using assms(1) by (simp add: acc_ok_def)
  have "own_ok T (upd_pool k (\<lambda>p. p\<lparr>sp_idle := sp_idle p @ [c]\<rparr>) st)"
    using own assms(2,4) unfolding own_ok_def upd_pool_def by (auto split: if_splits)
  with assms show ?thesis
    by (auto simp: acc_ok_def link_ok_def count_ok_def pin_ok_def upd_pool_def)
qed

lemma own_transit:
  assumes "own_ok T st" "c \<in> T"
  shows "c < length (pl_conns st)" "sc_open (pl_conns st ! c)" "c \<notin> set (idle st k)"
    and "cnt (\<lambda>op. op_conn op = Some c) (pl_ops st) = 0"
proof -
  show c: "c < length (pl_conns st)" using assms by (auto simp: own_ok_def)
  let ?k = "sc_pool (pl_conns st ! c)"
  have eq: "of_bool (sc_open (pl_conns st ! c)) =
      cnt ((=) c) (idle st ?k) + cnt (\<lambda>op. op_conn op = Some c) (pl_ops st) + 1"
    using assms c by (simp add: own_ok_def)
  have nn: "0 \<le> cnt (\<lambda>op. op_conn op = Some c) (pl_ops st)" "0 \<le> cnt ((=) c) (idle st ?k)" by simp_all
  have le: "of_bool (sc_open (pl_conns st ! c)) \<le> (1 :: int)" by simp
  then have "of_bool (sc_open (pl_conns st ! c)) = (1 :: int)" using eq nn by linarith
  then show "sc_open (pl_conns st ! c)" by simp
  show "cnt (\<lambda>op. op_conn op = Some c) (pl_ops st) = 0" using eq nn le by linarith
  have "cnt ((=) c) (idle st ?k) = 0" using eq nn le by linarith
  then have "c \<notin> set (idle st ?k)" by (auto simp: cnt_zero)
  then show "c \<notin> set (idle st k)" using assms(1) by (auto simp: own_ok_def)
qed

text \<open>The accounts depend on part of the state only.\<close>

definition same_accounts :: "pool_state \<Rightarrow> pool_state \<Rightarrow> bool" where
  "same_accounts st st' \<longleftrightarrow> pl_conns st' = pl_conns st \<and> pl_ops st' = pl_ops st
     \<and> (\<forall>a. bd_open (pl_budgets st' a) = bd_open (pl_budgets st a) \<and> bd_waiters (pl_budgets st' a) = bd_waiters (pl_budgets st a))
     \<and> (\<forall>k. sp_idle (pl_pools st' k) = sp_idle (pl_pools st k) \<and> sp_pinned (pl_pools st' k) = sp_pinned (pl_pools st k))
     \<and> length (pl_creds st') = length (pl_creds st)
     \<and> (\<forall>i. pc_pool (pl_creds st' ! i) = pc_pool (pl_creds st ! i) \<and> pc_conns (pl_creds st' ! i) = pc_conns (pl_creds st ! i))"

lemma acc_cong: "same_accounts st st' \<Longrightarrow> acc_ok T st' = acc_ok T st"
  unfolding same_accounts_def acc_ok_def own_ok_def link_ok_def count_ok_def pin_ok_def by simp

lemma same_accounts_retire: "same_accounts st (retireIfDrainedLocked k i st)"
  by (simp add: same_accounts_def retireIfDrainedLocked_def Let_def upd_pool_def upd_cred_def nth_update)

lemma acc_retireIfDrained [simp]: "acc_ok T (retireIfDrainedLocked k i st) = acc_ok T st"
  by (rule acc_cong [OF same_accounts_retire])

definition close_core :: "nat \<Rightarrow> pool_state \<Rightarrow> pool_state" where
  "close_core c st =
     (let con = pl_conns st ! c in
      bud_add (pk_addr (sc_pool con)) (-1)
        (upd_cred (sc_cred con) (\<lambda>cr. cr\<lparr>pc_conns := pc_conns cr - 1\<rparr>)
          (upd_conn c (\<lambda>cn. cn\<lparr>sc_open := False\<rparr>) st)))"

lemma closeLocked_core:
  "closeLocked c st = retireIfDrainedLocked (sc_pool (pl_conns st ! c)) (sc_cred (pl_conns st ! c)) (close_core c st)"
  by (simp add: closeLocked_def close_core_def Let_def)

lemma close_core_sel [simp]:
  "pl_pools (close_core c st) = pl_pools st" "pl_ops (close_core c st) = pl_ops st"
  "pl_revocations (close_core c st) = pl_revocations st" "pl_closed (close_core c st) = pl_closed st"
  "length (pl_creds (close_core c st)) = length (pl_creds st)" "length (pl_conns (close_core c st)) = length (pl_conns st)"
  by (simp_all add: close_core_def Let_def upd_defs)

lemma close_core_conns: "pl_conns (close_core c st) = (pl_conns st)[c := (pl_conns st ! c)\<lparr>sc_open := False\<rparr>]"
  by (simp add: close_core_def Let_def upd_defs)

lemma close_core_creds:
  "pl_creds (close_core c st) = (let i = sc_cred (pl_conns st ! c) in
     (pl_creds st)[i := (pl_creds st ! i)\<lparr>pc_conns := pc_conns (pl_creds st ! i) - 1\<rparr>])"
  by (simp add: close_core_def Let_def upd_defs)

lemma close_core_budgets:
  "pl_budgets (close_core c st) a =
     (if a = pk_addr (sc_pool (pl_conns st ! c)) then (pl_budgets st a)\<lparr>bd_open := bd_open (pl_budgets st a) - 1\<rparr> else pl_budgets st a)"
  by (simp add: close_core_def Let_def upd_defs)

lemma acc_close:
  assumes "acc_ok (insert c T) st" "c \<notin> T" "\<not> sc_pinned (pl_conns st ! c)"
  shows "acc_ok T (closeLocked c st)"
proof -
  have own: "own_ok (insert c T) st" and link: "link_ok st" and count: "count_ok st" and pin: "pin_ok (insert c T) st"
    using assms(1) by (simp_all add: acc_ok_def)
  note t = own_transit [OF own, of c, simplified]
  have nthc: "pl_conns (close_core c st) ! d = (if d = c then (pl_conns st ! c)\<lparr>sc_open := False\<rparr> else pl_conns st ! d)" for d
    using t(1) by (simp add: close_core_conns)
  have cnt': "cnt P (pl_conns (close_core c st)) = cnt P (pl_conns st) - of_bool (P (pl_conns st ! c))
      + of_bool (P ((pl_conns st ! c)\<lparr>sc_open := False\<rparr>))" for P
    unfolding close_core_conns using t(1) by (rule cnt_update)
  have cn: "pl_conns st ! c \<in> set (pl_conns st)" using t(1) by simp
  have set': "cn \<in> set (pl_conns (close_core c st)) \<Longrightarrow> \<exists>cn' \<in> set (pl_conns st). sc_cred cn = sc_cred cn' \<and> sc_pool cn = sc_pool cn'" for cn
    using cn unfolding close_core_conns by (auto dest!: set_update_subset_insert [THEN subsetD])
  have pool': "pc_pool (pl_creds (close_core c st) ! j) = pc_pool (pl_creds st ! j)" for j
    by (simp add: close_core_creds Let_def nth_update)
  have "own_ok T (close_core c st)"
    using own t assms(2) unfolding own_ok_def by (auto simp: nthc cnt_zero)
  moreover have "link_ok (close_core c st)"
    using link unfolding link_ok_def by (auto simp: pool' nthc dest!: set')
  moreover have "count_ok (close_core c st)"
    using count link cn t(2) unfolding count_ok_def link_ok_def
    by (auto simp: cnt' close_core_budgets close_core_creds Let_def nth_update)
  moreover have "pin_ok T (close_core c st)"
    using pin assms(3) unfolding pin_ok_def by (auto simp: nthc cnt')
  ultimately have "acc_ok T (close_core c st)" by (simp add: acc_ok_def)
  then show ?thesis by (simp add: closeLocked_core)
qed

section \<open>The life of credentials\<close>

lemma last_filter_keep: "xs \<noteq> [] \<Longrightarrow> P (List.last xs) \<Longrightarrow> filter P xs \<noteq> [] \<and> List.last (filter P xs) = List.last xs"
  by (induction xs rule: rev_induct) auto

lemma lifeI:
  assumes "\<And>i. i < length (pl_creds st) \<Longrightarrow> cred_ok D st i" "\<And>k. k \<notin> X \<Longrightarrow> cur_ok st k"
    "\<And>k i. i \<in> set (sp_creds (pl_pools st k)) \<Longrightarrow> i < length (pl_creds st) \<and> pc_pool (pl_creds st ! i) = k"
    "\<And>k. distinct (sp_creds (pl_pools st k))" "distinct (pl_revocations st)" "set (pl_revocations st) \<subseteq> {..<length (pl_creds st)}"
  shows "life_ok D X st"
  using assms unfolding life_ok_def by blast

lemma lifeD:
  assumes "life_ok D X st"
  shows "i < length (pl_creds st) \<Longrightarrow> cred_ok D st i" "k \<notin> X \<Longrightarrow> cur_ok st k"
    "i \<in> set (sp_creds (pl_pools st k)) \<Longrightarrow> i < length (pl_creds st) \<and> pc_pool (pl_creds st ! i) = k"
    "distinct (sp_creds (pl_pools st k))" "distinct (pl_revocations st)" "set (pl_revocations st) \<subseteq> {..<length (pl_creds st)}"
  using assms unfolding life_ok_def by blast+

lemma cred_okD:
  assumes "cred_ok D st i"
  shows "\<not> pc_retiring (pl_creds st ! i) \<Longrightarrow> sp_cur (pl_pools st (pc_pool (pl_creds st ! i))) = Some i"
    and "pc_retiring (pl_creds st ! i) \<Longrightarrow> \<not> pc_revoked (pl_creds st ! i) \<Longrightarrow> i \<notin> D \<Longrightarrow> pc_conns (pl_creds st ! i) > 0"
    and "\<not> pc_revoked (pl_creds st ! i) \<Longrightarrow> i \<in> set (sp_creds (pl_pools st (pc_pool (pl_creds st ! i))))"
    and "pc_revoked (pl_creds st ! i) \<longleftrightarrow> i \<in> set (pl_revocations st)"
    and "pc_revoked (pl_creds st ! i) \<Longrightarrow> pc_retiring (pl_creds st ! i)"
  using assms unfolding cred_ok_def Let_def by blast+

lemma life_retire:
  assumes "life_ok (insert i D) X st" "i < length (pl_creds st)" "pc_pool (pl_creds st ! i) = k"
  shows "life_ok D X (retireIfDrainedLocked k i st)"
proof (cases "\<not> pc_retiring (pl_creds st ! i) \<or> pc_revoked (pl_creds st ! i) \<or> pc_conns (pl_creds st ! i) > 0")
  case True
  then have same: "retireIfDrainedLocked k i st = st" by (simp add: retireIfDrainedLocked_def)
  have "cred_ok D st j" if "j < length (pl_creds st)" for j
    using assms(1) that True by (cases "j = i") (auto simp: life_ok_def cred_ok_def Let_def)
  then show ?thesis unfolding same by (intro lifeI) (use lifeD [OF assms(1)] in blast)+
next
  case False
  let ?st = "retireIfDrainedLocked k i st"
  have creds: "pl_creds ?st = (pl_creds st)[i := (pl_creds st ! i)\<lparr>pc_revoked := True\<rparr>]"
    and rev: "pl_revocations ?st = pl_revocations st @ [i]"
    and pools: "pl_pools ?st = (pl_pools st)(k := (pl_pools st k)\<lparr>sp_creds := filter (\<lambda>j. j \<noteq> i) (sp_creds (pl_pools st k))\<rparr>)"
    using False by (simp_all add: retireIfDrainedLocked_def Let_def upd_pool_def upd_cred_def)
  have i: "i \<notin> set (pl_revocations st)"
    using cred_okD(4) [OF lifeD(1) [OF assms(1,2)]] False by blast
  have "cred_ok D ?st j" if "j < length (pl_creds ?st)" for j
  proof -
    from that have "j < length (pl_creds st)" by (simp add: creds)
    note j = cred_okD [OF lifeD(1) [OF assms(1) this]]
    show ?thesis
      using j assms(2,3) False by (cases "j = i") (auto simp: cred_ok_def Let_def creds rev pools nth_update)
  qed
  moreover have "cur_ok ?st q" if "q \<notin> X" for q
  proof -
    have q: "cur_ok st q" using assms(1) that by (simp add: life_ok_def)
    show ?thesis
    proof (cases "q = k")
      case True
      have "j \<noteq> i" if "sp_cur (pl_pools st k) = Some j" for j using q that False True by (auto simp: cur_ok_def)
      with q True last_filter_keep [of "sp_creds (pl_pools st k)" "\<lambda>j. j \<noteq> i"] show ?thesis
        by (auto simp: cur_ok_def creds pools nth_update)
    next
      case neq: False
      have "j \<noteq> i" if "sp_cur (pl_pools st q) = Some j" for j
        using q that False by (auto simp: cur_ok_def)
      with q neq show ?thesis by (auto simp: cur_ok_def creds pools nth_update)
    qed
  qed
  moreover have "distinct (pl_revocations ?st)" "set (pl_revocations ?st) \<subseteq> {..<length (pl_creds ?st)}"
    using lifeD(5,6) [OF assms(1)] i assms(2) by (auto simp: rev creds)
  moreover have "distinct (sp_creds (pl_pools ?st q))" for q using lifeD(4) [OF assms(1)] by (simp add: pools)
  moreover have "j < length (pl_creds ?st) \<and> pc_pool (pl_creds ?st ! j) = q" if "j \<in> set (sp_creds (pl_pools ?st q))" for j q
    using lifeD(3) [OF assms(1), of j q] that by (auto simp: pools creds nth_update split: if_splits)
  ultimately show ?thesis by (intro lifeI) blast+
qed

lemma life_close_core:
  "life_ok D X st \<Longrightarrow> life_ok (insert (sc_cred (pl_conns st ! c)) D) X (close_core c st)"
  unfolding life_ok_def cred_ok_def cur_ok_def by (auto simp: close_core_creds Let_def nth_update)

lemma life_close:
  assumes "life_ok D X st" "acc_ok T st" "c < length (pl_conns st)"
  shows "life_ok D X (closeLocked c st)"
proof -
  have "pl_conns st ! c \<in> set (pl_conns st)" using assms(3) by simp
  with assms(2) have "sc_cred (pl_conns st ! c) < length (pl_creds st)"
      "pc_pool (pl_creds st ! sc_cred (pl_conns st ! c)) = sc_pool (pl_conns st ! c)"
    by (auto simp: acc_ok_def link_ok_def)
  then show ?thesis unfolding closeLocked_core
    by (intro life_retire life_close_core [OF assms(1)]) (simp_all add: close_core_creds Let_def nth_update)
qed

text \<open>Part of an idle list taken out and closed.\<close>

lemma closeLocked_sel [simp]:
  "pl_ops (closeLocked c st) = pl_ops st" "pl_closed (closeLocked c st) = pl_closed st"
  "idle (closeLocked c st) k = idle st k" "sp_cur (pl_pools (closeLocked c st) k) = sp_cur (pl_pools st k)"
  "sp_minting (pl_pools (closeLocked c st) k) = sp_minting (pl_pools st k)"
  "length (pl_conns (closeLocked c st)) = length (pl_conns st)" "length (pl_creds (closeLocked c st)) = length (pl_creds st)"
  by (simp_all add: closeLocked_core retireIfDrainedLocked_def Let_def upd_pool_def upd_cred_def)

lemma closeLocked_conn [simp]:
  "sc_pinned (pl_conns (closeLocked c st) ! d) = sc_pinned (pl_conns st ! d)"
  "sc_pool (pl_conns (closeLocked c st) ! d) = sc_pool (pl_conns st ! d)"
  "sc_cred (pl_conns (closeLocked c st) ! d) = sc_cred (pl_conns st ! d)"
  by (simp_all add: closeLocked_core retireIfDrainedLocked_def Let_def upd_pool_def upd_cred_def close_core_conns nth_update)

definition inv_with :: "nat set \<Rightarrow> nat set \<Rightarrow> pool_key set \<Rightarrow> pool_state \<Rightarrow> bool" where
  "inv_with T D X st \<longleftrightarrow> acc_ok T st \<and> life_ok D X st"

lemma inv_close:
  "inv_with (insert c T) D X st \<Longrightarrow> c \<notin> T \<Longrightarrow> \<not> sc_pinned (pl_conns st ! c) \<Longrightarrow> inv_with T D X (closeLocked c st)"
  using acc_close [of c T st] life_close [of D X st "insert c T" c] own_transit(1) [of "insert c T" st c]
  by (simp add: inv_with_def acc_ok_def)

definition same_life :: "pool_state \<Rightarrow> pool_state \<Rightarrow> bool" where
  "same_life st st' \<longleftrightarrow> pl_creds st' = pl_creds st \<and> pl_revocations st' = pl_revocations st
     \<and> (\<forall>k. sp_cur (pl_pools st' k) = sp_cur (pl_pools st k) \<and> sp_creds (pl_pools st' k) = sp_creds (pl_pools st k))"

lemma life_cong: "same_life st st' \<Longrightarrow> life_ok D X st' = life_ok D X st"
  unfolding same_life_def life_ok_def cred_ok_def cur_ok_def by simp

lemma life_idle: "life_ok D X (upd_pool k (\<lambda>p. p\<lparr>sp_idle := xs\<rparr>) st) = life_ok D X st"
  by (rule life_cong) (simp add: same_life_def upd_pool_def)

lemma inv_pop:
  assumes "inv_with T D X st" "mset (idle st k) = mset (c # xs)"
  shows "inv_with (insert c T) D X (upd_pool k (\<lambda>p. p\<lparr>sp_idle := xs\<rparr>) st)" "c \<notin> T" "\<not> sc_pinned (pl_conns st ! c)"
proof -
  have c: "c \<in> set (idle st k)" using assms(2) by (metis list.set_intros(1) set_mset_mset)
  show "inv_with (insert c T) D X (upd_pool k (\<lambda>p. p\<lparr>sp_idle := xs\<rparr>) st)"
    using assms acc_pop by (simp add: inv_with_def life_idle)
  show "c \<notin> T" "\<not> sc_pinned (pl_conns st ! c)"
    using assms(1) c own_idle(3) idle_not_pinned by (auto simp: inv_with_def acc_ok_def)
qed

lemma inv_pop_close:
  assumes "inv_with T D X st" "mset (idle st k) = mset (c # xs)"
  shows "inv_with T D X (closeLocked c (upd_pool k (\<lambda>p. p\<lparr>sp_idle := xs\<rparr>) st))"
  using inv_pop [OF assms] by (intro inv_close) (simp_all add: upd_pool_def)

section \<open>Changing the position of a goroutine\<close>

lemma set_update_keep: "x \<in> set xs \<Longrightarrow> xs ! t \<noteq> x \<Longrightarrow> x \<in> set (xs[t := y])"
  by (metis in_set_conv_nth length_list_update nth_list_update_neq)

lemma in_set_update: "t < length xs \<Longrightarrow> x \<in> set (xs[t := y]) \<Longrightarrow> x = y \<or> x \<in> set xs"
  by (metis insertE set_update_subset_insert subsetD)

definition op_ok :: "pool_state \<Rightarrow> pool_op \<Rightarrow> bool" where
  "op_ok st op \<longleftrightarrow> (case op of
       OpConnecting k p w i \<Rightarrow> i < length (pl_creds st) \<and> pc_pool (pl_creds st ! i) = k
     | OpOpened k p w c \<Rightarrow> c < length (pl_conns st) \<and> sc_pool (pl_conns st ! c) = k \<and> \<not> sc_pinned (pl_conns st ! c)
     | OpHolding c \<Rightarrow> c < length (pl_conns st)
     | _ \<Rightarrow> True)"

lemma acc_op:
  assumes acc: "acc_ok T st" and t: "t < length (pl_ops st)"
    and same: "pl_conns st' = pl_conns st" "pl_ops st' = (pl_ops st)[t := new]" "length (pl_creds st') = length (pl_creds st)"
      "\<And>k. sp_idle (pl_pools st' k) = sp_idle (pl_pools st k)" "\<And>k. sp_pinned (pl_pools st' k) = sp_pinned (pl_pools st k)"
      "\<And>i. pc_pool (pl_creds st' ! i) = pc_pool (pl_creds st ! i)"
    and counts: "\<And>a. bd_open (pl_budgets st' a) = bd_open (pl_budgets st a) - of_bool (op_counted a (pl_ops st ! t)) + of_bool (op_counted a new)"
      "\<And>a. bd_waiters (pl_budgets st' a) = bd_waiters (pl_budgets st a) - of_bool (op_waits a (pl_ops st ! t)) + of_bool (op_waits a new)"
      "\<And>i. i < length (pl_creds st) \<Longrightarrow> pc_conns (pl_creds st' ! i)
         = pc_conns (pl_creds st ! i) - of_bool (op_connects i (pl_ops st ! t)) + of_bool (op_connects i new)"
    and moved: "\<And>c. (of_bool (c \<in> T') :: int) = of_bool (c \<in> T) + of_bool (op_conn (pl_ops st ! t) = Some c) - of_bool (op_conn new = Some c)"
    and new: "op_ok st new" "\<And>c. new \<noteq> OpHolding c \<Longrightarrow> pl_ops st ! t = OpHolding c \<Longrightarrow> c \<in> T'"
  shows "acc_ok T' st'"
proof -
  have own: "own_ok T st" and link: "link_ok st" and count: "count_ok st" and pin: "pin_ok T st" using acc by (simp_all add: acc_ok_def)
  have old: "op_conn (pl_ops st ! t) = Some c \<Longrightarrow> c < length (pl_conns st)" for c
    using own t by (auto simp: own_ok_def)
  have nc: "op_conn new = Some c \<Longrightarrow> c < length (pl_conns st)" for c
    using new(1) by (cases new) (auto simp: op_ok_def)
  have sub: "c < length (pl_conns st)" if "c \<in> T'" for c
  proof (cases "c \<in> T")
    case True then show ?thesis using own by (auto simp: own_ok_def)
  next
    case False
    with moved [of c] that have "op_conn (pl_ops st ! t) = Some c"
      by (cases "op_conn (pl_ops st ! t) = Some c"; cases "op_conn new = Some c") auto
    then show ?thesis by (rule old)
  qed
  have "own_ok T' st'"
    unfolding own_ok_def same
  proof (intro conjI allI impI ballI)
    fix c assume "c < length (pl_conns st)"
    then show "of_bool (sc_open (pl_conns st ! c)) = cnt ((=) c) (idle st (sc_pool (pl_conns st ! c)))
        + cnt (\<lambda>op. op_conn op = Some c) ((pl_ops st)[t := new]) + of_bool (c \<in> T')"
      using own moved [of c] t by (simp add: own_ok_def cnt_update)
  next
    fix op c assume "op \<in> set ((pl_ops st)[t := new])" "op_conn op = Some c"
    then show "c < length (pl_conns st)"
      using in_set_update [OF t] nc own by (metis own_ok_def)
  qed (use own sub in \<open>auto simp: own_ok_def\<close>)
  moreover have "link_ok st'"
    using link new(1) t unfolding link_ok_def same op_ok_def by (auto dest!: in_set_update [OF t])
  moreover have "count_ok st'"
    using count t unfolding count_ok_def same by (simp add: counts cnt_update)
  moreover have "pin_ok T' st'"
    unfolding pin_ok_def same
  proof (intro conjI allI impI)
    fix c assume c: "c < length (pl_conns st)" "sc_pinned (pl_conns st ! c)"
    with pin consider "OpHolding c \<in> set (pl_ops st)" | "c \<in> T" by (auto simp: pin_ok_def)
    then show "OpHolding c \<in> set ((pl_ops st)[t := new]) \<or> c \<in> T'"
    proof cases
      case 1
      then show ?thesis
      proof (cases "pl_ops st ! t = OpHolding c")
        case True
        then show ?thesis using new(2) [of c] t by (cases "new = OpHolding c") (auto simp: set_update_memI)
      qed (simp add: set_update_keep)
    next
      case 2
      show ?thesis
      proof (cases "op_conn new = Some c")
        case True
        then have "new = OpHolding c" using new(1) c(2) by (cases new) (auto simp: op_ok_def)
        then show ?thesis using t by (auto simp: set_update_memI)
      next
        case False
        with 2 moved [of c] show ?thesis by (cases "c \<in> T'"; cases "op_conn (pl_ops st ! t) = Some c") auto
      qed
    qed
  qed (use pin in \<open>auto simp: pin_ok_def\<close>)
  ultimately show ?thesis by (simp add: acc_ok_def)
qed

lemma acc_add_done [simp]: "acc_ok T (add_op OpDone st) = acc_ok T st"
  unfolding acc_ok_def own_ok_def link_ok_def count_ok_def pin_ok_def add_op_def by auto

lemma life_ops [simp]: "life_ok D X (st\<lparr>pl_ops := ops\<rparr>) = life_ok D X st"
  by (rule life_cong) (simp add: same_life_def)

lemma add_op_set: "add_op op st = set_op (length (pl_ops st)) op (add_op OpDone st)"
  by (simp add: add_op_def set_op_def)

lemma inv_cong: "same_accounts st st' \<Longrightarrow> same_life st st' \<Longrightarrow> inv_with T D X st' = inv_with T D X st"
  by (simp add: inv_with_def acc_cong life_cong)

lemma inv_budgetFor [simp]: "inv_with T D X (budgetFor opts a m r st) = inv_with T D X st"
  by (rule inv_cong) (simp_all add: same_accounts_def same_life_def budgetFor_def Let_def upd_budget_def)

lemma inv_add_done [simp]: "inv_with T D X (add_op OpDone st) = inv_with T D X st"
  unfolding inv_with_def acc_add_done by (simp add: add_op_def)

lemma inv_pop_many:
  "inv_with T D X st \<Longrightarrow> mset (idle st k) = mset (cs @ ys) \<Longrightarrow>
     inv_with (set cs \<union> T) D X (upd_pool k (\<lambda>p. p\<lparr>sp_idle := ys\<rparr>) st)
     \<and> distinct cs \<and> set cs \<inter> T = {} \<and> (\<forall>c \<in> set cs. \<not> sc_pinned (pl_conns st ! c))"
proof (induction cs arbitrary: ys)
  case Nil
  then have "set ys = set (idle st k)" and m: "mset (idle st k) = mset ys" by (metis set_mset_mset append_Nil)+
  have "acc_ok T (upd_pool k (\<lambda>p. p\<lparr>sp_idle := ys\<rparr>) st)"
    using Nil.prems(1) cnt_mset [OF m] \<open>set ys = _\<close>
    unfolding inv_with_def acc_ok_def own_ok_def link_ok_def count_ok_def pin_ok_def upd_pool_def by simp
  with Nil.prems(1) show ?case by (simp add: inv_with_def life_idle)
next
  case (Cons c cs)
  let ?st = "upd_pool k (\<lambda>p. p\<lparr>sp_idle := c # ys\<rparr>) st"
  have IH: "inv_with (set cs \<union> T) D X ?st" "distinct cs" "set cs \<inter> T = {}" "\<forall>c \<in> set cs. \<not> sc_pinned (pl_conns st ! c)"
    using Cons.IH [of "c # ys"] Cons.prems by simp_all
  have m: "mset (idle ?st k) = mset (c # ys)" by (simp add: upd_pool_def)
  from inv_pop [OF IH(1) m] IH show ?case by (simp add: upd_pool_def)
qed

lemma inv_close_many:
  "inv_with (set cs \<union> T) D X st \<Longrightarrow> distinct cs \<Longrightarrow> set cs \<inter> T = {} \<Longrightarrow> \<forall>c \<in> set cs. \<not> sc_pinned (pl_conns st ! c)
     \<Longrightarrow> inv_with T D X (foldl (\<lambda>s c. closeLocked c s) st cs)"
proof (induction cs arbitrary: st)
  case (Cons c cs)
  have "inv_with (set cs \<union> T) D X (closeLocked c st)"
    using Cons.prems by (intro inv_close) auto
  with Cons show ?case by auto
qed simp

lemma inv_close_idle:
  assumes "inv_with T D X st" "mset (idle st k) = mset (cs @ ys)"
  shows "inv_with T D X (foldl (\<lambda>s c. closeLocked c s) (upd_pool k (\<lambda>p. p\<lparr>sp_idle := ys\<rparr>) st) cs)"
  using inv_pop_many [OF assms] by (intro inv_close_many) (simp_all add: upd_pool_def)

lemma inv_close_filter:
  "inv_with T D X st \<Longrightarrow>
     inv_with T D X (foldl (\<lambda>s c. closeLocked c s) (upd_pool k (\<lambda>p. p\<lparr>sp_idle := filter (\<lambda>c. \<not> P c) (idle st k)\<rparr>) st)
       (filter P (idle st k)))"
  by (rule inv_close_idle) (simp_all add: multiset_partition [symmetric] mset_filter)

lemma reuse_idle_inv:
  "inv_with T D X st \<Longrightarrow> idle st k = rev cs \<Longrightarrow> reuse_idle k cs st = (r, st') \<Longrightarrow>
     (case r of None \<Rightarrow> inv_with T D X st' \<and> idle st' k = []
      | Some c \<Rightarrow> inv_with (insert c T) D X st' \<and> c \<notin> T \<and> \<not> sc_pinned (pl_conns st' ! c) \<and> c < length (pl_conns st'))
     \<and> pl_ops st' = pl_ops st \<and> pl_closed st' = pl_closed st"
proof (induction cs arbitrary: st)
  case (Cons c cs)
  let ?st = "upd_pool k (\<lambda>p. p\<lparr>sp_idle := rev cs\<rparr>) st"
  have m: "mset (idle st k) = mset (c # rev cs)" using Cons.prems(2) by simp
  note pop = inv_pop [OF Cons.prems(1) m]
  show ?case
  proof (cases "pc_retiring (pl_creds ?st ! sc_cred (pl_conns ?st ! c))")
    case True
    with Cons.prems(3) have r: "reuse_idle k cs (closeLocked c ?st) = (r, st')" by (simp add: Let_def)
    have "idle (closeLocked c ?st) k = rev cs" by (simp add: upd_pool_def)
    from Cons.IH [OF inv_pop_close [OF Cons.prems(1) m] this r] show ?thesis by (simp add: upd_pool_def)
  next
    case False
    with Cons.prems(3) have "r = Some c" "st' = ?st" by (auto simp: Let_def)
    with pop own_transit(1) [of "insert c T" ?st c] show ?thesis
      by (auto simp: inv_with_def acc_ok_def upd_pool_def)
  qed
qed auto

lemma evictIdle_inv: "inv_with T D X st \<Longrightarrow> inv_with T D X (evictIdleLocked victim st)"
  by (auto simp: evictIdleLocked_def split: option.splits list.splits intro!: inv_pop_close)

lemma evictIdle_sel [simp]: "pl_ops (evictIdleLocked victim st) = pl_ops st" "pl_closed (evictIdleLocked victim st) = pl_closed st"
  by (auto simp: evictIdleLocked_def upd_pool_def split: option.splits list.splits)

text \<open>The flags of a connection that is being moved change.\<close>

lemma inv_conn:
  assumes "inv_with (insert c T) D X st" "same_life st st'"
    and conns: "pl_conns st' = (pl_conns st)[c := con]"
      "sc_cred con = sc_cred (pl_conns st ! c)" "sc_pool con = sc_pool (pl_conns st ! c)" "sc_open con = sc_open (pl_conns st ! c)"
    and sel: "pl_ops st' = pl_ops st" "pl_budgets st' = pl_budgets st" "\<And>k. idle st' k = idle st k"
    and pinned: "\<And>k. sp_pinned (pl_pools st' k) = sp_pinned (pl_pools st k)
      - of_bool (sc_pinned (pl_conns st ! c) \<and> sc_pool con = k) + of_bool (sc_pinned con \<and> sc_pool con = k)"
  shows "inv_with (insert c T) D X st'"
proof -
  have own: "own_ok (insert c T) st" and rest: "link_ok st" "count_ok st" "pin_ok (insert c T) st"
    using assms(1) by (simp_all add: inv_with_def acc_ok_def)
  note t = own_transit [OF own, of c, simplified]
  have creds: "pl_creds st' = pl_creds st" using assms(2) by (simp add: same_life_def)
  have cnt': "cnt P (pl_conns st') = cnt P (pl_conns st) - of_bool (P (pl_conns st ! c)) + of_bool (P con)" for P
    unfolding conns using t(1) by (rule cnt_update)
  have cn: "pl_conns st ! c \<in> set (pl_conns st)" using t(1) by simp
  have set': "cn \<in> set (pl_conns st') \<Longrightarrow> \<exists>cn' \<in> set (pl_conns st). sc_cred cn = sc_cred cn' \<and> sc_pool cn = sc_pool cn'" for cn
    using cn conns(2,3) unfolding conns(1) by (auto dest!: set_update_subset_insert [THEN subsetD])
  have nc: "OpOpened k p w c \<notin> set (pl_ops st)" for k p w using t(4) unfolding cnt_zero by (metis op_simps(5))
  have nth: "sc_pool (pl_conns st' ! d) = sc_pool (pl_conns st ! d)" "sc_open (pl_conns st' ! d) = sc_open (pl_conns st ! d)"
      "d \<noteq> c \<Longrightarrow> sc_pinned (pl_conns st' ! d) = sc_pinned (pl_conns st ! d)" for d
    by (simp_all add: conns nth_update)
  have len: "length (pl_conns st') = length (pl_conns st)" by (simp add: conns)
  have "own_ok (insert c T) st'" using own by (simp add: own_ok_def nth len sel)
  moreover have "link_ok st'" using rest(1) nc set' nth unfolding link_ok_def sel creds by metis
  moreover have "count_ok st'" using rest(2) unfolding count_ok_def sel creds by (simp add: cnt' conns(2-4))
  moreover have "pin_ok (insert c T) st'" using rest(3) nth(3) unfolding pin_ok_def sel len
    by (auto simp: cnt' pinned conns(3))
  ultimately show ?thesis using assms(1,2) by (simp add: inv_with_def acc_ok_def life_cong)
qed

lemma pin_conn_inv:
  assumes "inv_with (insert c T) D X st" "\<not> sc_pinned (pl_conns st ! c)"
  shows "inv_with (insert c T) D X (pin_conn pinned c st)"
  by (rule inv_conn [of c T D X st _ "(pl_conns st ! c)\<lparr>sc_pinned := pinned\<rparr>"])
    (use assms in \<open>simp_all add: same_life_def pin_conn_def Let_def upd_conn_def upd_pool_def\<close>)

section \<open>Every operation keeps the invariants\<close>

lemma pool_inv_with: "pool_inv st \<longleftrightarrow> inv_with {} {} {} st"
  by (simp add: pool_inv_def inv_with_def)

lemma bd_limit_close [simp]: "bd_limit (pl_budgets (closeLocked c st) a) = bd_limit (pl_budgets st a)"
  by (simp add: closeLocked_core retireIfDrainedLocked_def Let_def upd_pool_def upd_cred_def close_core_budgets)

lemma bd_limit_pool [simp]: "pl_budgets (upd_pool k f st) = pl_budgets st"
  by (simp add: upd_pool_def)

lemma bd_limit_reuse: "reuse_idle k cs st = (r, st') \<Longrightarrow> bd_limit (pl_budgets st' a) = bd_limit (pl_budgets st a)"
  by (induction cs arbitrary: st) (auto simp: Let_def split: if_splits)

lemma bd_limit_evict [simp]: "bd_limit (pl_budgets (evictIdleLocked v st) a) = bd_limit (pl_budgets st a)"
  by (auto simp: evictIdleLocked_def split: option.splits list.splits)

text \<open>What one pass of \<open>acquire\<close> leaves: nothing in transit, or the connection it took, or one more place in the budget.\<close>

definition pass_ok :: "pool_key \<Rightarrow> pass_result \<Rightarrow> pool_state \<Rightarrow> bool" where
  "pass_ok k r st' = (case r of
       PassGot c \<Rightarrow> inv_with {c} {} {} st' \<and> c < length (pl_conns st')
     | PassOpen \<Rightarrow> bd_open (pl_budgets st' (pk_addr k)) \<le> bd_limit (pl_budgets st' (pk_addr k))
         \<and> (\<exists>st0. st' = bud_add (pk_addr k) 1 st0 \<and> inv_with {} {} {} st0)
     | _ \<Rightarrow> inv_with {} {} {} st')"

lemma pass_openI:
  "inv_with {} {} {} st \<Longrightarrow> bd_open (pl_budgets st (pk_addr k)) < bd_limit (pl_budgets st (pk_addr k))
     \<Longrightarrow> pass_ok k PassOpen (bud_add (pk_addr k) 1 st)"
  by (auto simp: pass_ok_def upd_budget_def)

lemma acquire_pass_inv:
  assumes "pool_inv st" "acquire_pass opts k m pinned replicas victim st = Some (r, st')"
  shows "pass_ok k r st'" and "pl_ops st' = pl_ops st" and "pl_closed st' = pl_closed st"
proof -
  let ?st1 = "budgetFor opts (pk_addr k) m replicas st"
  let ?limit = "bd_limit (pl_budgets ?st1 (pk_addr k))"
  have inv1: "inv_with {} {} {} ?st1" using assms(1) by (simp add: pool_inv_with)
  have sel1: "pl_ops ?st1 = pl_ops st" "pl_closed ?st1 = pl_closed st" by (simp_all add: budgetFor_def Let_def upd_budget_def)
  obtain rc st2 where reuse: "reuse_idle k (rev (idle ?st1 k)) ?st1 = (rc, st2)" by fastforce
  note ru = reuse_idle_inv [OF inv1 _ reuse, simplified]
  have lim2: "bd_limit (pl_budgets st2 (pk_addr k)) = ?limit" using bd_limit_reuse [OF reuse] .
  have "pass_ok k r st' \<and> pl_ops st' = pl_ops st \<and> pl_closed st' = pl_closed st"
  proof (cases "pl_closed st \<or> pinned \<and> sp_pinned (pl_pools ?st1 k) \<ge> session_share opts ?limit")
    case True
    with assms inv1 sel1 show ?thesis
      by (auto simp: acquire_pass_def Let_def pass_ok_def pool_inv_with split: if_splits)
  next
    case False
    show ?thesis
    proof (cases rc)
      case (Some c)
      with False assms(2) reuse have "r = PassGot c" "st' = pin_conn pinned c st2" by (auto simp: acquire_pass_def Let_def)
      moreover have "pl_ops (pin_conn pinned c st2) = pl_ops st2" "pl_closed (pin_conn pinned c st2) = pl_closed st2"
          "length (pl_conns (pin_conn pinned c st2)) = length (pl_conns st2)"
        by (simp_all add: pin_conn_def Let_def upd_conn_def upd_pool_def)
      ultimately show ?thesis using ru Some sel1 pin_conn_inv [of c "{}" "{}" "{}" st2] by (simp add: pass_ok_def)
    next
      case None
      then have inv2: "inv_with {} {} {} st2" "pl_ops st2 = pl_ops st" "pl_closed st2 = pl_closed st" using ru sel1 by simp_all
      show ?thesis
      proof (cases "bd_open (pl_budgets st2 (pk_addr k)) < ?limit")
        case True
        with None False assms(2) reuse have "r = PassOpen" "st' = bud_add (pk_addr k) 1 st2" by (auto simp: acquire_pass_def Let_def)
        with inv2 True lim2 pass_openI [OF inv2(1), of k] show ?thesis by (simp add: upd_budget_def)
      next
        case full: False
        let ?st3 = "evictIdleLocked victim st2"
        have inv3: "inv_with {} {} {} ?st3" by (rule evictIdle_inv [OF inv2(1)])
        show ?thesis
        proof (cases "bd_open (pl_budgets ?st3 (pk_addr k)) < ?limit")
          case True
          with full None False assms(2) reuse have "r = PassOpen" "st' = bud_add (pk_addr k) 1 ?st3"
            by (auto simp: acquire_pass_def Let_def split: if_splits)
          with inv2 True lim2 pass_openI [OF inv3, of k] show ?thesis by (simp add: upd_budget_def)
        next
          case False': False
          with full None False assms(2) reuse have "r = PassFull" "st' = ?st3"
            by (auto simp: acquire_pass_def Let_def split: if_splits)
          with inv3 inv2 show ?thesis by (simp add: pass_ok_def)
        qed
      qed
    qed
  qed
  then show "pass_ok k r st'" "pl_ops st' = pl_ops st" "pl_closed st' = pl_closed st" by simp_all
qed

text \<open>A goroutine moves on: the budget and the waiters change as its position says.\<close>

lemma inv_op:
  assumes "inv_with T D X st" "t < length (pl_ops st)" "pl_pools st' = pl_pools st" "pl_conns st' = pl_conns st"
    "pl_creds st' = pl_creds st" "pl_revocations st' = pl_revocations st" "pl_ops st' = (pl_ops st)[t := new]"
    "\<And>a. bd_open (pl_budgets st' a) = bd_open (pl_budgets st a) - of_bool (op_counted a (pl_ops st ! t)) + of_bool (op_counted a new)"
    "\<And>a. bd_waiters (pl_budgets st' a) = bd_waiters (pl_budgets st a) - of_bool (op_waits a (pl_ops st ! t)) + of_bool (op_waits a new)"
    "\<And>i. op_connects i (pl_ops st ! t) = op_connects i new"
    "\<And>c. (of_bool (c \<in> T') :: int) = of_bool (c \<in> T) + of_bool (op_conn (pl_ops st ! t) = Some c) - of_bool (op_conn new = Some c)"
    "op_ok st new" "\<And>c. new \<noteq> OpHolding c \<Longrightarrow> pl_ops st ! t = OpHolding c \<Longrightarrow> c \<in> T'"
  shows "inv_with T' D X st'"
proof -
  have "same_life st st'" using assms(3,5,6) by (simp add: same_life_def)
  moreover have "acc_ok T' st'"
    by (rule acc_op [of T st t _ new]) (use assms in \<open>simp_all add: inv_with_def\<close>)
  ultimately show ?thesis using assms(1) by (simp add: inv_with_def life_cong)
qed

lemma add_op_new:
  assumes "inv_with T D X st" "pl_pools st' = pl_pools st" "pl_conns st' = pl_conns st"
    "pl_creds st' = pl_creds st" "pl_revocations st' = pl_revocations st" "pl_ops st' = pl_ops st @ [new]"
    "\<And>a. bd_open (pl_budgets st' a) = bd_open (pl_budgets st a) + of_bool (op_counted a new)"
    "\<And>a. bd_waiters (pl_budgets st' a) = bd_waiters (pl_budgets st a) + of_bool (op_waits a new)"
    "\<And>i. \<not> op_connects i new"
    "\<And>c. (of_bool (c \<in> T') :: int) = of_bool (c \<in> T) - of_bool (op_conn new = Some c)" "op_ok st new"
  shows "inv_with T' D X st'"
  by (rule inv_op [of T D X "add_op OpDone st" "length (pl_ops st)" _ new])
    (use assms in \<open>simp_all add: add_op_def [of OpDone st] nth_append op_ok_def inv_add_done [unfolded add_op_def] split: pool_op.splits\<close>)

end
