(* ===== verification/PgPoolOps.thy ===== *)
theory PgPoolOps
  imports PgPoolInv
begin

text \<open>
  Every operation of the connection pool keeps the invariants of \<open>PgPoolInv\<close>, and so does every run of
  them; after shutdown no connection is idle and every credential retires, as long as no credential
  is issued.
\<close>

section \<open>Checking out\<close>

lemma inv_hold_new:
  "inv_with {c} {} {} st \<Longrightarrow> c < length (pl_conns st) \<Longrightarrow> pool_inv (add_op (OpHolding c) st)"
  unfolding pool_inv_with by (rule add_op_new [of "{c}" "{}" "{}" st _ "OpHolding c"]) (simp_all add: add_op_def op_ok_def)

lemma inv_open_new:
  "inv_with {} {} {} st \<Longrightarrow> pool_inv (add_op (OpOpening k p False) (bud_add (pk_addr k) 1 st))"
  unfolding pool_inv_with
  by (rule add_op_new [of "{}" "{}" "{}" st _ "OpOpening k p False"]) (simp_all add: add_op_def op_ok_def upd_budget_def)

lemma inv_wait_new:
  "inv_with {} {} {} st \<Longrightarrow> pool_inv (add_op (OpWait k m p) (wait_add (pk_addr k) 1 st))"
  unfolding pool_inv_with
  by (rule add_op_new [of "{}" "{}" "{}" st _ "OpWait k m p"]) (simp_all add: add_op_def op_ok_def upd_budget_def)

lemma acquire_inv:
  assumes "pool_inv st" "acquire opts k m pinned replicas victim st = Some st'"
  shows "pool_inv st'"
proof -
  from assms(2) obtain r st1 where p: "acquire_pass opts k m pinned replicas victim st = Some (r, st1)"
    by (auto simp: acquire_def split: option.splits prod.splits)
  note pass = acquire_pass_inv(1) [OF assms(1) p]
  show ?thesis
  proof (cases r)
    case (PassGot c)
    with assms(2) p pass show ?thesis by (auto simp: acquire_def pass_ok_def intro!: inv_hold_new)
  next
    case PassOpen
    with assms(2) p have st': "st' = add_op (OpOpening k pinned False) st1" by (simp add: acquire_def)
    from pass PassOpen obtain st0 where st0: "st1 = bud_add (pk_addr k) 1 st0" "inv_with {} {} {} st0" by (auto simp: pass_ok_def)
    show ?thesis unfolding st' st0(1) by (rule inv_open_new [OF st0(2)])
  next
    case PassFull
    with pass have "inv_with {} {} {} st1" by (simp add: pass_ok_def)
    with assms(2) p PassFull show ?thesis
      by (auto simp: acquire_def Let_def pool_inv_with inv_wait_new [unfolded pool_inv_with] split: if_splits)
  qed (use assms(2) p pass in \<open>auto simp: acquire_def pass_ok_def pool_inv_with\<close>)
qed

text \<open>A goroutine in the queue leaves it.\<close>

lemma inv_wait_done:
  assumes "inv_with {} {} {} st" "t < length (pl_ops st)" "pl_ops st ! t = OpWait k m p"
  shows "pool_inv (set_op t OpDone (end_wait True k st))"
  unfolding pool_inv_with
  by (rule inv_op [of "{}" "{}" "{}" st t _ OpDone]) (use assms in \<open>simp_all add: set_op_def end_wait_def upd_budget_def op_ok_def\<close>)

lemma inv_wait_hold:
  assumes "inv_with {c} {} {} st" "t < length (pl_ops st)" "pl_ops st ! t = OpWait k m p" "c < length (pl_conns st)"
  shows "pool_inv (set_op t (OpHolding c) (end_wait True k st))"
  unfolding pool_inv_with
  by (rule inv_op [of "{c}" "{}" "{}" st t _ "OpHolding c"]) (use assms in \<open>simp_all add: set_op_def end_wait_def upd_budget_def op_ok_def\<close>)

lemma inv_wait_open:
  assumes "inv_with {} {} {} st" "t < length (pl_ops st)" "pl_ops st ! t = OpWait k m p"
  shows "pool_inv (set_op t (OpOpening k p True) (bud_add (pk_addr k) 1 st))"
  unfolding pool_inv_with
  by (rule inv_op [of "{}" "{}" "{}" st t _ "OpOpening k p True"]) (use assms in \<open>simp_all add: set_op_def upd_budget_def op_ok_def\<close>)

lemma acquire_again_inv:
  assumes "pool_inv st" "t < length (pl_ops st)" "acquire_again opts t replicas victim st = Some st'"
  shows "pool_inv st'"
proof -
  from assms(3) obtain k m pinned r st1 where op: "pl_ops st ! t = OpWait k m pinned"
      and p: "acquire_pass opts k m pinned replicas victim st = Some (r, st1)"
    by (auto simp: acquire_again_def split: option.splits prod.splits pool_op.splits)
  note pass = acquire_pass_inv [OF assms(1) p]
  have t1: "t < length (pl_ops st1)" "pl_ops st1 ! t = OpWait k m pinned" using assms(2) op pass(2) by simp_all
  show ?thesis
  proof (cases r)
    case (PassGot c)
    with assms(3) op p pass(1) t1 show ?thesis by (auto simp: acquire_again_def pass_ok_def intro!: inv_wait_hold)
  next
    case PassOpen
    with assms(3) op p have st': "st' = set_op t (OpOpening k pinned True) st1" by (simp add: acquire_again_def)
    from pass(1) PassOpen obtain st0 where st0: "st1 = bud_add (pk_addr k) 1 st0" "inv_with {} {} {} st0" by (auto simp: pass_ok_def)
    have "t < length (pl_ops st0)" "pl_ops st0 ! t = OpWait k m pinned" using t1 st0(1) by (simp_all add: upd_budget_def)
    then show ?thesis unfolding st' st0(1) by (rule inv_wait_open [OF st0(2)])
  next
    case PassFull
    with assms(3) op p pass(1) show ?thesis by (simp add: acquire_again_def pass_ok_def pool_inv_with)
  qed (use assms(3) op p pass(1) t1 in \<open>auto simp: acquire_again_def pass_ok_def intro!: inv_wait_done\<close>)
qed

lemma end_wait_sel [simp]:
  "pl_conns (end_wait w k st) = pl_conns st" "pl_ops (end_wait w k st) = pl_ops st" "pl_pools (end_wait w k st) = pl_pools st"
  "pl_creds (end_wait w k st) = pl_creds st" "pl_revocations (end_wait w k st) = pl_revocations st"
  "bd_open (pl_budgets (end_wait w k st) a) = bd_open (pl_budgets st a)"
  "bd_waiters (pl_budgets (end_wait w k st) a) = bd_waiters (pl_budgets st a) - of_bool (w \<and> pk_addr k = a)"
  by (simp_all add: end_wait_def upd_budget_def)

lemma pin_conn_sel [simp]:
  "pl_ops (pin_conn b c st) = pl_ops st" "pl_budgets (pin_conn b c st) = pl_budgets st"
  "length (pl_conns (pin_conn b c st)) = length (pl_conns st)"
  by (simp_all add: pin_conn_def Let_def upd_conn_def upd_pool_def)

lemma set_op_twice [simp]: "set_op t a (set_op t b st) = set_op t a st" "set_op t (pl_ops st ! t) st = st"
  by (simp_all add: set_op_def)

lemma set_op_commute:
  "end_wait w k (set_op t op st) = set_op t op (end_wait w k st)" "pin_conn b c (set_op t op st) = set_op t op (pin_conn b c st)"
  "retireIfDrainedLocked k i (set_op t op st) = set_op t op (retireIfDrainedLocked k i st)"
  "closeLocked c (set_op t op st) = set_op t op (closeLocked c st)" "upd_pool k f (set_op t op st) = set_op t op (upd_pool k f st)"
  "upd_conn c g (set_op t op st) = set_op t op (upd_conn c g st)" "upd_cred i h (set_op t op st) = set_op t op (upd_cred i h st)"
  "end_wait w k (pin_conn b c st) = pin_conn b c (end_wait w k st)"
  by (cases b; simp add: end_wait_def pin_conn_def retireIfDrainedLocked_def closeLocked_def Let_def upd_defs)+

lemma set_op_sel [simp]:
  "pl_conns (set_op t op st) = pl_conns st" "pl_pools (set_op t op st) = pl_pools st" "pl_creds (set_op t op st) = pl_creds st"
  "pl_budgets (set_op t op st) = pl_budgets st" "pl_closed (set_op t op st) = pl_closed st"
  "pl_ops (set_op t op st) = (pl_ops st)[t := op]" "pl_revocations (set_op t op st) = pl_revocations st"
  by (simp_all add: set_op_def)

section \<open>Holding a connection\<close>

text \<open>A goroutine lets go of its connection, and takes one.\<close>

lemma inv_let_go:
  assumes "inv_with {} {} {} st" "t < length (pl_ops st)" "pl_ops st ! t = OpHolding c"
  shows "inv_with {c} {} {} (set_op t OpDone st)"
  by (rule inv_op [of "{}" "{}" "{}" st t _ OpDone]) (use assms in \<open>simp_all add: op_ok_def\<close>)

lemma inv_take:
  assumes "inv_with {c} {} {} st" "t < length (pl_ops st)" "pl_ops st ! t = OpDone" "c < length (pl_conns st)"
  shows "inv_with {} {} {} (set_op t (OpHolding c) st)"
  by (rule inv_op [of "{c}" "{}" "{}" st t _ "OpHolding c"]) (use assms in \<open>simp_all add: op_ok_def\<close>)

lemma inv_pin_take:
  assumes "inv_with {c} {} {} (set_op t OpDone st)" "t < length (pl_ops st)" "\<not> sc_pinned (pl_conns st ! c)" "c < length (pl_conns st)"
  shows "inv_with {} {} {} (set_op t (OpHolding c) (pin_conn pinned c st))"
proof -
  have "inv_with {c} {} {} (pin_conn pinned c (set_op t OpDone st))" by (rule pin_conn_inv [OF assms(1)]) (use assms in simp)
  from inv_take [OF this, of t] assms show ?thesis by (simp add: set_op_commute)
qed

lemma acquire_return_inv:
  assumes "pool_inv st" "t < length (pl_ops st)" "acquire_return t st = Some st'"
  shows "pool_inv st'"
proof -
  have inv: "inv_with {} {} {} st" using assms(1) by (simp add: pool_inv_with)
  show ?thesis
  proof (cases "pl_ops st ! t")
    case (OpOpened k pinned w c)
    have op: "OpOpened k pinned w c \<in> set (pl_ops st)" using OpOpened assms(2) by (metis nth_mem)
    with inv have c: "c < length (pl_conns st)" "\<not> sc_pinned (pl_conns st ! c)"
      by (auto simp: inv_with_def acc_ok_def own_ok_def link_ok_def)
    have "inv_with {c} {} {} (set_op t OpDone (end_wait w k st))"
      by (rule inv_op [of "{}" "{}" "{}" st t _ OpDone]) (use inv OpOpened assms(2) in \<open>simp_all add: op_ok_def\<close>)
    from inv_pin_take [OF this, of pinned] c assms(2,3) OpOpened show ?thesis
      by (auto simp: pool_inv_with acquire_return_def set_op_commute)
  next
    case (OpFailed k w)
    with assms(3) have st': "st' = set_op t OpDone (end_wait w k (bud_add (pk_addr k) (-1) st))" by (simp add: acquire_return_def)
    show ?thesis unfolding st' pool_inv_with
      by (rule inv_op [of "{}" "{}" "{}" st t _ OpDone]) (use inv OpFailed assms(2) in \<open>simp_all add: op_ok_def upd_budget_def\<close>)
  next
    case (OpWait k m p)
    with assms(3) inv_wait_done [OF inv assms(2) OpWait] show ?thesis by (auto simp: acquire_return_def)
  qed (use assms(3) in \<open>simp_all add: acquire_return_def\<close>)
qed

lemma pin_inv:
  assumes "pool_inv st" "t < length (pl_ops st)" "pin opts t st = Some st'"
  shows "pool_inv st'"
proof -
  from assms(3) obtain c where op: "pl_ops st ! t = OpHolding c" by (auto simp: pin_def split: pool_op.splits)
  have inv: "inv_with {} {} {} st" using assms(1) by (simp add: pool_inv_with)
  then have c: "c < length (pl_conns st)" using op assms(2) by (auto simp: inv_with_def acc_ok_def own_ok_def dest: nth_mem)
  show ?thesis
  proof (cases "sc_pinned (pl_conns st ! c) \<or> st' = st")
    case False
    with assms(3) op have st': "st' = pin_conn True c st" by (auto simp: pin_def Let_def split: if_splits)
    have "set_op t (OpHolding c) (pin_conn True c st) = pin_conn True c st"
      using set_op_twice(2) [of t "pin_conn True c st"] op by simp
    with inv_pin_take [OF inv_let_go [OF inv assms(2) op] assms(2) _ c, of True] False show ?thesis
      by (simp add: st' pool_inv_with)
  qed (use assms op in \<open>auto simp: pin_def Let_def\<close>)
qed

lemma unpinned_same: "\<not> sc_pinned con \<Longrightarrow> con\<lparr>sc_pinned := False\<rparr> = con"
  by (cases con) simp

lemma release_inv:
  assumes "pool_inv st" "t < length (pl_ops st)" "release_conn t reusable now st = Some st'"
  shows "pool_inv st'"
proof -
  from assms(3) obtain c where op: "pl_ops st ! t = OpHolding c" by (auto simp: release_conn_def split: pool_op.splits)
  have inv: "inv_with {} {} {} st" using assms(1) by (simp add: pool_inv_with)
  let ?con = "pl_conns st ! c" and ?st = "set_op t OpDone st"
  let ?k = "sc_pool ?con"
  let ?unpin = "if sc_pinned ?con
      then upd_pool ?k (\<lambda>p. p\<lparr>sp_pinned := sp_pinned p - 1\<rparr>) (upd_conn c (\<lambda>cn. cn\<lparr>sc_pinned := False\<rparr>) ?st) else ?st"
  let ?push = "upd_conn c (\<lambda>cn. cn\<lparr>sc_idleAt := now\<rparr>) ?unpin"
  have i0: "inv_with {c} {} {} ?st" by (rule inv_let_go [OF inv assms(2) op])
  have c: "c < length (pl_conns st)" using own_transit(1) [of "{c}" ?st c] i0 by (simp add: inv_with_def acc_ok_def)
  have i1: "inv_with {c} {} {} ?unpin"
    by (rule inv_conn [OF i0, of _ "?con\<lparr>sc_pinned := False\<rparr>"])
      (use c in \<open>simp_all add: unpinned_same same_life_def upd_pool_def upd_conn_def cong: imp_cong\<close>)
  have i2: "inv_with {c} {} {} ?push"
    by (rule inv_conn [OF i1, of _ "?con\<lparr>sc_pinned := False, sc_idleAt := now\<rparr>"])
      (use c in \<open>simp_all add: unpinned_same same_life_def upd_pool_def upd_conn_def cong: imp_cong\<close>)
  have "pool_inv (closeLocked c ?unpin)"
    unfolding pool_inv_with by (rule inv_close [OF i1]) (use c in \<open>simp_all add: upd_pool_def upd_conn_def\<close>)
  moreover have "pool_inv (upd_pool ?k (\<lambda>p. p\<lparr>sp_idle := sp_idle p @ [c]\<rparr>) ?push)"
  proof -
    have "acc_ok {} (upd_pool ?k (\<lambda>p. p\<lparr>sp_idle := sp_idle p @ [c]\<rparr>) ?push)"
      by (rule acc_push) (use i2 c in \<open>simp_all add: inv_with_def upd_pool_def upd_conn_def\<close>)
    moreover have "same_life ?push (upd_pool ?k (\<lambda>p. p\<lparr>sp_idle := sp_idle p @ [c]\<rparr>) ?push)" by (simp add: same_life_def upd_pool_def)
    ultimately show ?thesis using i2 by (simp add: pool_inv_def inv_with_def life_cong)
  qed
  ultimately show ?thesis using assms(3) op
    by (auto simp: release_conn_def Let_def set_op_commute split: if_splits)
qed

lemma open_refused_inv:
  assumes "pool_inv st" "t < length (pl_ops st)" "open_refused t st = Some st'"
  shows "pool_inv st'"
proof -
  from assms(3) obtain k p w where op: "pl_ops st ! t = OpOpening k p w" and st': "st' = set_op t (OpFailed k w) st"
    by (auto simp: open_refused_def split: pool_op.splits)
  show ?thesis unfolding pool_inv_with st'
    by (rule inv_op [of "{}" "{}" "{}" st t _ "OpFailed k w"]) (use assms(1,2) op in \<open>simp_all add: pool_inv_with set_op_def op_ok_def\<close>)
qed

section \<open>Reservations and connections\<close>

lemma life_conns:
  assumes "life_ok D X st" "D \<subseteq> D'" "pc_retiring (pl_creds st ! i) \<Longrightarrow> i \<in> D'"
  shows "life_ok D' X (upd_cred i (\<lambda>c. c\<lparr>pc_conns := f c\<rparr>) st)"
  using assms unfolding life_ok_def cred_ok_def cur_ok_def by (auto simp: upd_cred_def Let_def nth_update)

lemma cur_cred:
  assumes "life_ok D X st" "sp_cur (pl_pools st k) = Some i" "k \<notin> X"
  shows "i < length (pl_creds st)" "pc_pool (pl_creds st ! i) = k" "i \<in> set (sp_creds (pl_pools st k))"
    "\<not> pc_retiring (pl_creds st ! i)" "\<not> pc_revoked (pl_creds st ! i)" "i = List.last (sp_creds (pl_pools st k))"
  using lifeD(2) [OF assms(1,3)] lifeD(3) [OF assms(1), of i k] assms(2) by (auto simp: cur_ok_def dest: last_in_set)

lemma reserve_inv:
  assumes "pool_inv st" "t < length (pl_ops st)" "reserve t now st = Some st'"
  shows "pool_inv st'"
proof -
  from assms(3) obtain k p w i where op: "pl_ops st ! t = OpOpening k p w" and cur: "sp_cur (pl_pools st k) = Some i"
      and st': "st' = set_op t (OpConnecting k p w i) (upd_cred i (\<lambda>c. c\<lparr>pc_conns := pc_conns c + 1\<rparr>) st)"
    by (auto simp: reserve_def Let_def split: pool_op.splits option.splits if_splits)
  have inv: "acc_ok {} st" "life_ok {} {} st" using assms(1) by (simp_all add: pool_inv_def)
  note i = cur_cred [OF inv(2) cur, simplified]
  have "acc_ok {} st'"
    by (rule acc_op [OF inv(1) assms(2), of _ "OpConnecting k p w i"]) (use op i in \<open>simp_all add: st' upd_cred_def nth_update op_ok_def\<close>)
  moreover have "life_ok {} {} st'" using life_conns [OF inv(2), of "{}" i] i(4) by (simp add: st' set_op_def)
  ultimately show ?thesis by (simp add: pool_inv_def)
qed

text \<open>A reservation becomes a connection.\<close>

lemma acc_opened:
  assumes "acc_ok T st" "t < length (pl_ops st)" "pl_ops st ! t = OpConnecting k p w i"
    "sc_cred con = i" "sc_pool con = k" "\<not> sc_pinned con" "sc_open con"
  shows "acc_ok T (set_op t (OpOpened k p w (length (pl_conns st))) (st\<lparr>pl_conns := pl_conns st @ [con]\<rparr>))" (is "acc_ok T ?st")
proof -
  have own: "own_ok T st" and link: "link_ok st" and count: "count_ok st" and pin: "pin_ok T st" using assms(1) by (simp_all add: acc_ok_def)
  let ?n = "length (pl_conns st)"
  have mem: "OpConnecting k p w i \<in> set (pl_ops st)" using assms(2,3) by (metis nth_mem)
  have fresh: "op_conn op \<noteq> Some ?n" if "op \<in> set (pl_ops st)" for op using own that by (auto simp: own_ok_def)
  have lt: "c < ?n" if "c \<in> set (idle st k)" for c k using own that by (auto simp: own_ok_def)
  have T: "T \<subseteq> {..<?n}" using own by (simp add: own_ok_def)
  have ops: "op = OpOpened k p w ?n \<or> op \<in> set (pl_ops st)" if "op \<in> set ((pl_ops st)[t := OpOpened k p w ?n])" for op
    using in_set_update [OF assms(2) that] .
  have ncnt: "cnt (\<lambda>op. op_conn op = Some ?n) (pl_ops st) = 0" "cnt ((=) ?n) (idle st q) = 0" for q
    using fresh lt by (auto simp: cnt_zero)
  have keep: "OpHolding c \<in> set (pl_ops ?st)" if "OpHolding c \<in> set (pl_ops st)" for c
    using that assms(3) by (simp add: set_update_keep)
  have "own_ok T ?st"
    unfolding own_ok_def
  proof (intro conjI allI impI ballI)
    fix c assume c: "c < length (pl_conns ?st)"
    show "of_bool (sc_open (pl_conns ?st ! c)) =
        cnt ((=) c) (idle ?st (sc_pool (pl_conns ?st ! c))) + cnt (\<lambda>op. op_conn op = Some c) (pl_ops ?st) + of_bool (c \<in> T)"
      using c own assms(2,3,7) ncnt T by (cases "c = ?n") (auto simp: own_ok_def nth_append cnt_update)
  next
    fix op c assume "op \<in> set (pl_ops ?st)" "op_conn op = Some c"
    then show "c < length (pl_conns ?st)" using ops [of op] own by (fastforce simp: own_ok_def)
  qed (use own T in \<open>force simp: own_ok_def nth_append\<close>)+
  moreover have "link_ok ?st"
    unfolding link_ok_def
  proof (intro conjI allI impI ballI)
    fix cn assume "cn \<in> set (pl_conns ?st)"
    then show "sc_cred cn < length (pl_creds ?st)" "pc_pool (pl_creds ?st ! sc_cred cn) = sc_pool cn"
      using link mem assms(4,5) by (auto simp: link_ok_def)
  next
    fix k' p' w' i' assume "OpConnecting k' p' w' i' \<in> set (pl_ops ?st)"
    then show "i' < length (pl_creds ?st)" "pc_pool (pl_creds ?st ! i') = k'"
      using link ops [of "OpConnecting k' p' w' i'"] by (auto simp: link_ok_def)
  next
    fix k' p' w' c assume "OpOpened k' p' w' c \<in> set (pl_ops ?st)"
    then have "OpOpened k' p' w' c = OpOpened k p w ?n \<or> OpOpened k' p' w' c \<in> set (pl_ops st)"
      using ops [of "OpOpened k' p' w' c"] by simp
    then show "sc_pool (pl_conns ?st ! c) = k'" "\<not> sc_pinned (pl_conns ?st ! c)"
      using link own assms(5,6) by (fastforce simp: link_ok_def own_ok_def nth_append)+
  qed
  moreover have "count_ok ?st"
    using count assms(2-5,7) unfolding count_ok_def by (simp add: cnt_update)
  moreover have "pin_ok T ?st"
    using pin keep assms(6) unfolding pin_ok_def by (auto simp: nth_append)
  ultimately show ?thesis by (simp add: acc_ok_def)
qed

lemma life_conns_field [simp]: "life_ok D X (st\<lparr>pl_conns := cs\<rparr>) = life_ok D X st"
  by (rule life_cong) (simp add: same_life_def)

lemma open_done_inv:
  assumes "pool_inv st" "t < length (pl_ops st)" "open_done t ok st = Some st'"
  shows "pool_inv st'"
proof -
  from assms(3) obtain k p w i where op: "pl_ops st ! t = OpConnecting k p w i" by (auto simp: open_done_def split: pool_op.splits)
  have inv: "acc_ok {} st" "life_ok {} {} st" using assms(1) by (simp_all add: pool_inv_def)
  have i: "i < length (pl_creds st)" "pc_pool (pl_creds st ! i) = k"
    using inv(1) op assms(2) nth_mem [OF assms(2)] by (auto simp: acc_ok_def link_ok_def)
  show ?thesis
  proof (cases ok)
    case True
    let ?con = "\<lparr>sc_cred = i, sc_pool = k, sc_pinned = False, sc_idleAt = 0, sc_open = True\<rparr>"
    from True assms(3) op have st': "st' = set_op t (OpOpened k p w (length (pl_conns st))) (st\<lparr>pl_conns := pl_conns st @ [?con]\<rparr>)"
      by (simp add: open_done_def)
    show ?thesis using acc_opened [OF inv(1) assms(2) op, of ?con] inv(2) unfolding st' pool_inv_def by (simp add: set_op_def)
  next
    case False
    let ?st = "set_op t (OpFailed k w) (upd_cred i (\<lambda>c. c\<lparr>pc_conns := pc_conns c - 1\<rparr>) st)"
    from False assms(3) op have st': "st' = retireIfDrainedLocked k i ?st" by (simp add: open_done_def set_op_commute)
    have "acc_ok {} ?st"
      by (rule acc_op [OF inv(1) assms(2), of _ "OpFailed k w"]) (use op i in \<open>simp_all add: upd_cred_def nth_update op_ok_def\<close>)
    moreover have "life_ok {i} {} ?st" using life_conns [OF inv(2), of "{i}" i] by (simp add: set_op_def)
    ultimately show ?thesis using life_retire [of i "{}" "{}" ?st k] i unfolding st' pool_inv_def
      by (simp add: upd_cred_def nth_update)
  qed
qed

section \<open>Rotation and retirement\<close>

text \<open>The current credential retires and a new one takes its place.\<close>

lemma same_accounts_cred:
  "same_accounts st (upd_cred i (\<lambda>c. c\<lparr>pc_retiring := r c\<rparr>) st)" "same_accounts st (upd_cred i (\<lambda>c. c\<lparr>pc_retiring := r c, pc_revoked := v c\<rparr>) st)"
  by (simp_all add: same_accounts_def upd_cred_def nth_update)

lemma life_replace:
  assumes "life_ok D {} st" "sp_cur (pl_pools st k) = Some i"
  shows "life_ok (insert i D) {k} (upd_cred i (\<lambda>c. c\<lparr>pc_retiring := True\<rparr>) st)" (is "life_ok _ _ ?st")
proof (rule lifeI)
  note i = cur_cred [OF assms, simplified]
  show "cred_ok (insert i D) ?st j" if "j < length (pl_creds ?st)" for j
    using cred_okD [OF lifeD(1) [OF assms(1)], of j] that by (auto simp: cred_ok_def Let_def upd_cred_def nth_update)
  show "cur_ok ?st q" if "q \<notin> {k}" for q
  proof -
    have "sp_cur (pl_pools st q) \<noteq> Some i" using cur_cred(2) [OF assms(1), of q i] i(2) that by auto
    then show ?thesis using lifeD(2) [OF assms(1), of q] by (auto simp: cur_ok_def upd_cred_def nth_update)
  qed
qed (use lifeD [OF assms(1)] in \<open>auto simp: upd_cred_def nth_update\<close>)

lemma life_install:
  assumes "life_ok {} X st" "X \<subseteq> {k}" "\<And>i. i < length (pl_creds st) \<Longrightarrow> pc_pool (pl_creds st ! i) = k \<Longrightarrow> pc_retiring (pl_creds st ! i)"
    and cred: "pc_pool cred = k" "\<not> pc_retiring cred" "\<not> pc_revoked cred"
  shows "life_ok {} {} (upd_pool k (\<lambda>p. p\<lparr>sp_cur := Some (length (pl_creds st)), sp_creds := sp_creds p @ [length (pl_creds st)]\<rparr>)
    (st\<lparr>pl_creds := pl_creds st @ [cred]\<rparr>))" (is "life_ok _ _ ?st")
proof (rule lifeI)
  let ?n = "length (pl_creds st)"
  have nrev: "?n \<notin> set (pl_revocations st)" using lifeD(6) [OF assms(1)] by auto
  show "cred_ok {} ?st j" if "j < length (pl_creds ?st)" for j
  proof (cases "j = ?n")
    case True
    then show ?thesis using cred nrev by (simp add: cred_ok_def upd_pool_def)
  next
    case False
    with that have "j < ?n" by (simp add: upd_pool_def)
    note j = cred_okD [OF lifeD(1) [OF assms(1) this]]
    show ?thesis using j assms(3) [OF \<open>j < ?n\<close>] \<open>j < ?n\<close> by (auto simp: cred_ok_def Let_def upd_pool_def nth_append)
  qed
  show "cur_ok ?st q" for q
  proof (cases "q = k")
    case True
    then show ?thesis using cred by (simp add: cur_ok_def upd_pool_def)
  next
    case False
    then have q: "q \<notin> X" using assms(2) by auto
    show ?thesis
      using lifeD(2) [OF assms(1) q] cur_cred(1) [OF assms(1) _ q] False by (auto simp: cur_ok_def upd_pool_def nth_append)
  qed
  show "i < length (pl_creds ?st) \<and> pc_pool (pl_creds ?st ! i) = q" if "i \<in> set (sp_creds (pl_pools ?st q))" for i q
    using lifeD(3) [OF assms(1), of i q] that cred(1) by (auto simp: upd_pool_def nth_append split: if_splits)
  show "distinct (sp_creds (pl_pools ?st q))" for q
    using lifeD(3) [OF assms(1), of ?n q] lifeD(4) [OF assms(1), of q] by (auto simp: upd_pool_def)
qed (use lifeD(5,6) [OF assms(1)] in \<open>auto simp: upd_pool_def\<close>)

lemma acc_install:
  assumes "acc_ok T st" "pc_conns cred = 0"
  shows "acc_ok T (upd_pool k (\<lambda>p. p\<lparr>sp_cur := a, sp_creds := l p\<rparr>) (st\<lparr>pl_creds := pl_creds st @ [cred]\<rparr>))" (is "acc_ok T ?st")
proof -
  let ?n = "length (pl_creds st)"
  have link: "link_ok st" and count: "count_ok st" using assms(1) by (simp_all add: acc_ok_def)
  have "cnt (\<lambda>cn. sc_open cn \<and> sc_cred cn = ?n) (pl_conns st) = 0" using link by (auto simp: cnt_zero link_ok_def)
  moreover have "op_connects ?n op = False" if "op \<in> set (pl_ops st)" for op
    using link that by (cases op) (fastforce simp: link_ok_def)+
  then have "cnt (op_connects ?n) (pl_ops st) = 0" by (auto simp: cnt_zero)
  ultimately have "count_ok ?st" using count assms(2) by (auto simp: count_ok_def upd_pool_def nth_append less_Suc_eq)
  moreover have "link_ok ?st" using link by (fastforce simp: link_ok_def upd_pool_def nth_append)
  ultimately show ?thesis using assms(1) by (auto simp: acc_ok_def own_ok_def pin_ok_def upd_pool_def)
qed

lemma foldl_same: "(\<And>c s. f (g c s) = f s) \<Longrightarrow> f (foldl (\<lambda>s c. g c s) st cs) = f st"
  by (induction cs arbitrary: st) simp_all

lemma retire_sel [simp]:
  "pl_ops (retireIfDrainedLocked k i st) = pl_ops st" "pl_closed (retireIfDrainedLocked k i st) = pl_closed st"
  "pl_conns (retireIfDrainedLocked k i st) = pl_conns st" "pl_budgets (retireIfDrainedLocked k i st) = pl_budgets st"
  "length (pl_creds (retireIfDrainedLocked k i st)) = length (pl_creds st)" "idle (retireIfDrainedLocked k i st) q = idle st q"
  "sp_cur (pl_pools (retireIfDrainedLocked k i st) q) = sp_cur (pl_pools st q)"
  "pc_retiring (pl_creds (retireIfDrainedLocked k i st) ! j) = pc_retiring (pl_creds st ! j)"
  "pc_pool (pl_creds (retireIfDrainedLocked k i st) ! j) = pc_pool (pl_creds st ! j)"
  "pc_expires (pl_creds (retireIfDrainedLocked k i st) ! j) = pc_expires (pl_creds st ! j)"
  by (simp_all add: retireIfDrainedLocked_def Let_def upd_pool_def upd_cred_def nth_update)

lemma closeLocked_cred [simp]:
  "pc_retiring (pl_creds (closeLocked c st) ! j) = pc_retiring (pl_creds st ! j)"
  "pc_pool (pl_creds (closeLocked c st) ! j) = pc_pool (pl_creds st ! j)"
  "pc_expires (pl_creds (closeLocked c st) ! j) = pc_expires (pl_creds st ! j)"
  by (simp_all add: closeLocked_core close_core_creds Let_def nth_update)

abbreviation close_all :: "pool_state \<Rightarrow> nat list \<Rightarrow> pool_state" where
  "close_all \<equiv> foldl (\<lambda>s c. closeLocked c s)"

lemma close_all_sel [simp]:
  "pl_ops (close_all st cs) = pl_ops st" "pl_closed (close_all st cs) = pl_closed st"
  "length (pl_creds (close_all st cs)) = length (pl_creds st)" "idle (close_all st cs) q = idle st q"
  "sp_cur (pl_pools (close_all st cs) q) = sp_cur (pl_pools st q)"
  "pc_retiring (pl_creds (close_all st cs) ! j) = pc_retiring (pl_creds st ! j)"
  "pc_pool (pl_creds (close_all st cs) ! j) = pc_pool (pl_creds st ! j)"
  "pc_expires (pl_creds (close_all st cs) ! j) = pc_expires (pl_creds st ! j)"
  by (induction cs arbitrary: st) simp_all

lemma mint_install_inv:
  assumes "pool_inv st"
  shows "pool_inv (mint_install k now expires rotateAt st)"
proof -
  have inv: "acc_ok {} st" "life_ok {} {} st" using assms by (simp_all add: pool_inv_def)
  let ?cred = "\<lparr>pc_expires = expires, pc_rotateAt = rotateAt, pc_margin = min (5 * 1000000000) ((expires - now) div 4),
            pc_conns = 0, pc_retiring = False, pc_revoked = False, pc_pool = k\<rparr>"
  let ?put = "\<lambda>st. upd_pool k (\<lambda>p. p\<lparr>sp_cur := Some (length (pl_creds st)), sp_creds := sp_creds p @ [length (pl_creds st)]\<rparr>)
    (st\<lparr>pl_creds := pl_creds st @ [?cred]\<rparr>)"
  have put: "pool_inv (?put s)" if "acc_ok {} s" "life_ok {} X s" "X \<subseteq> {k}"
      "\<And>i. sp_cur (pl_pools s k) = Some i \<Longrightarrow> pc_retiring (pl_creds s ! i)" for s X
  proof -
    have "pc_retiring (pl_creds s ! i)" if "i < length (pl_creds s)" "pc_pool (pl_creds s ! i) = k" for i
      using cred_okD(1) [OF lifeD(1) [OF \<open>life_ok {} X s\<close> that(1)]] \<open>\<And>i. sp_cur (pl_pools s k) = Some i \<Longrightarrow> _\<close> that by blast
    then show ?thesis using that unfolding pool_inv_def
      by (intro conjI acc_install life_install) simp_all
  qed
  show ?thesis
  proof (cases "sp_cur (pl_pools st k)")
    case None
    with put [OF inv] show ?thesis by (simp add: mint_install_def Let_def)
  next
    case (Some old)
    note i = cur_cred [OF inv(2) Some, simplified]
    let ?s0 = "upd_cred old (\<lambda>c. c\<lparr>pc_retiring := True\<rparr>) st" and ?P = "\<lambda>c. sc_cred (pl_conns st ! c) = old"
    have i0: "inv_with {} {old} {k} ?s0"
      using life_replace [OF inv(2) Some] inv(1) by (simp add: inv_with_def acc_cong [OF same_accounts_cred(1)])
    have ids: "idle ?s0 k = idle st k" by (simp add: upd_cred_def)
    let ?s1 = "close_all (upd_pool k (\<lambda>p. p\<lparr>sp_idle := filter (\<lambda>c. \<not> ?P c) (idle st k)\<rparr>) ?s0) (filter ?P (idle st k))"
    have i1: "inv_with {} {old} {k} ?s1" using inv_close_filter [OF i0, of k ?P] by (simp add: ids)
    let ?s2 = "retireIfDrainedLocked k old ?s1"
    have s1: "old < length (pl_creds ?s1)" "pc_pool (pl_creds ?s1 ! old) = k" "pc_retiring (pl_creds ?s1 ! old)"
        "sp_cur (pl_pools ?s1 k) = Some old"
      using i Some by (simp_all add: upd_pool_def upd_cred_def)
    have "acc_ok {} ?s2" "life_ok {} {k} ?s2"
      using i1 life_retire [of old "{}" "{k}" ?s1 k] s1(1,2) by (simp_all add: inv_with_def)
    from put [OF this] s1 show ?thesis by (simp add: mint_install_def Let_def Some)
  qed
qed

lemma mintLocked_inv: "pool_inv st \<Longrightarrow> mintLocked t now expires rotateAt st = Some st' \<Longrightarrow> pool_inv st'"
  by (auto simp: mintLocked_def mint_install_inv split: option.splits if_splits)

text \<open>A credential stops being current.\<close>

lemma life_uncur:
  assumes "life_ok D {} st" "i < length (pl_creds st)" "i \<notin> D \<Longrightarrow> \<not> pc_revoked (pl_creds st ! i) \<Longrightarrow> pc_conns (pl_creds st ! i) > 0"
    and st': "pl_creds st' = (pl_creds st)[i := (pl_creds st ! i)\<lparr>pc_retiring := True\<rparr>]" "pl_revocations st' = pl_revocations st"
      "\<And>k. sp_creds (pl_pools st' k) = sp_creds (pl_pools st k)"
      "\<And>k. sp_cur (pl_pools st' k) = (if sp_cur (pl_pools st k) = Some i then None else sp_cur (pl_pools st k))"
  shows "life_ok D {} st'"
proof (rule lifeI)
  show "cred_ok D st' j" if "j < length (pl_creds st')" for j
    using cred_okD [OF lifeD(1) [OF assms(1)], of j] that assms(2,3) by (cases "j = i") (auto simp: cred_ok_def Let_def st' nth_update)
  show "cur_ok st' q" for q
    using lifeD(2) [OF assms(1), of q] by (auto simp: cur_ok_def st' nth_update)
qed (use lifeD [OF assms(1)] in \<open>auto simp: st' nth_update\<close>)

lemma retire_inv:
  assumes "pool_inv st" "t < length (pl_ops st)" "retire t st = Some st'"
  shows "pool_inv st'"
proof -
  from assms(3) obtain c where op: "pl_ops st ! t = OpHolding c" by (auto simp: retire_def split: pool_op.splits)
  have inv: "inv_with {} {} {} st" "acc_ok {} st" "life_ok {} {} st" using assms(1) by (simp_all add: pool_inv_def inv_with_def)
  have own: "own_ok {c} (set_op t OpDone st)" using inv_let_go [OF inv(1) assms(2) op] by (simp add: inv_with_def acc_ok_def)
  have c: "c < length (pl_conns st)" "sc_open (pl_conns st ! c)" using own_transit(1,2) [OF own] by simp_all
  let ?i = "sc_cred (pl_conns st ! c)"
  have i: "?i < length (pl_creds st)" using inv(2) c(1) by (auto simp: acc_ok_def link_ok_def)
  have "0 < cnt (\<lambda>cn. sc_open cn \<and> sc_cred cn = ?i) (pl_conns st)" using c by (intro cnt_pos [of "pl_conns st ! c"]) auto
  moreover have "pc_conns (pl_creds st ! ?i) = cnt (\<lambda>cn. sc_open cn \<and> sc_cred cn = ?i) (pl_conns st) + cnt (op_connects ?i) (pl_ops st)"
    using inv(2) i by (simp add: acc_ok_def count_ok_def)
  ultimately have pos: "0 < pc_conns (pl_creds st ! ?i)" using cnt_nonneg [of "op_connects ?i" "pl_ops st"] by linarith
  have "same_accounts st st'" using assms(3) op
    by (auto simp: retire_def Let_def same_accounts_def upd_cred_def nth_update)
  moreover have "life_ok {} {} st'"
    by (rule life_uncur [OF inv(3) i]) (use pos assms(3) op in \<open>auto simp: retire_def Let_def upd_cred_def\<close>)
  ultimately show ?thesis using inv(2) by (simp add: pool_inv_def acc_cong)
qed

section \<open>Maintenance\<close>

lemma trim_idle_inv: "inv_with T D X st \<Longrightarrow> idle st k = rev cs \<Longrightarrow> inv_with T D X (trim_idle k cs st)"
proof (induction cs arbitrary: st)
  case (Cons c cs)
  let ?st = "closeLocked c (upd_pool k (\<lambda>p. p\<lparr>sp_idle := rev cs\<rparr>) st)"
  have "inv_with T D X ?st" "idle ?st k = rev cs"
    using inv_pop_close [OF Cons.prems(1), of k c "rev cs"] Cons.prems(2) by (simp_all add: upd_pool_def)
  with Cons.prems(1) Cons.IH show ?case by (simp add: Let_def)
qed simp

lemma inv_foldl: "(\<And>s k. P s \<Longrightarrow> P (f s k)) \<Longrightarrow> P st \<Longrightarrow> P (foldl f st ks)"
  by (induction ks arbitrary: st) simp_all

lemma inv_limit: "inv_with T D X (upd_budget a (\<lambda>b. b\<lparr>bd_limit := n\<rparr>) st) = inv_with T D X st"
  by (rule inv_cong) (simp_all add: same_accounts_def same_life_def upd_budget_def)

lemma trimLocked_inv: "inv_with T D X st \<Longrightarrow> inv_with T D X (trimLocked replicas addrs ks st)"
  unfolding trimLocked_def
proof (rule inv_foldl)
  fix s addr assume "inv_with T D X s"
  then show "inv_with T D X (trim_addr replicas ks s addr)"
    unfolding trim_addr_def Let_def by (simp add: inv_foldl inv_limit trim_idle_inv)
qed

lemma inv_minting: "inv_with T D X (upd_pool k (\<lambda>p. p\<lparr>sp_minting := b\<rparr>) st) = inv_with T D X st"
  by (rule inv_cong) (simp_all add: same_accounts_def same_life_def upd_pool_def)

lemma maintain_rotate_inv: "inv_with T D X st \<Longrightarrow> inv_with T D X (maintain_rotate now st k)"
proof -
  assume inv: "inv_with T D X st"
  let ?s = "upd_pool k (\<lambda>p. p\<lparr>sp_minting := True\<rparr>) st"
  have "inv_with T D X (add_op (OpRotating k) ?s)"
    by (rule add_op_new [of T D X ?s _ "OpRotating k"]) (use inv in \<open>simp_all add: inv_minting add_op_def op_ok_def\<close>)
  with inv show ?thesis by (simp add: maintain_rotate_def Let_def split: option.split)
qed

lemma maintain_unused_inv: "inv_with {} {} {} st \<Longrightarrow> inv_with {} {} {} (maintain_unused now st k)"
proof -
  assume inv: "inv_with {} {} {} st"
  show ?thesis
  proof (cases "sp_cur (pl_pools st k)")
    case (Some i)
    let ?s = "upd_pool k (\<lambda>p. p\<lparr>sp_cur := None\<rparr>) (upd_cred i (\<lambda>c. c\<lparr>pc_retiring := True\<rparr>) st)"
    have life: "life_ok {i} {} st" using inv by (auto simp: inv_with_def life_ok_def cred_ok_def Let_def)
    note i = cur_cred [OF life Some, simplified]
    have only: "sp_cur (pl_pools st q) \<noteq> Some i" if "q \<noteq> k" for q using cur_cred(2) [OF life, of q i] i(2) that by auto
    have "life_ok {i} {} ?s"
      by (rule life_uncur [OF life i(1)]) (use Some only in \<open>auto simp: upd_pool_def upd_cred_def\<close>)
    then have "life_ok {} {} (retireIfDrainedLocked k i ?s)"
      by (rule life_retire) (use i in \<open>simp_all add: upd_pool_def upd_cred_def\<close>)
    moreover have "same_accounts st ?s" by (simp add: same_accounts_def upd_pool_def upd_cred_def nth_update)
    ultimately show ?thesis using inv Some by (simp add: maintain_unused_def inv_with_def acc_cong)
  qed (simp add: maintain_unused_def inv)
qed

lemma expire_cred_inv:
  assumes "inv_with T D {} st" "i < length (pl_creds st)" "pc_pool (pl_creds st ! i) = k" "\<not> pc_revoked (pl_creds st ! i)"
  shows "inv_with T D {} (expire_cred now k st i)"
proof (cases "now < pc_expires (pl_creds st ! i)")
  case False
  let ?st = "expire_cred now k st i"
  have life: "life_ok D {} st" using assms(1) by (simp add: inv_with_def)
  have creds: "pl_creds ?st = (pl_creds st)[i := (pl_creds st ! i)\<lparr>pc_retiring := True, pc_revoked := True\<rparr>]"
    and rev: "pl_revocations ?st = pl_revocations st @ [i]"
    and cur: "sp_cur (pl_pools ?st q) = (if q = k \<and> sp_cur (pl_pools st q) = Some i then None else sp_cur (pl_pools st q))"
    and list: "sp_creds (pl_pools ?st q) = sp_creds (pl_pools st q)" for q
    using False by (simp_all add: expire_cred_def upd_pool_def upd_cred_def)
  have new: "i \<notin> set (pl_revocations st)" using cred_okD(4) [OF lifeD(1) [OF life assms(2)]] assms(4) by blast
  have "life_ok D {} ?st"
  proof (rule lifeI)
    show "cred_ok D ?st j" if "j < length (pl_creds ?st)" for j
      using cred_okD [OF lifeD(1) [OF life], of j] that assms(2)
      by (cases "j = i") (auto simp: cred_ok_def Let_def creds rev cur list nth_update)
    show "cur_ok ?st q" for q
      using lifeD(2) [OF life, of q] cur_cred(2) [OF life, of q i] assms(3)
      by (auto simp: cur_ok_def creds cur list nth_update)
  qed (use lifeD [OF life] new assms(2) in \<open>auto simp: creds list rev nth_update\<close>)
  moreover have "same_accounts st ?st" using False
    by (simp add: expire_cred_def same_accounts_def upd_pool_def upd_cred_def nth_update)
  ultimately show ?thesis using assms(1) by (simp add: inv_with_def acc_cong)
qed (simp add: expire_cred_def assms(1))

lemma expire_fold_inv:
  "inv_with T D {} st \<Longrightarrow> distinct js \<Longrightarrow> \<forall>i \<in> set js. i < length (pl_creds st) \<and> pc_pool (pl_creds st ! i) = k \<and> \<not> pc_revoked (pl_creds st ! i)
     \<Longrightarrow> inv_with T D {} (foldl (expire_cred now k) st js)"
proof (induction js arbitrary: st)
  case (Cons i js)
  have "inv_with T D {} (expire_cred now k st i)" using Cons.prems by (intro expire_cred_inv) auto
  moreover have "\<forall>j \<in> set js. j < length (pl_creds (expire_cred now k st i)) \<and> pc_pool (pl_creds (expire_cred now k st i) ! j) = k
      \<and> \<not> pc_revoked (pl_creds (expire_cred now k st i) ! j)"
    using Cons.prems by (auto simp: expire_cred_def upd_pool_def upd_cred_def nth_update)
  ultimately show ?case using Cons by simp
qed simp

lemma maintain_expire_inv: "inv_with T D {} st \<Longrightarrow> inv_with T D {} (maintain_expire now st k)"
proof -
  assume inv: "inv_with T D {} st"
  let ?live = "filter (\<lambda>i. \<not> pc_revoked (pl_creds st ! i)) (sp_creds (pl_pools st k))"
  let ?s = "upd_pool k (\<lambda>p. p\<lparr>sp_creds := ?live\<rparr>) st"
  have life: "life_ok D {} st" using inv by (simp add: inv_with_def)
  have "life_ok D {} ?s"
  proof (rule lifeI)
    show "cred_ok D ?s j" if "j < length (pl_creds ?s)" for j
      using cred_okD [OF lifeD(1) [OF life], of j] that by (auto simp: cred_ok_def Let_def upd_pool_def)
    show "cur_ok ?s q" for q
      using lifeD(2) [OF life, of q] last_filter_keep [of "sp_creds (pl_pools st k)" "\<lambda>i. \<not> pc_revoked (pl_creds st ! i)"]
      by (auto simp: cur_ok_def upd_pool_def)
  qed (use lifeD [OF life] in \<open>auto simp: upd_pool_def split: if_splits\<close>)
  moreover have "same_accounts st ?s" by (simp add: same_accounts_def upd_pool_def)
  ultimately have s: "inv_with T D {} ?s" using inv by (simp add: inv_with_def acc_cong)
  show ?thesis unfolding maintain_expire_def Let_def
    by (rule expire_fold_inv [OF s]) (use lifeD(3) [OF life, of _ k] lifeD(4) [OF life, of k] in \<open>auto simp: upd_pool_def\<close>)
qed

lemma maintain_inv: "pool_inv st \<Longrightarrow> pool_inv (maintain opts now replicas addrs ks st)"
  unfolding maintain_def pool_inv_with
proof (rule inv_foldl)
  fix s k assume "inv_with {} {} {} s"
  then show "inv_with {} {} {} (maintain_pool opts now s k)"
    unfolding maintain_pool_def maintain_idle_def Let_def
    by (intro maintain_expire_inv maintain_unused_inv maintain_rotate_inv inv_close_filter)
qed (rule trimLocked_inv)

lemma rotated_key_inv:
  assumes "pool_inv st" "t < length (pl_ops st)" "rotated_key t st = Some st'"
  shows "pool_inv st'"
proof -
  from assms(3) obtain k where op: "pl_ops st ! t = OpRotating k"
      and st': "st' = upd_pool k (\<lambda>p. p\<lparr>sp_minting := False\<rparr>) (set_op t OpDone st)"
    by (auto simp: rotated_key_def set_op_commute split: pool_op.splits)
  have "inv_with {} {} {} (set_op t OpDone st)"
    by (rule inv_op [of "{}" "{}" "{}" st t _ OpDone]) (use assms(1,2) op in \<open>simp_all add: pool_inv_with op_ok_def\<close>)
  then show ?thesis by (simp add: st' pool_inv_with inv_minting)
qed

section \<open>Shutdown\<close>

text \<open>
  Of the credentials of a key only the current one, the last of the list, can be revoked
  by the loop over them, so that the array it ranges over does not change under it.
\<close>

lemma close_creds_skip:
  "sp_creds (pl_pools st k) = arr \<Longrightarrow>
     \<forall>n \<in> set ns. pc_retiring (pl_creds st ! (arr ! n)) \<and> (pc_revoked (pl_creds st ! (arr ! n)) \<or> pc_conns (pl_creds st ! (arr ! n)) > 0)
     \<Longrightarrow> close_creds k arr (ns @ ms) st = close_creds k arr ms st"
proof (induction ns)
  case (Cons n ns)
  let ?i = "arr ! n"
  have "(pl_creds st ! ?i)\<lparr>pc_retiring := True\<rparr> = pl_creds st ! ?i" using Cons.prems(2) by (cases "pl_creds st ! ?i") auto
  then have "upd_cred ?i (\<lambda>c. c\<lparr>pc_retiring := True\<rparr>) st = st" by (simp add: upd_cred_def)
  moreover have "retireIfDrainedLocked k ?i st = st" using Cons.prems(2) by (auto simp: retireIfDrainedLocked_def)
  ultimately show ?case using Cons by (simp add: Let_def)
qed simp

definition key_closed :: "pool_state \<Rightarrow> pool_key \<Rightarrow> bool" where
  "key_closed st k \<longleftrightarrow> idle st k = [] \<and> (\<forall>i < length (pl_creds st). pc_pool (pl_creds st ! i) = k \<longrightarrow> pc_retiring (pl_creds st ! i))"

text \<open>What the loop over the credentials of a key does.\<close>

definition retire_last :: "pool_key \<Rightarrow> pool_state \<Rightarrow> pool_state" where
  "retire_last k st =
     (if sp_creds (pl_pools st k) = [] then st
      else (let i = List.last (sp_creds (pl_pools st k)) in
          retireIfDrainedLocked k i (upd_cred i (\<lambda>c. c\<lparr>pc_retiring := True\<rparr>) st)))"

lemma close_creds_last:
  assumes "life_ok {} {} st"
  shows "close_creds k (sp_creds (pl_pools st k)) [0..<length (sp_creds (pl_pools st k))] st = retire_last k st"
proof (cases "sp_creds (pl_pools st k)" rule: rev_cases)
  case (snoc js i)
  let ?arr = "sp_creds (pl_pools st k)"
  have "pc_retiring (pl_creds st ! (?arr ! n)) \<and> (pc_revoked (pl_creds st ! (?arr ! n)) \<or> pc_conns (pl_creds st ! (?arr ! n)) > 0)"
    if "n < length js" for n
  proof -
    have mem: "?arr ! n \<in> set ?arr" and neq: "?arr ! n \<noteq> i"
      using that lifeD(4) [OF assms, of k] snoc by (auto simp: nth_append)
    note j = lifeD(3) [OF assms mem]
    note c = cred_okD [OF lifeD(1) [OF assms], of "?arr ! n"]
    have "pc_retiring (pl_creds st ! (?arr ! n))"
    proof (rule ccontr)
      assume "\<not> pc_retiring (pl_creds st ! (?arr ! n))"
      then have "sp_cur (pl_pools st k) = Some (?arr ! n)" using c(1) j by auto
      from cur_cred(6) [OF assms this] neq snoc show False by simp
    qed
    with c j show ?thesis by auto
  qed
  then have "close_creds k ?arr ([0..<length js] @ [length js]) st = close_creds k ?arr [length js] st"
    by (intro close_creds_skip) auto
  then show ?thesis using snoc by (simp add: retire_last_def Let_def)
qed (simp add: retire_last_def)

lemma life_retire_last:
  assumes "life_ok {} {} st"
  shows "life_ok {} {} (upd_pool k (\<lambda>p. p\<lparr>sp_cur := None\<rparr>) (retire_last k st))" (is "life_ok _ _ ?st")
proof (cases "sp_creds (pl_pools st k) = []")
  case True
  then have "same_life st ?st" using lifeD(2) [OF assms, of k]
    by (cases "sp_cur (pl_pools st k)") (auto simp: same_life_def upd_pool_def retire_last_def cur_ok_def)
  with assms show ?thesis by (simp add: life_cong)
next
  case False
  let ?i = "List.last (sp_creds (pl_pools st k))"
  let ?s = "upd_pool k (\<lambda>p. p\<lparr>sp_cur := None\<rparr>) (upd_cred ?i (\<lambda>c. c\<lparr>pc_retiring := True\<rparr>) st)"
  have "?i \<in> set (sp_creds (pl_pools st k))" using False by simp
  note i = lifeD(3) [OF assms this]
  have only: "sp_cur (pl_pools st q) \<noteq> Some ?i" if "q \<noteq> k" for q using cur_cred(2) [OF assms, of q ?i] i that by auto
  have this_cur: "j = ?i" if "sp_cur (pl_pools st k) = Some j" for j using cur_cred(6) [OF assms that] by simp
  have life: "life_ok {?i} {} st" using assms by (auto simp: life_ok_def cred_ok_def Let_def)
  have cur: "sp_cur (pl_pools ?s q) = (if sp_cur (pl_pools st q) = Some ?i then None else sp_cur (pl_pools st q))" for q
    using only [of q] this_cur by (cases "q = k"; cases "sp_cur (pl_pools st k)") (auto simp: upd_pool_def upd_cred_def)
  have "life_ok {?i} {} ?s"
    by (rule life_uncur [OF life, of ?i]) (use i cur in \<open>simp_all add: upd_pool_def upd_cred_def\<close>)
  then have "life_ok {} {} (retireIfDrainedLocked k ?i ?s)"
    by (rule life_retire) (use i in \<open>simp_all add: upd_pool_def upd_cred_def nth_update\<close>)
  moreover have "same_life (retireIfDrainedLocked k ?i ?s) ?st"
    using False by (auto simp: retire_last_def Let_def same_life_def retireIfDrainedLocked_def upd_pool_def upd_cred_def)
  ultimately show ?thesis by (simp add: life_cong)
qed

lemma close_pool_inv:
  assumes "pool_inv st"
  shows "pool_inv (close_pool st k)" "key_closed (close_pool st k) k"
proof -
  let ?s1 = "close_all (upd_pool k (\<lambda>p. p\<lparr>sp_idle := []\<rparr>) st) (idle st k)"
  let ?s2 = "upd_pool k (\<lambda>p. p\<lparr>sp_cur := None\<rparr>) (retire_last k ?s1)"
  have i1: "inv_with {} {} {} ?s1"
    using assms inv_close_idle [of "{}" "{}" "{}" st k "idle st k" "[]"] by (simp add: pool_inv_with)
  then have life1: "life_ok {} {} ?s1" by (simp add: inv_with_def)
  have eq: "close_pool st k = ?s2" by (simp add: close_pool_def Let_def close_creds_last [OF life1])
  have "same_accounts (retire_last k ?s1) ?s2" by (simp add: same_accounts_def upd_pool_def)
  moreover have "acc_ok {} (retire_last k ?s1)"
    using i1 by (simp add: retire_last_def inv_with_def Let_def acc_cong [OF same_accounts_cred(1)])
  ultimately have acc: "acc_ok {} ?s2" by (simp add: acc_cong)
  have life2: "life_ok {} {} ?s2" by (rule life_retire_last [OF life1])
  show "pool_inv (close_pool st k)" unfolding eq pool_inv_def using acc life2 ..
  have "pc_retiring (pl_creds ?s2 ! i)" if "i < length (pl_creds ?s2)" "pc_pool (pl_creds ?s2 ! i) = k" for i
    using cred_okD(1) [OF lifeD(1) [OF life2 that(1)]] that(2) by (fastforce simp: upd_pool_def)
  moreover have "idle ?s2 k = []" by (simp add: upd_pool_def retire_last_def Let_def upd_cred_def)
  ultimately show "key_closed (close_pool st k) k" unfolding eq key_closed_def by blast
qed

lemma pools_close_inv: "pool_inv st \<Longrightarrow> pool_inv (pools_close ks st)"
proof -
  assume "pool_inv st"
  then have "inv_with {} {} {} (st\<lparr>pl_closed := True\<rparr>)"
    unfolding pool_inv_with by (subst inv_cong [of st]) (simp_all add: same_accounts_def same_life_def)
  then have "pool_inv (foldl close_pool (st\<lparr>pl_closed := True\<rparr>) ks)"
    unfolding pool_inv_with [symmetric] using inv_foldl [of pool_inv close_pool, OF close_pool_inv(1)] by blast
  with \<open>pool_inv st\<close> show ?thesis by (simp add: pools_close_def)
qed

lemma op_index_Some: "op_index t st r = Some st' \<longleftrightarrow> t < length (pl_ops st) \<and> r = Some st'"
  by (simp add: op_index_def)

lemmas op_inv = acquire_inv acquire_again_inv reserve_inv mintLocked_inv open_refused_inv open_done_inv acquire_return_inv
  pin_inv release_inv retire_inv rotated_key_inv

lemma pool_exec_inv: "pool_inv st \<Longrightarrow> pool_exec opts l st = Some st' \<Longrightarrow> pool_inv st'"
  by (cases l) (auto simp: op_index_Some maintain_inv pools_close_inv split: if_splits intro: op_inv)

interpretation runs: guarded_runs "pool_exec opts" "pool_run opts" for opts
  by unfold_locales simp_all

lemma pool_run_inv: "pool_inv st \<Longrightarrow> pool_run opts ls st = Some st' \<Longrightarrow> pool_inv st'"
  by (rule runs.run_keeps [of ls pool_inv opts]) (rule pool_exec_inv)

lemma reachable_inv: "pool_run opts ls newServerPools = Some st \<Longrightarrow> pool_inv st"
  using pool_inv_new by (rule pool_run_inv)

section \<open>After shutdown\<close>

definition shut_ok :: "pool_state \<Rightarrow> bool" where
  "shut_ok st \<longleftrightarrow> pl_closed st \<and> (\<forall>k. idle st k = []) \<and> (\<forall>i < length (pl_creds st). pc_retiring (pl_creds st ! i))"

text \<open>What an operation that issues no credential leaves of a shut pool.\<close>

definition keeps_shut :: "pool_state \<Rightarrow> pool_state \<Rightarrow> bool" where
  "keeps_shut st st' \<longleftrightarrow> pl_closed st' = pl_closed st \<and> (\<forall>k. idle st k = [] \<longrightarrow> idle st' k = [])
     \<and> length (pl_creds st') = length (pl_creds st) \<and> (\<forall>i. pc_pool (pl_creds st' ! i) = pc_pool (pl_creds st ! i))
     \<and> (\<forall>i. pc_retiring (pl_creds st ! i) \<longrightarrow> pc_retiring (pl_creds st' ! i))"

lemma keeps_shut_trans [trans]: "keeps_shut a b \<Longrightarrow> keeps_shut b c \<Longrightarrow> keeps_shut a c"
  unfolding keeps_shut_def by simp

lemma keeps_shut_refl [simp]: "keeps_shut a a"
  by (simp add: keeps_shut_def)

lemma shut_keeps: "shut_ok st \<Longrightarrow> keeps_shut st st' \<Longrightarrow> shut_ok st'"
  by (simp add: shut_ok_def keeps_shut_def)

lemma key_closed_keeps: "key_closed st k \<Longrightarrow> keeps_shut st st' \<Longrightarrow> key_closed st' k"
  by (simp add: key_closed_def keeps_shut_def)

lemma keeps_foldl: "(\<And>s k. keeps_shut s (f s k)) \<Longrightarrow> keeps_shut st (foldl f st ks)"
  by (induction ks arbitrary: st) (auto intro: keeps_shut_trans)

lemma close_keeps: "keeps_shut st (closeLocked c st)"
  by (simp add: keeps_shut_def)

lemma close_all_keeps: "keeps_shut st (close_all st cs)"
  by (rule keeps_foldl [OF close_keeps])

lemma upd_pool_keeps: "(idle st k = [] \<Longrightarrow> sp_idle (f (pl_pools st k)) = []) \<Longrightarrow> keeps_shut st (upd_pool k f st)"
  by (simp add: keeps_shut_def upd_pool_def)

lemma upd_cred_keeps:
  "pc_pool (f (pl_creds st ! i)) = pc_pool (pl_creds st ! i) \<Longrightarrow> (pc_retiring (pl_creds st ! i) \<Longrightarrow> pc_retiring (f (pl_creds st ! i)))
     \<Longrightarrow> keeps_shut st (upd_cred i f st)"
  by (simp add: keeps_shut_def upd_cred_def nth_update)

lemma other_keeps:
  "keeps_shut st (retireIfDrainedLocked k i st)" "keeps_shut st (set_op t op st)" "keeps_shut st (add_op op st)"
  "keeps_shut st (upd_budget a g st)" "keeps_shut st (upd_conn c h st)" "keeps_shut st (pin_conn b c st)" "keeps_shut st (end_wait w k st)"
  by (simp_all add: keeps_shut_def add_op_def upd_budget_def upd_conn_def pin_conn_def Let_def upd_pool_def end_wait_def)

lemma retire_last_keeps: "keeps_shut st (retire_last k st)"
  unfolding retire_last_def Let_def by (auto intro!: keeps_shut_trans [OF upd_cred_keeps other_keeps(1)])

lemma close_pool_keeps:
  assumes "pool_inv st"
  shows "keeps_shut st (close_pool st k)"
proof -
  let ?s0 = "upd_pool k (\<lambda>p. p\<lparr>sp_idle := []\<rparr>) st"
  let ?s1 = "close_all ?s0 (idle st k)"
  have "inv_with {} {} {} ?s1"
    using assms inv_close_idle [of "{}" "{}" "{}" st k "idle st k" "[]"] by (simp add: pool_inv_with)
  then have eq: "close_pool st k = upd_pool k (\<lambda>p. p\<lparr>sp_cur := None\<rparr>) (retire_last k ?s1)"
    by (simp add: close_pool_def Let_def close_creds_last inv_with_def)
  have "keeps_shut st ?s0" by (simp add: upd_pool_keeps)
  also have "keeps_shut ?s0 ?s1" by (rule close_all_keeps)
  also have "keeps_shut ?s1 (retire_last k ?s1)" by (rule retire_last_keeps)
  also have "keeps_shut (retire_last k ?s1) (close_pool st k)" unfolding eq by (rule upd_pool_keeps) simp
  finally show ?thesis .
qed

lemma close_pools_shut:
  "pool_inv st \<Longrightarrow> pool_inv (foldl close_pool st ks) \<and> keeps_shut st (foldl close_pool st ks)
     \<and> (\<forall>k \<in> set ks. key_closed (foldl close_pool st ks) k)"
proof (induction ks arbitrary: st)
  case (Cons k ks)
  note c = close_pool_inv [OF Cons.prems, of k]
  from Cons.IH [OF c(1)] close_pool_keeps [OF Cons.prems, of k] c(2) show ?case
    by (auto intro: keeps_shut_trans key_closed_keeps)
qed simp

lemma close_shut:
  assumes "pool_inv st" "\<not> pl_closed st" "all_keys st ks"
  shows "shut_ok (pools_close ks st)"
proof -
  let ?s = "st\<lparr>pl_closed := True\<rparr>" and ?c = "foldl close_pool (st\<lparr>pl_closed := True\<rparr>) ks"
  have "pool_inv ?s" using assms(1) unfolding pool_inv_with by (subst inv_cong [of st]) (simp_all add: same_accounts_def same_life_def)
  note c = close_pools_shut [OF this, of ks]
  have keys: "pc_pool (pl_creds ?c ! i) \<in> set ks" if "i < length (pl_creds ?c)" for i
    using c assms(3) that by (auto simp: keeps_shut_def all_keys_def list_all_iff)
  have "idle ?c k = []" for k
  proof (cases "k \<in> set ks")
    case False
    have "d < length (pl_conns ?c)" "sc_pool (pl_conns ?c ! d) = k" if "d \<in> set (idle ?c k)" for d
      using c own_idle [of "{}" ?c d k] that by (auto simp: pool_inv_def acc_ok_def)
    then have "\<exists>cn \<in> set (pl_conns ?c). sc_pool cn = k" if "d \<in> set (idle ?c k)" for d using that by force
    moreover have "sc_pool cn \<in> set ks" if "cn \<in> set (pl_conns ?c)" for cn
      using c keys that unfolding pool_inv_def acc_ok_def link_ok_def by metis
    ultimately show ?thesis using False by (metis list.set_intros(1) neq_Nil_conv)
  qed (use c in \<open>simp add: key_closed_def\<close>)
  moreover have "pc_retiring (pl_creds ?c ! i)" if "i < length (pl_creds ?c)" for i
    using c keys [OF that] that by (auto simp: key_closed_def)
  moreover have "pl_closed ?c" using c by (simp add: keeps_shut_def)
  ultimately show ?thesis using assms(2) by (simp add: pools_close_def shut_ok_def)
qed

lemma trim_idle_keeps: "idle s k = rev cs \<Longrightarrow> keeps_shut s (trim_idle k cs s)"
proof (induction cs arbitrary: s)
  case (Cons c cs)
  let ?s = "closeLocked c (upd_pool k (\<lambda>p. p\<lparr>sp_idle := rev cs\<rparr>) s)"
  have "keeps_shut s ?s" by (rule keeps_shut_trans [OF upd_pool_keeps close_keeps]) (use Cons.prems in simp)
  moreover have "idle ?s k = rev cs" by (simp add: upd_pool_def)
  ultimately show ?case using Cons.IH [of ?s] by (auto simp: Let_def intro: keeps_shut_trans)
qed simp

lemma trimLocked_keeps: "keeps_shut st (trimLocked replicas addrs ks st)"
  unfolding trimLocked_def
proof (rule keeps_foldl)
  fix s addr
  let ?s = "\<lambda>n. upd_budget addr (\<lambda>b. b\<lparr>bd_limit := n\<rparr>) s"
  have "keeps_shut (?s n) (foldl (\<lambda>s k. if pk_addr k = addr then trim_idle k (rev (idle s k)) s else s) (?s n) ks)" for n
    by (rule keeps_foldl) (simp add: trim_idle_keeps)
  then show "keeps_shut s (trim_addr replicas ks s addr)"
    unfolding trim_addr_def Let_def by (auto intro: keeps_shut_trans [OF other_keeps(4)])
qed

lemma expire_cred_keeps: "keeps_shut s (expire_cred now k s i)"
  by (simp add: keeps_shut_def expire_cred_def upd_pool_def upd_cred_def nth_update)

lemma maintain_pool_keeps: "keeps_shut s (maintain_pool opts now s k)"
proof -
  have "keeps_shut s (maintain_idle opts now s k)" for s
    unfolding maintain_idle_def Let_def by (rule keeps_shut_trans [OF upd_pool_keeps close_all_keeps]) simp
  moreover have "keeps_shut s (maintain_rotate now s k)" for s
    unfolding maintain_rotate_def Let_def
    by (auto split: option.split intro!: keeps_shut_trans [OF upd_pool_keeps other_keeps(3)])
  moreover have "keeps_shut s (maintain_unused now s k)" for s
    unfolding maintain_unused_def
    by (auto simp: keeps_shut_def upd_pool_def upd_cred_def nth_update split: option.split)
  moreover have "keeps_shut s (maintain_expire now s k)" for s
    unfolding maintain_expire_def Let_def
    by (rule keeps_shut_trans [OF upd_pool_keeps keeps_foldl]) (simp_all add: expire_cred_keeps)
  ultimately show ?thesis unfolding maintain_pool_def by (metis keeps_shut_trans)
qed

lemma maintain_keeps: "keeps_shut st (maintain opts now replicas addrs ks st)"
  unfolding maintain_def using trimLocked_keeps keeps_foldl [OF maintain_pool_keeps] by (rule keeps_shut_trans)

definition mints :: "pool_label \<Rightarrow> bool" where
  "mints l = (case l of LMint _ _ _ _ \<Rightarrow> True | _ \<Rightarrow> False)"

lemma exec_shut:
  assumes "pool_inv st" "shut_ok st" "\<not> mints l" "pool_exec opts l st = Some st'"
  shows "shut_ok st'"
proof -
  have cl: "pl_closed st" and ret: "\<And>i. i < length (pl_creds st) \<Longrightarrow> pc_retiring (pl_creds st ! i)" using assms(2) by (auto simp: shut_ok_def)
  have "keeps_shut st st'"
  proof (cases l)
    case (LAcquire k m pinned r v)
    with assms(4) cl show ?thesis by (auto simp: acquire_def acquire_pass_def intro!: other_keeps split: if_splits)
  next
    case (LAgain t r v)
    with assms(4) cl show ?thesis
      by (auto simp: op_index_Some acquire_again_def acquire_pass_def split: if_splits pool_op.splits
          intro!: keeps_shut_trans [OF other_keeps(7) other_keeps(2)])
  next
    case (LReserve t now)
    with assms(1,4) show ?thesis
      by (auto simp: op_index_Some reserve_def Let_def pool_inv_def split: if_splits pool_op.splits option.splits dest!: cur_cred(1) ret)
  next
    case (LOpened t ok)
    with assms(4) show ?thesis
      by (auto simp: op_index_Some open_done_def split: if_splits pool_op.splits)
        (auto simp: keeps_shut_def retireIfDrainedLocked_def Let_def upd_defs nth_update)
  next
    case (LRefused t)
    with assms(4) show ?thesis by (auto simp: op_index_Some open_refused_def other_keeps split: pool_op.splits)
  next
    case (LReturn t)
    with assms(4) show ?thesis
      by (auto simp: op_index_Some acquire_return_def split: pool_op.splits
          intro!: keeps_shut_trans [OF _ other_keeps(2)] keeps_shut_trans [OF _ other_keeps(7)] other_keeps)
  next
    case (LPin t)
    with assms(4) show ?thesis by (auto simp: op_index_Some pin_def Let_def other_keeps split: pool_op.splits if_splits)
  next
    case (LRelease t re now)
    with assms(4) cl show ?thesis
      by (auto simp: op_index_Some release_conn_def Let_def split: pool_op.splits
          intro!: keeps_shut_trans [OF _ other_keeps(2)] keeps_shut_trans [OF _ close_keeps] keeps_shut_trans [OF other_keeps(5) upd_pool_keeps])
  next
    case (LRetire t)
    with assms(4) show ?thesis
      by (auto simp: op_index_Some retire_def Let_def keeps_shut_def upd_cred_def nth_update split: pool_op.splits)
  next
    case (LMaintain now r as ks)
    with assms(4) show ?thesis by (auto simp: maintain_keeps split: if_splits)
  next
    case (LRotated t)
    with assms(4) show ?thesis
      by (auto simp: op_index_Some rotated_key_def split: pool_op.splits intro!: keeps_shut_trans [OF upd_pool_keeps other_keeps(2)])
  next
    case (LClose ks)
    with assms(4) cl show ?thesis by (auto simp: pools_close_def split: if_splits)
  qed (use assms(3) in \<open>simp add: mints_def\<close>)
  with assms(2) show ?thesis by (rule shut_keeps)
qed

lemma run_shut:
  assumes "pool_inv st" "shut_ok st" "\<forall>l \<in> set ls. \<not> mints l" "pool_run opts ls st = Some st'"
  shows "pool_inv st' \<and> shut_ok st'"
  by (rule runs.run_keeps [of ls "\<lambda>s. pool_inv s \<and> shut_ok s" opts]) (use assms pool_exec_inv exec_shut in blast)+

end
