(* ===== verification/PgPoolProps.thy ===== *)
theory PgPoolProps
  imports PgPoolOps
begin

text \<open>
  What the connection pool guarantees in every state it can reach: isolation of keys, exact accounts, the
  bound on the connections to a database, revocation of credentials, and shutdown.
\<close>

section \<open>Revocation waits for the last connection\<close>

definition expired_ok :: "int set \<Rightarrow> pool_state \<Rightarrow> bool" where
  "expired_ok N st \<longleftrightarrow> (\<forall>c \<in> set (pl_creds st). pc_revoked c \<and> pc_conns c > 0 \<longrightarrow> (\<exists>now \<in> N. pc_expires c \<le> now))"

lemma expired_creds: "pl_creds st' = pl_creds st \<Longrightarrow> expired_ok N st' = expired_ok N st"
  by (simp add: expired_ok_def)

lemma expired_upd_cred:
  assumes "expired_ok N st" "pc_revoked (f (pl_creds st ! i)) \<and> pc_conns (f (pl_creds st ! i)) > 0 \<Longrightarrow>
      pc_revoked (pl_creds st ! i) \<and> pc_conns (pl_creds st ! i) > 0 \<and> pc_expires (f (pl_creds st ! i)) = pc_expires (pl_creds st ! i)
      \<or> (\<exists>now \<in> N. pc_expires (f (pl_creds st ! i)) \<le> now)"
  shows "expired_ok N (upd_cred i f st)"
proof (cases "i < length (pl_creds st)")
  case True
  then have i: "pl_creds st ! i \<in> set (pl_creds st)" by simp
  show ?thesis using assms i unfolding expired_ok_def upd_cred_def
    by (auto dest!: set_update_subset_insert [THEN subsetD])
qed (use assms in \<open>simp add: expired_ok_def upd_cred_def list_update_beyond\<close>)

lemma expired_same [simp]:
  "expired_ok N (upd_pool k f st) = expired_ok N st" "expired_ok N (upd_budget a g st) = expired_ok N st"
  "expired_ok N (upd_conn c h st) = expired_ok N st" "expired_ok N (set_op t op st) = expired_ok N st"
  "expired_ok N (add_op op st) = expired_ok N st" "expired_ok N (pin_conn b c st) = expired_ok N st"
  "expired_ok N (end_wait w k st) = expired_ok N st" "expired_ok N (budgetFor opts addr m r st) = expired_ok N st"
  by (simp_all add: expired_ok_def upd_defs pin_conn_def Let_def budgetFor_def)

lemma expired_retire: "expired_ok N st \<Longrightarrow> expired_ok N (retireIfDrainedLocked k i st)"
  unfolding retireIfDrainedLocked_def Let_def
  by (subst expired_creds [of _ "if \<not> pc_retiring (pl_creds st ! i) \<or> pc_revoked (pl_creds st ! i) \<or> pc_conns (pl_creds st ! i) > 0 then st
      else upd_cred i (\<lambda>c. c\<lparr>pc_revoked := True\<rparr>) st"]) (auto simp: upd_pool_def intro!: expired_upd_cred)

lemma expired_close: "expired_ok N st \<Longrightarrow> expired_ok N (closeLocked c st)"
  unfolding closeLocked_def Let_def by (auto intro!: expired_retire expired_upd_cred)

lemma expired_close_all: "expired_ok N st \<Longrightarrow> expired_ok N (close_all st cs)"
  by (rule inv_foldl [of "expired_ok N"]) (rule expired_close)

lemma expired_reuse: "expired_ok N st \<Longrightarrow> reuse_idle k cs st = (r, st') \<Longrightarrow> expired_ok N st'"
proof (induction cs arbitrary: st)
  case (Cons c cs)
  have "expired_ok N (closeLocked c (upd_pool k (\<lambda>p. p\<lparr>sp_idle := rev cs\<rparr>) st))"
    using Cons.prems(1) by (intro expired_close) simp
  with Cons show ?case by (auto simp: Let_def split: if_splits)
qed simp

lemma expired_evict: "expired_ok N st \<Longrightarrow> expired_ok N (evictIdleLocked v st)"
  by (auto simp: evictIdleLocked_def expired_close split: option.splits list.splits)

lemma expired_pass: "expired_ok N st \<Longrightarrow> acquire_pass opts k m pinned r v st = Some (res, st') \<Longrightarrow> expired_ok N st'"
  by (auto simp: acquire_pass_def Let_def expired_evict split: if_splits prod.splits option.splits dest: expired_reuse [rotated])

lemma expired_append [simp]:
  "expired_ok N (s\<lparr>pl_creds := pl_creds s @ [c]\<rparr>) \<longleftrightarrow>
     expired_ok N s \<and> (pc_revoked c \<and> pc_conns c > 0 \<longrightarrow> (\<exists>now \<in> N. pc_expires c \<le> now))"
  by (auto simp: expired_ok_def)

lemma expired_mint: "expired_ok N st \<Longrightarrow> expired_ok N (mint_install k now expires rotateAt st)"
  unfolding mint_install_def Let_def
  by (auto split: option.split intro!: expired_retire expired_close_all expired_upd_cred)

lemma expired_trim: "expired_ok N st \<Longrightarrow> expired_ok N (trimLocked r as ks st)"
proof -
  have one: "expired_ok N s \<Longrightarrow> expired_ok N (trim_idle k cs s)" for k cs s
    by (induction cs arbitrary: s) (simp_all add: Let_def expired_close)
  have "expired_ok N s \<Longrightarrow> expired_ok N (trim_addr r ks s a)" for s a
    unfolding trim_addr_def Let_def by (auto intro!: inv_foldl [of "expired_ok N"] one)
  then show "expired_ok N st \<Longrightarrow> ?thesis" unfolding trimLocked_def by (intro inv_foldl [of "expired_ok N"])
qed

lemma expired_fields [simp]:
  "expired_ok N (s\<lparr>pl_revocations := x\<rparr>) = expired_ok N s" "expired_ok N (s\<lparr>pl_pools := p\<rparr>) = expired_ok N s"
  "expired_ok N (s\<lparr>pl_conns := y\<rparr>) = expired_ok N s" "expired_ok N (s\<lparr>pl_closed := z\<rparr>) = expired_ok N s"
  by (simp_all add: expired_ok_def)

lemma expired_expire: "now \<in> N \<Longrightarrow> expired_ok N st \<Longrightarrow> expired_ok N (expire_cred now k st i)"
  by (auto simp: expire_cred_def not_less intro!: expired_upd_cred)

lemma expired_maintain: "now \<in> N \<Longrightarrow> expired_ok N st \<Longrightarrow> expired_ok N (maintain opts now r as ks st)"
  unfolding maintain_def
proof (rule inv_foldl [of "expired_ok N"])
  fix s k assume now: "now \<in> N" and s: "expired_ok N s"
  have "expired_ok N (maintain_idle opts now s k)" unfolding maintain_idle_def Let_def using s by (intro expired_close_all) simp
  moreover have "expired_ok N (maintain_rotate now u k) = expired_ok N u" for u by (simp add: maintain_rotate_def Let_def split: option.split)
  moreover have "expired_ok N u \<Longrightarrow> expired_ok N (maintain_unused now u k)" for u
    by (auto simp: maintain_unused_def split: option.split intro!: expired_retire expired_upd_cred)
  moreover have "expired_ok N u \<Longrightarrow> expired_ok N (maintain_expire now u k)" for u
    unfolding maintain_expire_def Let_def by (rule inv_foldl [of "expired_ok N"]) (simp_all add: expired_expire [OF now])
  ultimately show "expired_ok N (maintain_pool opts now s k)" by (simp add: maintain_pool_def)
qed (rule expired_trim)

lemma expired_pools_close: "expired_ok N st \<Longrightarrow> expired_ok N (pools_close ks st)"
proof -
  have creds: "expired_ok N s \<Longrightarrow> expired_ok N (close_creds k arr ns s)" for k arr ns s
  proof (induction ns arbitrary: arr s)
    case (Cons n ns)
    have "expired_ok N (retireIfDrainedLocked k (arr ! n) (upd_cred (arr ! n) (\<lambda>c. c\<lparr>pc_retiring := True\<rparr>) s))"
      using Cons.prems by (auto intro!: expired_retire expired_upd_cred)
    with Cons.IH show ?case by (simp add: Let_def)
  qed simp
  have "expired_ok N s \<Longrightarrow> expired_ok N (close_pool s k)" for s k
    unfolding close_pool_def Let_def by (auto intro!: creds expired_close_all)
  then show "expired_ok N st \<Longrightarrow> ?thesis" unfolding pools_close_def by (auto intro!: inv_foldl [of "expired_ok N"])
qed

definition maintained_at :: "pool_label \<Rightarrow> int option" where
  "maintained_at l = (case l of LMaintain now _ _ _ \<Rightarrow> Some now | _ \<Rightarrow> None)"

lemma expired_exec:
  assumes "expired_ok N st" "pool_exec opts l st = Some st'" "\<And>now. maintained_at l = Some now \<Longrightarrow> now \<in> N"
  shows "expired_ok N st'"
proof (cases l)
  case (LAcquire k m pinned r v)
  with assms(1,2) show ?thesis
    by (auto simp: acquire_def Let_def split: if_splits option.splits prod.splits pass_result.splits dest: expired_pass)
next
  case (LAgain t r v)
  with assms(1,2) show ?thesis
    by (auto simp: op_index_Some acquire_again_def split: if_splits option.splits prod.splits pass_result.splits pool_op.splits dest: expired_pass)
next
  case (LReserve t now)
  with assms(1,2) show ?thesis
    by (auto simp: op_index_Some reserve_def Let_def split: if_splits pool_op.splits option.splits intro!: expired_upd_cred)
next
  case (LMint t now e r)
  with assms(1,2) show ?thesis by (auto simp: op_index_Some mintLocked_def expired_mint split: if_splits option.splits)
next
  case (LOpened t ok)
  with assms(1,2) show ?thesis
    by (auto simp: op_index_Some open_done_def split: if_splits pool_op.splits intro!: expired_retire expired_upd_cred)
next
  case (LRefused t)
  with assms(1,2) show ?thesis by (auto simp: op_index_Some open_refused_def split: pool_op.splits)
next
  case (LReturn t)
  with assms(1,2) show ?thesis by (auto simp: op_index_Some acquire_return_def split: pool_op.splits)
next
  case (LPin t)
  with assms(1,2) show ?thesis by (auto simp: op_index_Some pin_def Let_def split: pool_op.splits if_splits)
next
  case (LRelease t re now)
  with assms(1,2) show ?thesis by (auto simp: op_index_Some release_conn_def Let_def split: pool_op.splits intro!: expired_close)
next
  case (LRetire t)
  with assms(1,2) show ?thesis
    by (auto simp: op_index_Some retire_def Let_def split: pool_op.splits intro!: expired_upd_cred)
next
  case (LMaintain now r as ks)
  with assms show ?thesis by (auto simp: maintained_at_def expired_maintain split: if_splits)
next
  case (LRotated t)
  with assms(1,2) show ?thesis by (auto simp: op_index_Some rotated_key_def split: pool_op.splits)
next
  case (LClose ks)
  with assms(1,2) show ?thesis by (auto simp: expired_pools_close split: if_splits)
qed

lemma reachable_expired:
  assumes "pool_run opts ls newServerPools = Some st"
  shows "expired_ok {now. \<exists>l \<in> set ls. maintained_at l = Some now} st" (is "expired_ok ?N st")
proof -
  have "expired_ok ?N s'" if "l \<in> set ls" "expired_ok ?N s" "pool_exec opts l s = Some s'" for l s s'
    using that by (intro expired_exec [OF that(2,3)]) blast
  moreover have "expired_ok ?N newServerPools" by (simp add: expired_ok_def newServerPools_def)
  ultimately show ?thesis by (rule runs.run_keeps [of ls "expired_ok ?N" opts newServerPools st, OF _ _ assms])
qed

section \<open>Concrete runs\<close>

definition sample_key :: pool_key where
  "sample_key = \<lparr>pk_pool = ''p'', pk_binding = ''v/db'', pk_mount = ''m'', pk_role = ''r'', pk_addr = ''a:1'', pk_database = ''d'', pk_trust = []\<rparr>"

definition sample_opts :: pool_opts where
  "sample_opts = withDefaults \<lparr>po_Replicas = 1, po_SessionShare = 0, po_QueueFactor = 0, po_QueueWait = 0, po_RotateFraction = 0,
     po_IdleTimeout = 0, po_IdleInTransaction = 0, po_DefaultBudget = 0\<rparr>"

text \<open>A connection is opened on a new credential, used and given back, and the credential is due for rotation.\<close>

definition sample_opened :: "pool_label list" where
  "sample_opened = [LAcquire sample_key 5 False 1 None, LMint 0 0 (10 ^ 12) (5 * 10 ^ 11), LReserve 0 1, LOpened 0 True, LReturn 0]"

section \<open>What the invariants give\<close>

lemma reuse_idle_key:
  "reuse_idle k cs st = (Some c, st') \<Longrightarrow>
     c \<in> set cs \<and> sc_pool (pl_conns st' ! c) = sc_pool (pl_conns st ! c) \<and> sc_cred (pl_conns st' ! c) = sc_cred (pl_conns st ! c)
     \<and> \<not> pc_retiring (pl_creds st' ! sc_cred (pl_conns st' ! c))"
proof (induction cs arbitrary: st)
  case (Cons d cs)
  let ?st = "upd_pool k (\<lambda>p. p\<lparr>sp_idle := rev cs\<rparr>) st"
  show ?case
  proof (cases "pc_retiring (pl_creds ?st ! sc_cred (pl_conns ?st ! d))")
    case True
    with Cons.prems have "reuse_idle k cs (closeLocked d ?st) = (Some c, st')" by (simp add: Let_def)
    from Cons.IH [OF this] show ?thesis by (auto simp: upd_pool_def)
  next
    case False
    with Cons.prems show ?thesis by (auto simp: Let_def upd_pool_def)
  qed
qed simp

lemma pin_conn_conn [simp]:
  "sc_pool (pl_conns (pin_conn b c st) ! d) = sc_pool (pl_conns st ! d)" "sc_cred (pl_conns (pin_conn b c st) ! d) = sc_cred (pl_conns st ! d)"
  "pl_creds (pin_conn b c st) = pl_creds st"
  by (simp_all add: pin_conn_def Let_def upd_conn_def upd_pool_def nth_update)

lemma pass_got:
  assumes "pool_inv st" "acquire_pass opts k m pinned r v st = Some (PassGot c, st')"
  shows "sc_pool (pl_conns st' ! c) = k" "\<not> pc_retiring (pl_creds st' ! sc_cred (pl_conns st' ! c))"
proof -
  let ?st = "budgetFor opts (pk_addr k) m r st"
  have sel: "pl_conns ?st = pl_conns st" "pl_pools ?st = pl_pools st" by (simp_all add: budgetFor_def Let_def upd_budget_def)
  from assms(2) obtain st2 where st2: "reuse_idle k (rev (idle ?st k)) ?st = (Some c, st2)" "st' = pin_conn pinned c st2"
    by (auto simp: acquire_pass_def Let_def split: if_splits prod.splits option.splits)
  note r = reuse_idle_key [OF st2(1)]
  have "sc_pool (pl_conns st ! c) = k"
    using r own_idle(2) [of "{}" st c k] assms(1) sel by (auto simp: pool_inv_def acc_ok_def)
  with r show "sc_pool (pl_conns st' ! c) = k" "\<not> pc_retiring (pl_creds st' ! sc_cred (pl_conns st' ! c))"
    unfolding st2(2) by (auto simp: sel)
qed

lemma unique_owner:
  assumes "pool_inv st" "t < length (pl_ops st)" "pl_ops st ! t = OpHolding c"
  shows "c < length (pl_conns st)" "sc_open (pl_conns st ! c)" "c \<notin> set (idle st k)"
    "u < length (pl_ops st) \<Longrightarrow> op_conn (pl_ops st ! u) = Some c \<Longrightarrow> u = t"
proof -
  have own: "own_ok {c} (set_op t OpDone st)"
    using inv_let_go [of st t c] assms by (simp add: pool_inv_with inv_with_def acc_ok_def)
  note o = own_transit [OF own, of c, simplified]
  show "c < length (pl_conns st)" "sc_open (pl_conns st ! c)" "c \<notin> set (idle st k)" using o(1-3) by simp_all
  assume u: "u < length (pl_ops st)" "op_conn (pl_ops st ! u) = Some c"
  show "u = t"
  proof (rule ccontr)
    assume "u \<noteq> t"
    then have "pl_ops st ! u \<in> set ((pl_ops st)[t := OpDone])" using u(1) by (metis nth_list_update_neq nth_mem length_list_update)
    with o(4) u(2) show False by (auto simp: cnt_zero)
  qed
qed

text \<open>The positions in which a goroutine has been given something: a connection, or room for a new one.\<close>

definition granted :: "pool_op \<Rightarrow> bool" where
  "granted op = (case op of OpOpening _ _ _ \<Rightarrow> True | OpHolding _ \<Rightarrow> True | _ \<Rightarrow> False)"

definition newly :: "pool_state \<Rightarrow> pool_state \<Rightarrow> nat \<Rightarrow> bool" where
  "newly st st' t \<longleftrightarrow> t < length (pl_ops st') \<and> (t < length (pl_ops st) \<longrightarrow> pl_ops st' ! t \<noteq> pl_ops st ! t)"

definition quiet :: "pool_state \<Rightarrow> pool_state \<Rightarrow> bool" where
  "quiet st st' \<longleftrightarrow> (\<forall>t. newly st st' t \<longrightarrow> \<not> granted (pl_ops st' ! t)) \<and> length (pl_ops st) \<le> length (pl_ops st')"

lemma granted_simps [simp]:
  "granted (OpOpening k p w)" "granted (OpHolding c)" "\<not> granted (OpWait k m p)" "\<not> granted (OpConnecting k p w i)"
  "\<not> granted (OpFailed k w)" "\<not> granted (OpOpened k p w c)" "\<not> granted (OpRotating k)" "\<not> granted OpDone"
  by (simp_all add: granted_def)

lemma quiet_same: "pl_ops st' = pl_ops st \<Longrightarrow> quiet st st'"
  by (simp add: quiet_def newly_def)

lemma quiet_set: "pl_ops st' = (pl_ops st)[t := op] \<Longrightarrow> \<not> granted op \<Longrightarrow> quiet st st'"
  by (auto simp: quiet_def newly_def nth_update)

lemma quiet_trans: "quiet a b \<Longrightarrow> quiet b c \<Longrightarrow> quiet a c"
  unfolding quiet_def newly_def by (metis order.strict_trans2 order.trans)

lemma quiet_add: "pl_ops st' = pl_ops st @ [op] \<Longrightarrow> \<not> granted op \<Longrightarrow> quiet st st'"
  by (auto simp: quiet_def newly_def nth_append)

lemma quiet_foldl: "(\<And>s k. quiet s (f s k)) \<Longrightarrow> quiet st (foldl f st ks)"
  by (induction ks arbitrary: st) (auto intro: quiet_trans quiet_same)

lemma upd_ops [simp]:
  "pl_ops (upd_pool k f st) = pl_ops st" "pl_ops (upd_budget a g st) = pl_ops st" "pl_ops (upd_conn c h st) = pl_ops st"
  "pl_ops (upd_cred i e st) = pl_ops st" "pl_ops (add_op op st) = pl_ops st @ [op]"
  by (simp_all add: upd_defs)

lemma trim_ops: "pl_ops (trimLocked r as ks st) = pl_ops st"
proof -
  have one: "pl_ops (trim_idle k cs s) = pl_ops s" for k cs s by (induction cs arbitrary: s) (simp_all add: Let_def)
  have "pl_ops (foldl (\<lambda>s k. if pk_addr k = a then trim_idle k (rev (idle s k)) s else s) s ks) = pl_ops s" for s a
    by (induction ks arbitrary: s) (simp_all add: one)
  then have "pl_ops (trim_addr r ks s a) = pl_ops s" for s a by (simp add: trim_addr_def Let_def)
  then show ?thesis unfolding trimLocked_def by (induction "as" arbitrary: st) simp_all
qed

lemma maintain_quiet: "quiet st (maintain opts now r as ks st)"
proof -
  have "pl_ops (maintain_idle opts now s k) = pl_ops s" for s k by (simp add: maintain_idle_def Let_def)
  moreover have "quiet s (maintain_rotate now s k)" for s k
    by (auto simp: maintain_rotate_def Let_def split: option.split intro: quiet_same quiet_add)
  moreover have "pl_ops (maintain_unused now s k) = pl_ops s" for s k by (simp add: maintain_unused_def split: option.split)
  moreover have "pl_ops (foldl (expire_cred now k) s js) = pl_ops s" for s k js
    by (induction js arbitrary: s) (simp_all add: expire_cred_def)
  then have "pl_ops (maintain_expire now s k) = pl_ops s" for s k by (simp add: maintain_expire_def Let_def)
  ultimately have "quiet s (maintain_pool opts now s k)" for s k
    unfolding maintain_pool_def by (metis quiet_same quiet_trans)
  then show ?thesis unfolding maintain_def using quiet_trans [OF quiet_same [OF trim_ops] quiet_foldl] by blast
qed

lemma close_ops: "pl_ops (pools_close ks st) = pl_ops st"
proof -
  have "pl_ops (close_creds k arr ns s) = pl_ops s" for k arr ns s by (induction ns arbitrary: arr s) (simp_all add: Let_def)
  then have "pl_ops (close_pool s k) = pl_ops s" for s k by (simp add: close_pool_def Let_def)
  then have "pl_ops (foldl close_pool s ks) = pl_ops s" for s by (induction ks arbitrary: s) simp_all
  then show ?thesis by (simp add: pools_close_def)
qed

lemma mint_ops: "pl_ops (mint_install k now e r st) = pl_ops st"
  by (simp add: mint_install_def Let_def split: option.split)

text \<open>The operations that may grant something, and the key they do it for.\<close>

definition op_key :: "pool_op \<Rightarrow> pool_key option" where
  "op_key op = (case op of OpWait k _ _ \<Rightarrow> Some k | OpOpened k _ _ _ \<Rightarrow> Some k | _ \<Rightarrow> None)"

definition asked_key :: "pool_label \<Rightarrow> pool_state \<Rightarrow> pool_key option" where
  "asked_key l st = (case l of LAcquire k _ _ _ _ \<Rightarrow> Some k | LAgain t _ _ \<Rightarrow> op_key (pl_ops st ! t) | LReturn t \<Rightarrow> op_key (pl_ops st ! t)
     | _ \<Rightarrow> None)"

definition grants :: "pool_label \<Rightarrow> bool" where
  "grants l = (case l of LAcquire _ _ _ _ _ \<Rightarrow> True | LAgain _ _ _ \<Rightarrow> True | LReturn _ \<Rightarrow> True | _ \<Rightarrow> False)"

lemma quiet_set_op: "pl_ops s = pl_ops st \<Longrightarrow> \<not> granted op \<Longrightarrow> quiet st (set_op t op s)"
  by (rule quiet_set [of _ _ t op]) simp_all

lemma exec_quiet: "pool_exec opts l st = Some st' \<Longrightarrow> \<not> grants l \<Longrightarrow> quiet st st'"
  by (cases l) (auto simp: grants_def op_index_Some reserve_def mintLocked_def open_refused_def open_done_def pin_def release_conn_def retire_def
      rotated_key_def Let_def mint_ops maintain_quiet close_ops quiet_set_op quiet_same split: if_splits pool_op.splits option.splits)

lemma quiet_not: "quiet st st' \<Longrightarrow> newly st st' t \<Longrightarrow> granted (pl_ops st' ! t) \<Longrightarrow> False"
  by (auto simp: quiet_def)

text \<open>What is granted, to whom, and under which condition.\<close>

lemma exec_grants:
  assumes "pool_inv st" "pool_exec opts l st = Some st'" "newly st st' t" "granted (pl_ops st' ! t)"
  shows "case pl_ops st' ! t of
      OpHolding c \<Rightarrow> asked_key l st = Some (sc_pool (pl_conns st' ! c))
        \<and> ((\<exists>u. l = LReturn u) \<or> \<not> pc_retiring (pl_creds st' ! sc_cred (pl_conns st' ! c)))
    | OpOpening k p w \<Rightarrow> bd_open (pl_budgets st' (pk_addr k)) \<le> bd_limit (pl_budgets st' (pk_addr k))
    | _ \<Rightarrow> True"
proof (cases l)
  case (LAcquire k m pinned r v)
  with assms(2) obtain res st1 where p: "acquire_pass opts k m pinned r v st = Some (res, st1)"
    by (auto simp: acquire_def split: if_splits option.splits prod.splits)
  note pass = acquire_pass_inv [OF assms(1) p]
  have "t = length (pl_ops st)" if "pl_ops st' = pl_ops st @ [op]" for op
    using assms(3) that by (auto simp: newly_def nth_append split: if_splits)
  then show ?thesis
    using assms(2,4) p pass LAcquire pass_got [OF assms(1), of opts k m pinned r v]
    by (cases res) (auto simp: acquire_def asked_key_def pass_ok_def Let_def add_op_def split: if_splits)
next
  case (LAgain u r v)
  with assms(2) obtain k m pinned res st1 where op: "pl_ops st ! u = OpWait k m pinned" "u < length (pl_ops st)"
      and p: "acquire_pass opts k m pinned r v st = Some (res, st1)"
    by (auto simp: op_index_Some acquire_again_def split: if_splits option.splits prod.splits pool_op.splits)
  note pass = acquire_pass_inv [OF assms(1) p]
  have "t = u" if "pl_ops st' = (pl_ops st)[u := new]" for new
    using assms(3) that by (auto simp: newly_def nth_update split: if_splits)
  then show ?thesis
    using assms(2-4) p pass op LAgain pass_got [OF assms(1), of opts k m pinned r v]
    by (cases res) (auto simp: op_index_Some acquire_again_def asked_key_def op_key_def pass_ok_def newly_def split: if_splits)
next
  case (LReturn u)
  with assms(2) have u: "u < length (pl_ops st)" "acquire_return u st = Some st'" by (simp_all add: op_index_Some)
  have mem: "pl_ops st ! u \<in> set (pl_ops st)" using u(1) by simp
  have link: "OpOpened k p w c \<in> set (pl_ops st) \<Longrightarrow> sc_pool (pl_conns st ! c) = k" for k p w c
    using assms(1) by (auto simp: pool_inv_def acc_ok_def link_ok_def)
  have "t = u" if "pl_ops st' = (pl_ops st)[u := new]" for new
    using assms(3) that by (auto simp: newly_def nth_update split: if_splits)
  then show ?thesis
    using u mem link assms(4) LReturn
    by (cases "pl_ops st ! u") (auto simp: acquire_return_def asked_key_def op_key_def)
qed (use assms(3,4) exec_quiet [OF assms(2)] in \<open>auto simp: grants_def dest: quiet_not\<close>)

section \<open>The share of a replica\<close>

text \<open>
  The budget of the database an \<open>acquire\<close> goes by (the limit the catalog gives, or the default) and the number of
  replicas it is divided by.
\<close>

definition asked_budget :: "pool_opts \<Rightarrow> pool_label \<Rightarrow> pool_state \<Rightarrow> (int \<times> int) option" where
  "asked_budget opts l st =
     (let budget = (\<lambda>maxConns. if maxConns \<le> 0 then po_DefaultBudget opts else maxConns) in
      case l of
        LAcquire k maxConns pinned replicas victim \<Rightarrow> Some (budget maxConns, replicas)
      | LAgain t replicas victim \<Rightarrow> (case pl_ops st ! t of OpWait k maxConns pinned \<Rightarrow> Some (budget maxConns, replicas) | _ \<Rightarrow> None)
      | _ \<Rightarrow> None)"

lemma pass_limit:
  assumes "acquire_pass opts k m pinned r v st = Some (PassOpen, st')"
  shows "bd_limit (pl_budgets st' (pk_addr k)) = max 1 ((if m \<le> 0 then po_DefaultBudget opts else m) div r)"
proof -
  let ?st1 = "budgetFor opts (pk_addr k) m r st"
  obtain rc st2 where reuse: "reuse_idle k (rev (sp_idle (pl_pools ?st1 k))) ?st1 = (rc, st2)" by fastforce
  have "bd_limit (pl_budgets st2 (pk_addr k)) = bd_limit (pl_budgets ?st1 (pk_addr k))" by (rule bd_limit_reuse [OF reuse])
  then have "bd_limit (pl_budgets st' (pk_addr k)) = bd_limit (pl_budgets ?st1 (pk_addr k))"
    using assms reuse by (auto simp: acquire_pass_def Let_def upd_budget_def split: if_splits option.splits)
  then show ?thesis by (simp add: budgetFor_def Let_def upd_budget_def)
qed

lemma opening_limit:
  assumes "pool_exec opts l st = Some st'" "newly st st' t" "pl_ops st' ! t = OpOpening k p w" "pool_inv st"
  shows "\<exists>budget replicas. asked_budget opts l st = Some (budget, replicas) \<and> 0 < replicas
    \<and> bd_limit (pl_budgets st' (pk_addr k)) = max 1 (budget div replicas)"
proof (cases l)
  case (LAcquire k' m pinned r v)
  with assms(1) obtain res st1 where p: "acquire_pass opts k' m pinned r v st = Some (res, st1)" and r: "0 < r"
    by (auto simp: acquire_def split: if_splits option.splits prod.splits)
  have ops: "pl_ops st1 = pl_ops st" by (rule acquire_pass_inv(2) [OF assms(4) p])
  have "t = length (pl_ops st)" if "pl_ops st' = pl_ops st @ [op]" for op
    using assms(2) that by (auto simp: newly_def nth_append split: if_splits)
  then have "res = PassOpen \<and> k = k' \<and> st' = add_op (OpOpening k pinned False) st1"
    using assms(1,3) p ops LAcquire r by (cases res) (auto simp: acquire_def Let_def add_op_def split: if_splits)
  then show ?thesis using pass_limit [of opts k' m pinned r v st st1] p r LAcquire by (simp add: asked_budget_def Let_def add_op_def)
next
  case (LAgain u r v)
  with assms(1) obtain k' m pinned res st1 where op: "pl_ops st ! u = OpWait k' m pinned" "u < length (pl_ops st)"
      and p: "acquire_pass opts k' m pinned r v st = Some (res, st1)" and r: "0 < r"
    by (auto simp: op_index_Some acquire_again_def split: if_splits option.splits prod.splits pool_op.splits)
  have ops: "pl_ops st1 = pl_ops st" by (rule acquire_pass_inv(2) [OF assms(4) p])
  have "t = u" if "pl_ops st' = (pl_ops st)[u := new]" for new
    using assms(2) that by (auto simp: newly_def nth_update split: if_splits)
  then have "res = PassOpen \<and> k = k' \<and> st' = set_op u (OpOpening k pinned True) st1"
    using assms(1-3) p ops op LAgain r by (cases res) (auto simp: op_index_Some acquire_again_def newly_def split: if_splits)
  then show ?thesis using pass_limit [of opts k' m pinned r v st st1] p r op LAgain by (simp add: asked_budget_def Let_def)
next
  case (LReturn u)
  with assms(1) have u: "u < length (pl_ops st)" "acquire_return u st = Some st'" by (simp_all add: op_index_Some)
  have "t = u" if "pl_ops st' = (pl_ops st)[u := new]" for new
    using assms(2) that by (auto simp: newly_def nth_update split: if_splits)
  then show ?thesis using u assms(3) by (cases "pl_ops st ! u") (auto simp: acquire_return_def split: if_splits)
qed (use assms(2,3) exec_quiet [OF assms(1)] in \<open>auto simp: grants_def dest: quiet_not\<close>)

lemma share_times: "0 < r \<Longrightarrow> r \<le> b \<Longrightarrow> n \<le> max 1 (b div r) \<Longrightarrow> r * n \<le> (b :: int)"
proof -
  assume a: "0 < r" "r \<le> b" "n \<le> max 1 (b div r)"
  have "1 \<le> b div r" using a(1,2) by (simp add: pos_imp_zdiv_pos_iff int_one_le_iff_zero_less)
  then have "r * n \<le> r * (b div r)" using a by (intro mult_left_mono) auto
  also have "\<dots> \<le> b" using pos_mod_sign [OF a(1), of b] mult_div_mod_eq [of r b] by linarith
  finally show ?thesis .
qed

section \<open>Shutdown comes to an end\<close>

text \<open>What is left to do before a goroutine owns nothing.\<close>

fun op_left :: "pool_op \<Rightarrow> nat" where
  "op_left (OpConnecting k p w i) = 1"
| "op_left (OpOpened k p w c) = 2"
| "op_left (OpHolding c) = 1"
| "op_left op = 0"

definition next_label :: "nat \<Rightarrow> pool_op \<Rightarrow> pool_label" where
  "next_label t op = (case op of OpConnecting _ _ _ _ \<Rightarrow> LOpened t False | OpOpened _ _ _ _ \<Rightarrow> LReturn t | _ \<Rightarrow> LRelease t False 0)"

abbreviation ops_left :: "pool_state \<Rightarrow> nat" where
  "ops_left st \<equiv> sum_list (map op_left (pl_ops st))"

lemma ops_left_update:
  "t < length xs \<Longrightarrow> op_left op < op_left (xs ! t) \<Longrightarrow> sum_list (map op_left (xs[t := op])) < sum_list (map op_left xs)"
proof (induction xs arbitrary: t)
  case (Cons x xs)
  then show ?case by (cases t) auto
qed simp

lemma next_exec:
  assumes "t < length (pl_ops st)" "op_left (pl_ops st ! t) > 0"
  shows "\<exists>st' op. pool_exec opts (next_label t (pl_ops st ! t)) st = Some st' \<and> pl_ops st' = (pl_ops st)[t := op] \<and> op_left op < op_left (pl_ops st ! t)"
  using assms
  by (cases "pl_ops st ! t") (auto simp: next_label_def op_index_Some open_done_def acquire_return_def release_conn_def Let_def)

lemma drains: "\<exists>ms st'. pool_run opts ms st = Some st' \<and> list_all (\<lambda>l. \<not> mints l) ms \<and> ops_left st' = 0"
proof (induction "ops_left st" arbitrary: st rule: less_induct)
  case less
  show ?case
  proof (cases "ops_left st = 0")
    case True
    then show ?thesis by (intro exI [of _ "[]"]) simp
  next
    case False
    then obtain t where t: "t < length (pl_ops st)" "op_left (pl_ops st ! t) > 0" by (auto simp: in_set_conv_nth)
    from next_exec [OF t, of opts] obtain s op where s: "pool_exec opts (next_label t (pl_ops st ! t)) st = Some s"
      "pl_ops s = (pl_ops st)[t := op]" "op_left op < op_left (pl_ops st ! t)" by blast
    have "ops_left s < ops_left st" using ops_left_update [OF t(1) s(3)] s(2) by simp
    from less [OF this] obtain ms st' where ms: "pool_run opts ms s = Some st'" "list_all (\<lambda>l. \<not> mints l) ms" "ops_left st' = 0" by blast
    have "\<not> mints (next_label t (pl_ops st ! t))" by (simp add: mints_def next_label_def split: pool_op.split)
    with s(1) ms show ?thesis by (intro exI [of _ "next_label t (pl_ops st ! t) # ms"] exI [of _ st']) simp
  qed
qed

text \<open>Every credential is revoked, each once, and every connection is closed.\<close>

definition all_gone :: "pool_state \<Rightarrow> bool" where
  "all_gone st \<longleftrightarrow> set (pl_revocations st) = {..<length (pl_creds st)} \<and> distinct (pl_revocations st)
     \<and> list_all (\<lambda>cn. \<not> sc_open cn) (pl_conns st)"

lemma shut_all_gone:
  assumes "pool_inv st" "shut_ok st" "ops_left st = 0"
  shows "all_gone st"
proof -
  have none: "op_conn op = None" "\<not> op_connects i op" if "op \<in> set (pl_ops st)" for op i
    using assms(3) that by (auto dest!: bspec [OF _ that] elim: op_left.elims)
  have closed: "\<not> sc_open cn" if cn: "cn \<in> set (pl_conns st)" for cn
  proof -
    from cn obtain c where c: "c < length (pl_conns st)" "cn = pl_conns st ! c" by (auto simp: in_set_conv_nth)
    have "cnt (\<lambda>op. op_conn op = Some c) (pl_ops st) = 0" using none by (auto simp: cnt_zero)
    then have "of_bool (sc_open cn) = (0 :: int)" using assms(1,2) c by (simp add: pool_inv_def acc_ok_def own_ok_def shut_ok_def)
    then show ?thesis by simp
  qed
  have "pc_revoked (pl_creds st ! i)" if i: "i < length (pl_creds st)" for i
  proof -
    have "cnt (\<lambda>cn. sc_open cn \<and> sc_cred cn = i) (pl_conns st) = 0" "cnt (op_connects i) (pl_ops st) = 0"
      using closed none by (auto simp: cnt_zero)
    then have "pc_conns (pl_creds st ! i) = 0" using assms(1) i by (simp add: pool_inv_def acc_ok_def count_ok_def)
    moreover have "cred_ok {} st i" "pc_retiring (pl_creds st ! i)"
      using assms(1,2) i by (auto simp: pool_inv_def life_ok_def shut_ok_def)
    ultimately show ?thesis using cred_okD(2) by fastforce
  qed
  then have "set (pl_revocations st) = {..<length (pl_creds st)}" "distinct (pl_revocations st)"
    using assms(1) unfolding pool_inv_def life_ok_def cred_ok_def Let_def by auto
  then show ?thesis using closed by (simp add: all_gone_def list_all_iff)
qed

lemma runE:
  assumes "case r of None \<Rightarrow> False | Some s \<Rightarrow> P s"
  obtains s where "r = Some s" "P s"
  using assms by (cases r) auto

section \<open>Properties\<close>

text \<open>
  Claim C9. Connections are never shared or mixed up: when an operation gives a goroutine a connection,
  it is a connection of the key the goroutine asked for, open, in no idle list and with no other
  goroutine; and one taken from the idle list is not on a credential that retires.
\<close>

theorem pool_isolation:
  assumes "pool_run opts ls newServerPools = Some st" "pool_exec opts l st = Some st'"
    and "newly st st' t" "pl_ops st' ! t = OpHolding c"
  shows "asked_key l st = Some (sc_pool (pl_conns st' ! c)) \<and> sc_open (pl_conns st' ! c) \<and> c \<notin> set (idle st' k)
    \<and> {u. u < length (pl_ops st') \<and> op_conn (pl_ops st' ! u) = Some c} = {t}
    \<and> ((\<exists>u. l = LReturn u) \<or> \<not> pc_retiring (pl_creds st' ! sc_cred (pl_conns st' ! c)))"
proof -
  have inv: "pool_inv st" "pool_inv st'" using reachable_inv [OF assms(1)] pool_exec_inv [OF _ assms(2)] by simp_all
  have t: "t < length (pl_ops st')" using assms(3) by (simp add: newly_def)
  note own = unique_owner [OF inv(2) t assms(4)]
  have "{u. u < length (pl_ops st') \<and> op_conn (pl_ops st' ! u) = Some c} = {t}"
  proof (intro equalityI subsetI)
    fix u assume "u \<in> {u. u < length (pl_ops st') \<and> op_conn (pl_ops st' ! u) = Some c}"
    then show "u \<in> {t}" using own(4) [of u] by blast
  qed (use t assms(4) in simp)
  moreover have "granted (pl_ops st' ! t)" using assms(4) by simp
  note grant = exec_grants [OF inv(1) assms(2,3) this]
  ultimately show ?thesis using grant own(2,3) assms(4) by simp
qed

theorem pool_isolation_witness:
  "\<exists>st st'. pool_run sample_opts (sample_opened @ [LRelease 0 True 5]) newServerPools = Some st
     \<and> pool_exec sample_opts (LAcquire sample_key 5 True 1 None) st = Some st' \<and> newly st st' 1 \<and> pl_ops st' ! 1 = OpHolding 0
     \<and> sc_pool (pl_conns st' ! 0) = sample_key \<and> \<not> pc_retiring (pl_creds st' ! sc_cred (pl_conns st' ! 0))"
proof -
  have "case pool_run sample_opts (sample_opened @ [LRelease 0 True 5]) newServerPools of None \<Rightarrow> False
      | Some st \<Rightarrow> (case pool_exec sample_opts (LAcquire sample_key 5 True 1 None) st of None \<Rightarrow> False
          | Some st' \<Rightarrow> newly st st' 1 \<and> pl_ops st' ! 1 = OpHolding 0)"
    by code_simp
  then obtain st where st: "pool_run sample_opts (sample_opened @ [LRelease 0 True 5]) newServerPools = Some st"
      "case pool_exec sample_opts (LAcquire sample_key 5 True 1 None) st of None \<Rightarrow> False
          | Some st' \<Rightarrow> newly st st' 1 \<and> pl_ops st' ! 1 = OpHolding 0" by (rule runE)
  from st(2) obtain st' where st': "pool_exec sample_opts (LAcquire sample_key 5 True 1 None) st = Some st'"
      "newly st st' 1 \<and> pl_ops st' ! 1 = OpHolding 0" by (rule runE)
  from pool_isolation [OF st(1) st'(1), of 1 0 sample_key] st' show ?thesis
    by (intro exI [of _ st] exI [of _ st']) (simp add: st asked_key_def)
qed

text \<open>
  Claim C20. The accounts of the pool are exact in every state it reaches: every open connection has
  exactly one owner (the idle list of its key or one goroutine), the budget of an address counts the
  open connections and those being opened, the counter of a credential the connections on it,
  the waiters and pins likewise, and a key has one current credential, the last of its list.
\<close>

theorem pool_accounts_exact: "pool_run opts ls newServerPools = Some st \<Longrightarrow> pool_inv st"
  by (rule reachable_inv)

theorem pool_accounts_exact_witness:
  "\<exists>st. pool_run sample_opts sample_opened newServerPools = Some st \<and> pool_inv st \<and> bd_open (pl_budgets st ''a:1'') = 1"
proof -
  have "case pool_run sample_opts sample_opened newServerPools of None \<Rightarrow> False | Some st \<Rightarrow> bd_open (pl_budgets st ''a:1'') = 1"
    by code_simp
  then obtain st where "pool_run sample_opts sample_opened newServerPools = Some st" "bd_open (pl_budgets st ''a:1'') = 1" by (rule runE)
  with pool_accounts_exact show ?thesis by blast
qed

text \<open>
  Claim C21. A database is not overloaded: when a goroutine may open a connection, the open
  connections to that address together with those being opened, this one included, are within the
  share of the replica: the budget of the database (the catalog's limit, or the default when it gives none) divided by the
  number of replicas, and at least one. If the budget is at least the number of replicas, as many on every replica stay within it.
\<close>

theorem pool_budget_bound:
  assumes "pool_run opts ls newServerPools = Some st" "pool_exec opts l st = Some st'"
    and "newly st st' t" "pl_ops st' ! t = OpOpening k p w"
  shows "\<exists>budget replicas. asked_budget opts l st = Some (budget, replicas) \<and> 0 < replicas
    \<and> (let n = cnt (\<lambda>cn. sc_open cn \<and> pk_addr (sc_pool cn) = pk_addr k) (pl_conns st') + cnt (op_counted (pk_addr k)) (pl_ops st')
       in n \<le> max 1 (budget div replicas) \<and> (replicas \<le> budget \<longrightarrow> replicas * n \<le> budget))"
proof -
  have inv: "pool_inv st" "pool_inv st'" using reachable_inv [OF assms(1)] pool_exec_inv [OF _ assms(2)] by simp_all
  then have n: "bd_open (pl_budgets st' (pk_addr k)) =
      cnt (\<lambda>cn. sc_open cn \<and> pk_addr (sc_pool cn) = pk_addr k) (pl_conns st') + cnt (op_counted (pk_addr k)) (pl_ops st')"
    by (simp add: pool_inv_def acc_ok_def count_ok_def)
  have le: "bd_open (pl_budgets st' (pk_addr k)) \<le> bd_limit (pl_budgets st' (pk_addr k))"
    using exec_grants [OF inv(1) assms(2,3)] assms(4) by simp
  obtain b r where b: "asked_budget opts l st = Some (b, r)" "0 < r" "bd_limit (pl_budgets st' (pk_addr k)) = max 1 (b div r)"
    using opening_limit [OF assms(2-4) inv(1)] by blast
  with le share_times [of r b] show ?thesis unfolding Let_def n [symmetric] by auto
qed

theorem pool_budget_bound_witness:
  "\<exists>st st'. pool_run sample_opts sample_opened newServerPools = Some st
     \<and> pool_exec sample_opts (LAcquire sample_key 5 False 2 None) st = Some st' \<and> pl_ops st' ! 1 = OpOpening sample_key False False
     \<and> cnt (\<lambda>cn. sc_open cn \<and> pk_addr (sc_pool cn) = ''a:1'') (pl_conns st') + cnt (op_counted ''a:1'') (pl_ops st') \<le> 2"
proof -
  let ?l = "LAcquire sample_key 5 False 2 None"
  have "case pool_run sample_opts sample_opened newServerPools of None \<Rightarrow> False
      | Some st \<Rightarrow> (case pool_exec sample_opts ?l st of None \<Rightarrow> False
          | Some st' \<Rightarrow> newly st st' 1 \<and> pl_ops st' ! 1 = OpOpening sample_key False False)"
    by code_simp
  then obtain st where st: "pool_run sample_opts sample_opened newServerPools = Some st"
      "case pool_exec sample_opts ?l st of None \<Rightarrow> False
          | Some st' \<Rightarrow> newly st st' 1 \<and> pl_ops st' ! 1 = OpOpening sample_key False False"
    by (rule runE)
  from st(2) obtain st' where st': "pool_exec sample_opts ?l st = Some st'"
      "newly st st' 1 \<and> pl_ops st' ! 1 = OpOpening sample_key False False" by (rule runE)
  have addr: "pk_addr sample_key = ''a:1''" by (simp add: sample_key_def)
  have "cnt (\<lambda>cn. sc_open cn \<and> pk_addr (sc_pool cn) = ''a:1'') (pl_conns st') + cnt (op_counted ''a:1'') (pl_ops st') \<le> max 1 (5 div 2)"
    using pool_budget_bound [OF st(1) st'(1), of 1 sample_key False False] st'(2) unfolding addr asked_budget_def by (auto simp: Let_def)
  then show ?thesis using st(1) st' by (intro exI [of _ st] exI [of _ st']) simp
qed

text \<open>
  Claim C14. A rotation never cuts a running transaction: no credential is revoked twice, and
  while a connection is open on a revoked credential, or being opened, some pass of the
  maintenance loop found that credential past its expiry.
\<close>

theorem revoked_only_when_drained:
  assumes "pool_run opts ls newServerPools = Some st" "i < length (pl_creds st)"
  shows "distinct (pl_revocations st) \<and>
    (i \<in> set (pl_revocations st) \<longrightarrow>
      (\<exists>now l. l \<in> set ls \<and> maintained_at l = Some now \<and> pc_expires (pl_creds st ! i) \<le> now)
      \<or> cnt (\<lambda>cn. sc_open cn \<and> sc_cred cn = i) (pl_conns st) = 0 \<and> cnt (op_connects i) (pl_ops st) = 0)"
proof -
  have inv: "acc_ok {} st" "life_ok {} {} st" using reachable_inv [OF assms(1)] by (simp_all add: pool_inv_def)
  have conns: "pc_conns (pl_creds st ! i) = cnt (\<lambda>cn. sc_open cn \<and> sc_cred cn = i) (pl_conns st) + cnt (op_connects i) (pl_ops st)"
    using inv(1) assms(2) by (simp add: acc_ok_def count_ok_def)
  note nn = cnt_nonneg [of "\<lambda>cn. sc_open cn \<and> sc_cred cn = i" "pl_conns st"] cnt_nonneg [of "op_connects i" "pl_ops st"]
  have revoked: "pc_revoked (pl_creds st ! i) \<longleftrightarrow> i \<in> set (pl_revocations st)" by (rule cred_okD(4) [OF lifeD(1) [OF inv(2) assms(2)]])
  have mem: "pl_creds st ! i \<in> set (pl_creds st)" using assms(2) by simp
  show ?thesis
  proof (cases "pc_conns (pl_creds st ! i) > 0")
    case True
    with mem revoked reachable_expired [OF assms(1)] lifeD(5) [OF inv(2)] show ?thesis by (fastforce simp: expired_ok_def)
  next
    case False
    then have "cnt (\<lambda>cn. sc_open cn \<and> sc_cred cn = i) (pl_conns st) = 0" "cnt (op_connects i) (pl_ops st) = 0"
      using conns nn by linarith+
    with lifeD(5) [OF inv(2)] show ?thesis by simp
  qed
qed

text \<open>A second credential replaces the first while its connection is in use, and the first is revoked when that closes.\<close>

definition sample_rotated :: "pool_label list" where
  "sample_rotated = sample_opened @ [LMaintain (5 * 10 ^ 11) 1 [''a:1''] [sample_key], LMint 1 (5 * 10 ^ 11) (15 * 10 ^ 11) (10 ^ 12),
     LRotated 1, LRelease 0 True (5 * 10 ^ 11 + 1)]"

theorem revoked_only_when_drained_witness:
  "\<exists>st. pool_run sample_opts sample_rotated newServerPools = Some st \<and> pl_revocations st = [0] \<and> length (pl_creds st) = 2
     \<and> cnt (\<lambda>cn. sc_open cn \<and> sc_cred cn = 0) (pl_conns st) = 0"
proof -
  have "case pool_run sample_opts sample_rotated newServerPools of None \<Rightarrow> False
      | Some st \<Rightarrow> pl_revocations st = [0] \<and> length (pl_creds st) = 2 \<and> pc_expires (pl_creds st ! 0) = 10 ^ 12" by code_simp
  then obtain st where st: "pool_run sample_opts sample_rotated newServerPools = Some st"
      "pl_revocations st = [0] \<and> length (pl_creds st) = 2 \<and> pc_expires (pl_creds st ! 0) = 10 ^ 12" by (rule runE)
  have early: "\<not> (\<exists>now l. l \<in> set sample_rotated \<and> maintained_at l = Some now \<and> (10 ^ 12 :: int) \<le> now)"
    by (auto simp: sample_rotated_def sample_opened_def maintained_at_def)
  have "0 < length (pl_creds st)" using st(2) by simp
  from revoked_only_when_drained [OF st(1) this] st early show ?thesis by auto
qed

text \<open>
  Claim C15. Shutting down gets rid of every credential: after the pool is closed, and as long as no
  further credential is issued, the goroutines that still own something can always let go of it, and once
  none does every credential has been revoked, exactly once, and every connection is closed.
\<close>

theorem shutdown_revokes_all:
  assumes "pool_run opts ls newServerPools = Some st" "\<not> pl_closed st" "pool_exec opts (LClose ks) st = Some st1"
    and "pool_run opts ms st1 = Some st2" "\<forall>l \<in> set ms. \<not> mints l"
  shows "(ops_left st2 = 0 \<longrightarrow> all_gone st2)
    \<and> (\<exists>ns st3. pool_run opts ns st2 = Some st3 \<and> list_all (\<lambda>l. \<not> mints l) ns \<and> ops_left st3 = 0 \<and> all_gone st3)"
proof -
  have inv: "pool_inv st" by (rule reachable_inv [OF assms(1)])
  have st1: "all_keys st ks" "st1 = pools_close ks st" using assms(3) by (simp_all split: if_splits)
  have s1: "pool_inv st1" "shut_ok st1" using pools_close_inv [OF inv] close_shut [OF inv assms(2) st1(1)] st1(2) by simp_all
  have s2: "pool_inv st2" "shut_ok st2" using run_shut [OF s1 assms(5,4)] by simp_all
  obtain ns st3 where ns: "pool_run opts ns st2 = Some st3" "list_all (\<lambda>l. \<not> mints l) ns" "ops_left st3 = 0"
    using drains [of opts st2] by blast
  have "pool_inv st3 \<and> shut_ok st3" using run_shut [OF s2 _ ns(1)] ns(2) by (simp add: list_all_iff)
  with ns shut_all_gone s2 show ?thesis by blast
qed

text \<open>A session holds a connection while the pool closes, and then ends.\<close>

theorem shutdown_revokes_all_witness:
  "\<exists>st st1 st2. pool_run sample_opts sample_opened newServerPools = Some st \<and> pool_exec sample_opts (LClose [sample_key]) st = Some st1
     \<and> pool_run sample_opts [LRelease 0 True 5] st1 = Some st2 \<and> length (pl_creds st2) = 1 \<and> all_gone st2"
proof -
  let ?P = "\<lambda>st2. length (pl_creds st2) = 1 \<and> ops_left st2 = 0"
  let ?Q = "\<lambda>st1. case pool_run sample_opts [LRelease 0 True 5] st1 of None \<Rightarrow> False | Some st2 \<Rightarrow> ?P st2"
  let ?R = "\<lambda>st. \<not> pl_closed st \<and> (case pool_exec sample_opts (LClose [sample_key]) st of None \<Rightarrow> False | Some st1 \<Rightarrow> ?Q st1)"
  have "case pool_run sample_opts sample_opened newServerPools of None \<Rightarrow> False | Some st \<Rightarrow> ?R st" by code_simp
  then obtain st where st: "pool_run sample_opts sample_opened newServerPools = Some st" "?R st" by (rule runE)
  from st(2) have "case pool_exec sample_opts (LClose [sample_key]) st of None \<Rightarrow> False | Some st1 \<Rightarrow> ?Q st1" ..
  then obtain st1 where st1: "pool_exec sample_opts (LClose [sample_key]) st = Some st1" "?Q st1" by (rule runE)
  from st1(2) obtain st2 where st2: "pool_run sample_opts [LRelease 0 True 5] st1 = Some st2" "?P st2" by (rule runE)
  have "all_gone st2"
    using shutdown_revokes_all [OF st(1) _ st1(1) st2(1)] st(2) st2(2) by (simp add: mints_def)
  with st(1) st1(1) st2 show ?thesis by blast
qed

end
