(* ===== verification/RunnerIdentity.thy ===== *)
theory RunnerIdentity
  imports Base64 "HOL-Library.Word"
begin

text \<open>
  Session tokens of agent runtimes (internal/runnerid/verify.go and cursor.go): the checks on a
  Claude runner token and on a Cursor identity token, and who a verified token names. Decoding
  of JSON, the issuer's keys with the signature check, SHA-256 and the case mapping outside
  ASCII are parameters. Instants are nanoseconds since the first of January of the year 1, as
  the seconds of \<open>time.Time\<close> count.
\<close>

section \<open>Parameters\<close>

record jwt_header =
  jh_Alg :: string
  jh_Kid :: string
  jh_Crit :: "string list"

text \<open>What an audience claim decodes to: one string, a list of strings, anything else.\<close>

datatype json_aud = AudOne string | AudMany "string list" | AudOther

record runner_claims =
  cl_Issuer :: string
  cl_Audience :: json_aud
  cl_Expires :: int
  cl_Issued :: int
  cl_NotBefor :: int
  cl_Role :: string
  cl_ActSub :: string
  cl_ActEmail :: string

record cursor_claims =
  cc_Issuer :: string
  cc_Subject :: string
  cc_Audience :: json_aud
  cc_Expires :: int
  cc_Issued :: int
  cc_NotBefor :: int
  cc_Runtime :: string
  cc_TeamID :: string
  cc_Email :: string
  cc_RunID :: string

text \<open>
  \<open>je_es256\<close> and \<open>je_rs256\<close> say, for a key ID, a text and a signature, whether the issuer's
  key of that ID and kind is known and the signature is valid.
\<close>

record jwt_env =
  je_header :: "string \<Rightarrow> jwt_header option"
  je_claims :: "string \<Rightarrow> runner_claims option"
  je_cursor :: "string \<Rightarrow> cursor_claims option"
  je_es256 :: "string \<Rightarrow> string \<Rightarrow> string \<Rightarrow> bool"
  je_rs256 :: "string \<Rightarrow> string \<Rightarrow> string \<Rightarrow> bool"
  je_sha :: "string \<Rightarrow> string"
  je_lower :: "string \<Rightarrow> string"

section \<open>Standard library\<close>

text \<open>\<open>base64.RawURLEncoding.DecodeString\<close>: no padding, the unused low bits of the end not checked.\<close>

definition url_char :: "char \<Rightarrow> bool" where
  "url_char c \<longleftrightarrow> is_alnum c \<or> c = CHR ''-'' \<or> c = CHR ''_''"

definition raw_url_decode :: "string \<Rightarrow> string option" where
  "raw_url_decode s =
     (let t = filter (\<lambda>c. byte_of c \<noteq> 13 \<and> byte_of c \<noteq> 10) s in
      if list_all url_char t \<and> length t mod 4 \<noteq> 1
      then b64_decode (map (\<lambda>c. if c = CHR ''-'' then CHR ''+'' else if c = CHR ''_'' then CHR ''/'' else c) t
             @ replicate ((4 - length t mod 4) mod 4) (CHR ''=''))
      else None)"

text \<open>\<open>time.Unix\<close>: the seconds since the year 1 are a signed 64-bit number.\<close>

definition unix_time :: "int \<Rightarrow> int" where
  "unix_time s = sint (word_of_int (s + 62135596800) :: 64 word) * 1000000000"

definition str_lower :: "jwt_env \<Rightarrow> string \<Rightarrow> string" where
  "str_lower env s = (if ascii s then map to_lower_byte s else je_lower env s)"

section \<open>Who a token names\<close>

datatype session_kind = KindPerson | KindAgent | KindNone

record runner_session =
  rs_Kind :: session_kind
  rs_Subject :: string
  rs_Owner :: string
  rs_Run :: string
  rs_Pools :: "string list"
  rs_Expires :: int
  rs_TokenSHA256 :: string

definition InPool :: "runner_session \<Rightarrow> string \<Rightarrow> bool" where
  "InPool s ccpool \<longleftrightarrow> ccpool \<in> set (rs_Pools s)"

definition plainSubject :: "string \<Rightarrow> bool" where
  "plainSubject s \<longleftrightarrow> length s \<le> 256 \<and> \<not> ContainsAny s [CHR '' '', CHR 0x22, CHR 0x5C] \<and> \<not> list_ex (\<lambda>r. r < 32 \<or> r = 127) (runes s)"

definition personEmail :: "jwt_env \<Rightarrow> string \<Rightarrow> string list \<Rightarrow> string option" where
  "personEmail env address domains =
     (let email = str_lower env address in
      case last_index_byte (CHR ''@'') email of
        None \<Rightarrow> None
      | Some at \<Rightarrow>
          if at < 1 \<or> index_byte (CHR ''@'') email \<noteq> Some at \<or> length email > 254 then None
          else (let domain = drop (at + 1) email in
                if list_ex (\<lambda>d. d \<noteq> [] \<and> domain = d) domains then Some email else None))"

definition audience :: "json_aud \<Rightarrow> string list" where
  "audience raw = filter (\<lambda>a. HasPrefix a ''ccpool_'' \<and> length a \<le> 128)
     (case raw of AudOne one \<Rightarrow> [one] | AudMany many \<Rightarrow> many | AudOther \<Rightarrow> [])"

definition audienceIs :: "json_aud \<Rightarrow> string \<Rightarrow> bool" where
  "audienceIs raw want = (case raw of AudOne one \<Rightarrow> one = want | AudMany many \<Rightarrow> many = [want] | AudOther \<Rightarrow> False)"

definition str_listed :: "string list \<Rightarrow> string \<Rightarrow> bool" where
  "str_listed xs s \<longleftrightarrow> list_ex (\<lambda>v. v \<noteq> [] \<and> v = s) xs"

section \<open>Verification\<close>

record runner_verifier =
  rv_Issuer :: string
  rv_PersonDomains :: "string list"

record cursor_verifier =
  cv_Issuer :: string
  cv_Audience :: string
  cv_TeamIDs :: "string list"
  cv_PersonDomains :: "string list"

abbreviation hour_ns :: int where "hour_ns \<equiv> 3600 * 1000000000"
definition maxLifetime :: int where "maxLifetime = 12 * hour_ns"
definition clockSkew :: int where "clockSkew = 60 * 1000000000"
definition cursorMaxLifetime :: int where "cursorMaxLifetime = hour_ns"
definition tokenPrefix :: string where "tokenPrefix = ''sk-ant-cc-''"

definition token_shape :: "string \<Rightarrow> bool" where
  "token_shape token \<longleftrightarrow> token \<noteq> [] \<and> length token \<le> 16384 \<and> \<not> ContainsAny token [CHR '' '', CHR 0x09, CHR 0x0D, CHR 0x0A]"

text \<open>The header, the payload, the signed text and the signature.\<close>

definition jwt_parts :: "jwt_env \<Rightarrow> string \<Rightarrow> (jwt_header \<times> string \<times> string \<times> string) option" where
  "jwt_parts env token =
     (case split_on (CHR ''.'') token of
        [p0, p1, p2] \<Rightarrow>
          (case (raw_url_decode p0, raw_url_decode p1, raw_url_decode p2) of
             (Some headerBytes, Some payload, Some signature) \<Rightarrow>
               (case je_header env headerBytes of
                  None \<Rightarrow> None
                | Some header \<Rightarrow> Some (header, payload, p0 @ ''.'' @ p1, signature))
           | _ \<Rightarrow> None)
      | _ \<Rightarrow> None)"

definition token_life :: "int \<Rightarrow> int \<Rightarrow> int \<Rightarrow> int \<Rightarrow> int \<Rightarrow> bool" where
  "token_life now exp iat nbf longest \<longleftrightarrow>
     now < unix_time exp \<and> iat > 0 \<and> unix_time iat \<le> now + clockSkew \<and> unix_time nbf \<le> now + clockSkew
     \<and> unix_time exp - unix_time iat \<le> longest"

definition runner_kind :: "jwt_env \<Rightarrow> runner_verifier \<Rightarrow> runner_claims \<Rightarrow> session_kind \<times> string" where
  "runner_kind env v c =
     (if HasPrefix (cl_ActSub c) ''agent:'' then (KindAgent, cl_ActSub c)
      else if HasPrefix (cl_ActSub c) ''user:'' \<and> length (cl_ActSub c) > length ''user:''
      then (case personEmail env (cl_ActEmail c) (rv_PersonDomains v) of
              Some email \<Rightarrow> (KindPerson, email) | None \<Rightarrow> (KindNone, []))
      else (KindNone, []))"

text \<open>The session of a token without its prefix, up to the hash.\<close>

definition claude_session :: "jwt_env \<Rightarrow> runner_verifier \<Rightarrow> int \<Rightarrow> string \<Rightarrow> runner_session option" where
  "claude_session env v now token =
     (case jwt_parts env token of
        None \<Rightarrow> None
      | Some (header, payload, text, signature) \<Rightarrow>
          if length signature \<noteq> 64 \<or> jh_Alg header \<noteq> ''ES256'' \<or> jh_Kid header = [] \<or> jh_Crit header \<noteq> []
             \<or> \<not> je_es256 env (jh_Kid header) text signature then None
          else
            case je_claims env payload of
              None \<Rightarrow> None
            | Some c \<Rightarrow>
                if cl_Issuer c \<noteq> rv_Issuer v \<or> cl_Role c \<noteq> ''session_worker''
                   \<or> \<not> token_life now (cl_Expires c) (cl_Issued c) (cl_NotBefor c) maxLifetime
                   \<or> audience (cl_Audience c) = [] then None
                else
                  (let (kind, subject) = runner_kind env v c;
                       owner = (if HasPrefix (cl_ActSub c) ''agent:'' \<or> HasPrefix (cl_ActSub c) ''user:'' then cl_ActSub c else []) in
                   if \<not> plainSubject subject \<or> \<not> plainSubject owner then None
                   else Some \<lparr>rs_Kind = kind, rs_Subject = subject, rs_Owner = owner, rs_Run = [], rs_Pools = audience (cl_Audience c),
                     rs_Expires = unix_time (cl_Expires c), rs_TokenSHA256 = []\<rparr>))"

definition VerifyClaude :: "jwt_env \<Rightarrow> runner_verifier \<Rightarrow> int \<Rightarrow> string \<Rightarrow> runner_session option" where
  "VerifyClaude env v now raw =
     (if \<not> token_shape raw \<or> (\<not> HasPrefix raw tokenPrefix \<and> HasPrefix raw ''sk-ant-'') then None
      else map_option (\<lambda>s. s\<lparr>rs_TokenSHA256 := je_sha env raw\<rparr>) (claude_session env v now (TrimPrefix raw tokenPrefix)))"

definition cursor_kind :: "jwt_env \<Rightarrow> cursor_verifier \<Rightarrow> cursor_claims \<Rightarrow> session_kind \<times> string \<times> string" where
  "cursor_kind env v c =
     (if HasPrefix (cc_Subject c) ''service_account:'' \<and> length (cc_Subject c) > length ''service_account:''
      then (KindAgent, cc_Subject c, cc_Subject c)
      else if HasPrefix (cc_Subject c) ''user:'' \<and> length (cc_Subject c) > length ''user:''
      then (case personEmail env (cc_Email c) (cv_PersonDomains v) of
              Some email \<Rightarrow> (KindPerson, email, cc_Subject c) | None \<Rightarrow> (KindNone, [], cc_Subject c))
      else (KindNone, [], []))"

definition VerifyCursor :: "jwt_env \<Rightarrow> cursor_verifier \<Rightarrow> int \<Rightarrow> string \<Rightarrow> runner_session option" where
  "VerifyCursor env v now token =
     (if \<not> token_shape token \<or> cv_Audience v = [] \<or> cv_TeamIDs v = [] then None
      else
        case jwt_parts env token of
          None \<Rightarrow> None
        | Some (header, payload, text, signature) \<Rightarrow>
            if jh_Alg header \<noteq> ''RS256'' \<or> jh_Kid header = [] \<or> jh_Crit header \<noteq> []
               \<or> \<not> je_rs256 env (jh_Kid header) text signature then None
            else
              case je_cursor env payload of
                None \<Rightarrow> None
              | Some c \<Rightarrow>
                  if cc_Issuer c \<noteq> cv_Issuer v \<or> \<not> token_life now (cc_Expires c) (cc_Issued c) (cc_NotBefor c) cursorMaxLifetime
                     \<or> \<not> audienceIs (cc_Audience c) (cv_Audience v) \<or> cc_Runtime c \<noteq> ''self_hosted'' \<or> cc_RunID c = []
                     \<or> \<not> str_listed (cv_TeamIDs v) (cc_TeamID c) then None
                  else
                    (let (kind, subject, owner) = cursor_kind env v c in
                     if \<not> plainSubject subject \<or> \<not> plainSubject owner \<or> \<not> plainSubject (cc_RunID c) then None
                     else Some \<lparr>rs_Kind = kind, rs_Subject = subject, rs_Owner = owner, rs_Run = cc_RunID c, rs_Pools = [],
                       rs_Expires = unix_time (cc_Expires c), rs_TokenSHA256 = je_sha env token\<rparr>))"

text \<open>\<open>Verifiers\<close>: either verifier may be missing. \<open>Inl True\<close> is the error of a missing one, \<open>Inl False\<close> a refused token.\<close>

record verifiers =
  vs_Claude :: "runner_verifier option"
  vs_Cursor :: "cursor_verifier option"
  vs_SandboxDomains :: "string list"

definition sum_of :: "'a option \<Rightarrow> bool + 'a" where
  "sum_of r = (case r of None \<Rightarrow> Inl False | Some x \<Rightarrow> Inr x)"

definition verifiers_Verify :: "jwt_env \<Rightarrow> verifiers \<Rightarrow> int \<Rightarrow> string \<Rightarrow> bool + runner_session" where
  "verifiers_Verify env vs now token = (case vs_Claude vs of None \<Rightarrow> Inl True | Some v \<Rightarrow> sum_of (VerifyClaude env v now token))"

definition verifiers_VerifyCursor :: "jwt_env \<Rightarrow> verifiers \<Rightarrow> int \<Rightarrow> string \<Rightarrow> bool + runner_session" where
  "verifiers_VerifyCursor env vs now token = (case vs_Cursor vs of None \<Rightarrow> Inl True | Some v \<Rightarrow> sum_of (VerifyCursor env v now token))"

definition AttestedPerson :: "jwt_env \<Rightarrow> verifiers \<Rightarrow> string \<Rightarrow> string option" where
  "AttestedPerson env vs login =
     (if vs_SandboxDomains vs = [] then None
      else case personEmail env login (vs_SandboxDomains vs) of
        None \<Rightarrow> Some []
      | Some email \<Rightarrow> if plainSubject email then Some email else Some [])"

end
