(* ===== verification/Authorize.thy ===== *)
theory Authorize
  imports RunnerIdentity
begin

text \<open>
  Who stands behind a request (internal/authorize/authorize.go), with the table that pins a session
  token to the first Pod that presents it (internal/store/runner_session.go) and the part of a
  pool's profile that says where its requester comes from (internal/httpcatalog/harness.go).
\<close>

section \<open>Pins\<close>

record pin_row =
  pr_token :: string
  pr_pod :: string
  pr_expires_ms :: int

text \<open>
  The three statements of \<open>BindRunnerSession\<close>, \<open>now\<close> the clock of the database in milliseconds. Each
  commits on its own, so the statements of other requests may fall between them.
\<close>

definition pin_delete :: "int \<Rightarrow> pin_row list \<Rightarrow> pin_row list" where
  "pin_delete now t = filter (\<lambda>r. \<not> pr_expires_ms r \<le> now) t"

definition pin_insert :: "string \<Rightarrow> string \<Rightarrow> int \<Rightarrow> pin_row list \<Rightarrow> pin_row list" where
  "pin_insert token pod expires t =
     (if list_ex (\<lambda>r. pr_token r = token) t then t else t @ [\<lparr>pr_token = token, pr_pod = pod, pr_expires_ms = expires\<rparr>])"

definition pin_select :: "string \<Rightarrow> pin_row list \<Rightarrow> pin_row option" where
  "pin_select token t = find (\<lambda>r. pr_token r = token) t"

section \<open>Profiles\<close>

record harness_identity =
  hi_Kind :: string
  hi_Requester :: "string option"

record hc_pool =
  hp_Identity :: string
  hp_Ceiling :: string
  hp_CCPoolID :: string
  hp_Entitlements :: "string list"
  hp_harness :: "harness_identity option"

definition profile_identity :: "hc_pool \<Rightarrow> harness_identity" where
  "profile_identity p = (case hp_harness p of
       Some h \<Rightarrow> h
     | None \<Rightarrow>
         if hp_Identity p = ''claude-session'' then \<lparr>hi_Kind = ''session-jwt'', hi_Requester = Some ''session-jwt''\<rparr>
         else if hp_Identity p = ''cursor-session'' then \<lparr>hi_Kind = ''session-jwt'', hi_Requester = Some ''cursor-oidc''\<rparr>
         else \<lparr>hi_Kind = ''pod-token'', hi_Requester = None\<rparr>)"

definition RequesterKind :: "harness_identity \<Rightarrow> string" where
  "RequesterKind h = (case hi_Requester h of Some r \<Rightarrow> r | None \<Rightarrow> if hi_Kind h = ''session-jwt'' then ''session-jwt'' else [])"

section \<open>Requesters\<close>

record pod_claims =
  pd_Pod :: string
  pd_ClaimedRun :: string
  pd_AttestedRequester :: string

datatype who_kind = WhoNone | WhoPerson | WhoAgent | WhoWorkload

record requester =
  rq_Kind :: who_kind
  rq_Subject :: string
  rq_TokenSHA256 :: string

definition who_of :: "session_kind \<Rightarrow> who_kind" where
  "who_of k = (case k of KindPerson \<Rightarrow> WhoPerson | KindAgent \<Rightarrow> WhoAgent | KindNone \<Rightarrow> WhoNone)"

section \<open>Programs over the pin table\<close>

text \<open>
  A request as the database sees it: a program of statements, each with its continuation on
  the outcome (whether the deletion succeeded, the Pod that was read), and an answer at the end.
\<close>

datatype pin_prog =
    PinAnswer "requester \<times> string"
  | PinDelete "bool \<Rightarrow> pin_prog"
  | PinInsert string string int pin_prog
  | PinSelect string "string option \<Rightarrow> pin_prog"

text \<open>An insertion that failed shows only in the row that is read afterwards.\<close>

definition BindRunnerSession :: "string \<Rightarrow> string \<Rightarrow> int \<Rightarrow> (string option \<Rightarrow> pin_prog) \<Rightarrow> pin_prog" where
  "BindRunnerSession token pod expires k =
     (if token = [] \<or> pod = [] then k None
      else PinDelete (\<lambda>ok. if \<not> ok then k None else PinInsert token pod expires (PinSelect token k)))"

section \<open>Resolve\<close>

text \<open>
  What the broker has at hand: the verifiers (none when the interface is nil), whether there is a binder
  and whether its database answers, the clock of the broker in nanoseconds since the year 1 and that
  of the database in milliseconds of the Unix epoch.
\<close>

record authorize_env =
  ae_jwt :: jwt_env
  ae_verifiers :: "verifiers option"
  ae_binder :: bool
  ae_db_ok :: bool
  ae_now :: int
  ae_db_now :: int

definition unix_milli :: "int \<Rightarrow> int" where
  "unix_milli t = t div 1000000 - 62135596800000"

definition session_of :: "authorize_env \<Rightarrow> bool \<Rightarrow> string \<Rightarrow> bool + runner_session" where
  "session_of e cursor session = (case ae_verifiers e of
       None \<Rightarrow> Inl True
     | Some vs \<Rightarrow> if cursor then verifiers_VerifyCursor (ae_jwt e) vs (ae_now e) session else verifiers_Verify (ae_jwt e) vs (ae_now e) session)"

definition no_requester :: requester where
  "no_requester = \<lparr>rq_Kind = WhoNone, rq_Subject = [], rq_TokenSHA256 = []\<rparr>"

text \<open>The part for a session that has been verified.\<close>

definition resolve_session :: "authorize_env \<Rightarrow> bool \<Rightarrow> hc_pool \<Rightarrow> pod_claims \<Rightarrow> runner_session \<Rightarrow> pin_prog" where
  "resolve_session e cursor pool claims s =
     (let who = no_requester\<lparr>rq_TokenSHA256 := rs_TokenSHA256 s\<rparr>; pod = pd_Pod claims in
      if \<not> cursor \<and> \<not> InPool s (hp_CCPoolID pool) then PinAnswer (who, ''session_pool'')
      else if cursor \<and> (pd_ClaimedRun claims = [] \<or> rs_Run s \<noteq> pd_ClaimedRun claims) then PinAnswer (who, ''session_run'')
      else if \<not> ae_binder e \<or> pod = [] then PinAnswer (who, ''session_unbindable'')
      else BindRunnerSession (rs_TokenSHA256 s) pod (unix_milli (rs_Expires s)) (\<lambda>answer. case answer of
          None \<Rightarrow> PinAnswer (who, ''session_unbindable'')
        | Some bound \<Rightarrow>
            if bound \<noteq> pod then PinAnswer (who, ''session_pod_mismatch'')
            else if \<not> cursor then PinAnswer (who\<lparr>rq_Kind := who_of (rs_Kind s), rq_Subject := rs_Subject s\<rparr>, [])
            else if rs_Owner s = [] then PinAnswer (who, ''session_token'')
            else BindRunnerSession (''cursor-pod:'' @ pod) (rs_Owner s) (unix_milli (ae_now e + 24 * hour_ns)) (\<lambda>answer. case answer of
                None \<Rightarrow> PinAnswer (who, ''session_unbindable'')
              | Some owner \<Rightarrow>
                  if owner \<noteq> rs_Owner s then PinAnswer (who, ''session_pod_owner'')
                  else PinAnswer (who\<lparr>rq_Kind := who_of (rs_Kind s), rq_Subject := rs_Subject s\<rparr>, []))))"

definition resolve_requester :: "authorize_env \<Rightarrow> hc_pool \<Rightarrow> string \<Rightarrow> pod_claims \<Rightarrow> pin_prog" where
  "resolve_requester e pool session claims =
     (let requester = RequesterKind (profile_identity pool); who = no_requester in
      if pd_AttestedRequester claims \<noteq> [] \<and> requester \<noteq> ''pod-annotation'' then PinAnswer (who, ''requester_unexpected'')
      else if session \<noteq> [] \<and> requester \<noteq> ''session-jwt'' \<and> requester \<noteq> ''cursor-oidc'' then PinAnswer (who, ''session_unexpected'')
      else if requester = [] then PinAnswer (if hp_Identity pool = ''workload'' then who\<lparr>rq_Kind := WhoWorkload\<rparr> else who, [])
      else if requester = ''session-jwt'' \<or> requester = ''cursor-oidc''
      then (if session = [] then PinAnswer (who, [])
            else (let cursor = (requester = ''cursor-oidc'') in
                  case session_of e cursor session of
                    Inl True \<Rightarrow> PinAnswer (who, ''session_unverifiable'')
                  | Inl False \<Rightarrow> PinAnswer (who, ''session_token'')
                  | Inr s \<Rightarrow> resolve_session e cursor pool claims s))
      else if requester = ''pod-annotation''
      then (if pd_AttestedRequester claims = [] then PinAnswer (who, ''requester_missing'')
            else case ae_verifiers e of
              None \<Rightarrow> PinAnswer (who, ''requester_unverifiable'')
            | Some vs \<Rightarrow>
                (case AttestedPerson (ae_jwt e) vs (pd_AttestedRequester claims) of
                   None \<Rightarrow> PinAnswer (who, ''requester_unverifiable'')
                 | Some person \<Rightarrow>
                     PinAnswer (if person \<noteq> [] then who\<lparr>rq_Kind := WhoPerson, rq_Subject := person\<rparr> else who, [])))
      else PinAnswer (who, ''requester_unverifiable''))"

text \<open>One request that has the table to itself: every statement succeeds, or none does.\<close>

primrec pin_alone :: "authorize_env \<Rightarrow> pin_prog \<Rightarrow> pin_row list \<Rightarrow> (requester \<times> string) \<times> pin_row list" where
  "pin_alone e (PinAnswer r) t = (r, t)"
| "pin_alone e (PinDelete k) t = (if ae_db_ok e then pin_alone e (k True) (pin_delete (ae_db_now e) t) else pin_alone e (k False) t)"
| "pin_alone e (PinInsert token pod expires p) t = pin_alone e p (if ae_db_ok e then pin_insert token pod expires t else t)"
| "pin_alone e (PinSelect token k) t = pin_alone e (k (if ae_db_ok e then map_option pr_pod (pin_select token t) else None)) t"

definition Resolve ::
  "authorize_env \<Rightarrow> hc_pool \<Rightarrow> string \<Rightarrow> pod_claims \<Rightarrow> pin_row list \<Rightarrow> (requester \<times> string) \<times> pin_row list" where
  "Resolve e pool session claims t = pin_alone e (resolve_requester e pool session claims) t"

section \<open>Requests that run together\<close>

text \<open>
  Any number of requests against one table. A request arrives with its Pod and its program; then,
  in any order, some request executes its next statement, which may fail. The clock of the database
  is read when a deletion runs.
\<close>

primrec pin_answer :: "pin_prog \<Rightarrow> (requester \<times> string) option" where
  "pin_answer (PinAnswer r) = Some r"
| "pin_answer (PinDelete k) = None"
| "pin_answer (PinInsert token pod expires p) = None"
| "pin_answer (PinSelect token k) = None"

record pin_process =
  pp_pod :: string
  pp_prog :: pin_prog

record pin_state =
  ps_table :: "pin_row list"
  ps_procs :: "pin_process list"

datatype pin_event =
    Arrives authorize_env hc_pool string pod_claims
  | Executes nat int bool

definition pin_stmt :: "int \<Rightarrow> bool \<Rightarrow> pin_prog \<Rightarrow> pin_row list \<Rightarrow> (pin_prog \<times> pin_row list) option" where
  "pin_stmt now ok p t = (case p of
       PinAnswer r \<Rightarrow> None
     | PinDelete k \<Rightarrow> Some (k ok, if ok then pin_delete now t else t)
     | PinInsert token pod expires q \<Rightarrow> Some (q, if ok then pin_insert token pod expires t else t)
     | PinSelect token k \<Rightarrow> Some (k (if ok then map_option pr_pod (pin_select token t) else None), t))"

definition pin_event_step :: "pin_event \<Rightarrow> pin_state \<Rightarrow> pin_state option" where
  "pin_event_step ev s = (case ev of
       Arrives e pool session claims \<Rightarrow>
         Some (s\<lparr>ps_procs := ps_procs s @ [\<lparr>pp_pod = pd_Pod claims, pp_prog = resolve_requester e pool session claims\<rparr>]\<rparr>)
     | Executes i now ok \<Rightarrow>
         if length (ps_procs s) \<le> i then None
         else (case pin_stmt now ok (pp_prog (ps_procs s ! i)) (ps_table s) of
             None \<Rightarrow> None
           | Some (p, t) \<Rightarrow> Some \<lparr>ps_table = t, ps_procs = (ps_procs s)[i := (ps_procs s ! i)\<lparr>pp_prog := p\<rparr>]\<rparr>))"

primrec pin_run :: "pin_event list \<Rightarrow> pin_state \<Rightarrow> pin_state option" where
  "pin_run [] s = Some s"
| "pin_run (ev # evs) s = (case pin_event_step ev s of None \<Rightarrow> None | Some s' \<Rightarrow> pin_run evs s')"

section \<open>Pins hold\<close>

lemma pin_select_delete: "pin_select token t = Some r \<Longrightarrow> now < pr_expires_ms r \<Longrightarrow> pin_select token (pin_delete now t) = Some r"
  by (induction t) (auto simp: pin_select_def pin_delete_def split: if_splits)

lemma pin_select_insert: "pin_select token t = Some r \<Longrightarrow> pin_select token (pin_insert token' pod expires t) = Some r"
proof -
  assume r: "pin_select token t = Some r"
  then have "find (\<lambda>r. pr_token r = token) (t @ u) = Some r" for u unfolding pin_select_def by (induction t) (auto split: if_splits)
  with r show ?thesis by (simp add: pin_select_def pin_insert_def)
qed

lemma pin_select_fresh:
  "pin_select token t = None \<Longrightarrow> pin_select token (pin_insert token pod expires t) = Some \<lparr>pr_token = token, pr_pod = pod, pr_expires_ms = expires\<rparr>"
proof -
  assume none: "pin_select token t = None"
  then have "find (\<lambda>r. pr_token r = token) (t @ u) = find (\<lambda>r. pr_token r = token) u" for u
    unfolding pin_select_def by (induction t) (auto split: if_splits)
  moreover have "\<not> list_ex (\<lambda>r. pr_token r = token) t" using none unfolding pin_select_def by (induction t) (auto split: if_splits)
  ultimately show ?thesis by (simp add: pin_select_def pin_insert_def)
qed

text \<open>
  \<open>late\<close>: a program pins \<open>h\<close> only until \<open>x\<close> or later. \<open>asks\<close>: moreover it admits a requester with that hash only
  after it has read that \<open>h\<close> is pinned to \<open>pod\<close>.
\<close>

primrec late :: "string \<Rightarrow> int \<Rightarrow> pin_prog \<Rightarrow> bool" where
  "late h x (PinAnswer r) = True"
| "late h x (PinDelete k) = (\<forall>ok. late h x (k ok))"
| "late h x (PinInsert token pod expires p) = ((token = h \<longrightarrow> x \<le> expires) \<and> late h x p)"
| "late h x (PinSelect token k) = (\<forall>a. late h x (k a))"

primrec asks :: "string \<Rightarrow> int \<Rightarrow> string \<Rightarrow> pin_prog \<Rightarrow> bool" where
  "asks h x pod (PinAnswer r) = (\<not> (snd r = [] \<and> rq_TokenSHA256 (fst r) = h))"
| "asks h x pod (PinDelete k) = (\<forall>ok. asks h x pod (k ok))"
| "asks h x pod (PinInsert token p expires q) = ((token = h \<longrightarrow> x \<le> expires) \<and> asks h x pod q)"
| "asks h x pod (PinSelect token k) = (\<forall>a. if token = h \<and> a = Some pod then late h x (k a) else asks h x pod (k a))"

definition pins_inv :: "string \<Rightarrow> int \<Rightarrow> pin_state \<Rightarrow> bool" where
  "pins_inv h x s \<longleftrightarrow> (\<forall>r \<in> set (ps_table s). pr_token r = h \<longrightarrow> x \<le> pr_expires_ms r)
     \<and> (\<forall>p \<in> set (ps_procs s). asks h x (pp_pod p) (pp_prog p)
          \<or> late h x (pp_prog p) \<and> map_option pr_pod (pin_select h (ps_table s)) = Some (pp_pod p))"

lemma resolve_session_asks:
  assumes "h \<noteq> []" "\<not> HasPrefix h ''cursor-pod:''" "rs_TokenSHA256 s = h \<Longrightarrow> x \<le> unix_milli (rs_Expires s)"
  shows "asks h x (pd_Pod claims) (resolve_session e cursor pool claims s)"
  using assms
  by (auto simp: resolve_session_def BindRunnerSession_def Let_def no_requester_def HasPrefix_Cons split: option.split)

lemma resolve_requester_asks:
  assumes "h \<noteq> []" "\<not> HasPrefix h ''cursor-pod:''"
    and "\<And>cursor s. session_of e cursor session = Inr s \<Longrightarrow> rs_TokenSHA256 s = h \<Longrightarrow> x \<le> unix_milli (rs_Expires s)"
  shows "asks h x (pd_Pod claims) (resolve_requester e pool session claims)"
  using assms(1) resolve_session_asks [OF assms(1,2) assms(3)]
  by (auto simp: resolve_requester_def Let_def no_requester_def split: sum.split bool.split option.split)

lemma pin_select_mem: "pin_select h t = Some r \<Longrightarrow> r \<in> set t \<and> pr_token r = h"
  by (induction t) (auto simp: pin_select_def split: if_splits)

lemma pin_stmt_keeps_row:
  assumes "pin_stmt now ok p t = Some (q, t')" "pin_select h t = Some r" "now < pr_expires_ms r"
  shows "pin_select h t' = Some r"
  using assms by (auto simp: pin_stmt_def pin_select_insert pin_select_delete split: pin_prog.splits if_splits)

lemma pin_stmt_late: "pin_stmt now ok p t = Some (q, t') \<Longrightarrow> late h x p \<Longrightarrow> late h x q"
  by (cases p) (auto simp: pin_stmt_def)

lemma pin_stmt_asks:
  assumes "pin_stmt now ok p t = Some (q, t')" "asks h x pod p"
  shows "asks h x pod q \<or> late h x q \<and> map_option pr_pod (pin_select h t) = Some pod \<and> t' = t"
proof (cases p)
  case (PinSelect token k)
  let ?a = "if ok then map_option pr_pod (pin_select token t) else None"
  have q: "q = k ?a" "t' = t" using assms(1) unfolding PinSelect pin_stmt_def by simp_all
  have "if token = h \<and> ?a = Some pod then late h x (k ?a) else asks h x pod (k ?a)"
    using assms(2) unfolding PinSelect asks.simps by (rule spec)
  then show ?thesis unfolding q by (metis option.distinct(1))
qed (use assms in \<open>auto simp: pin_stmt_def\<close>)

lemma pin_stmt_rows:
  "pin_stmt now ok p t = Some (q, t') \<Longrightarrow> asks h x pod p \<or> late h x p \<Longrightarrow> r \<in> set t' \<Longrightarrow> pr_token r = h \<Longrightarrow>
     r \<in> set t \<or> x \<le> pr_expires_ms r"
  by (cases p) (auto simp: pin_stmt_def pin_delete_def pin_insert_def split: if_splits)

lemma answer_bound: "pin_answer p = Some (who, []) \<Longrightarrow> rq_TokenSHA256 who = h \<Longrightarrow> \<not> asks h x pod p"
  by (cases p) auto

lemma pins_inv_step:
  assumes "pins_inv h x s" "pin_event_step ev s = Some s'"
    and "\<And>i now ok. ev = Executes i now ok \<Longrightarrow> now < x"
    and "\<And>e pool session claims. ev = Arrives e pool session claims \<Longrightarrow> asks h x (pd_Pod claims) (resolve_requester e pool session claims)"
  shows "pins_inv h x s'"
proof (cases ev)
  case (Executes i now ok)
  then obtain q t' where i: "i < length (ps_procs s)" and q: "pin_stmt now ok (pp_prog (ps_procs s ! i)) (ps_table s) = Some (q, t')"
    and s': "s' = \<lparr>ps_table = t', ps_procs = (ps_procs s)[i := (ps_procs s ! i)\<lparr>pp_prog := q\<rparr>]\<rparr>"
    using assms(2) by (auto simp: pin_event_step_def split: if_splits option.splits)
  let ?bound = "\<lambda>t p. map_option pr_pod (pin_select h t) = Some (pp_pod p)"
  have kept: "?bound t' p" if "?bound (ps_table s) p" for p
  proof -
    from that obtain r where r: "pin_select h (ps_table s) = Some r" "pr_pod r = pp_pod p" by auto
    have "now < pr_expires_ms r"
      using assms(1) pin_select_mem [OF r(1)] assms(3) [OF Executes] unfolding pins_inv_def by force
    with pin_stmt_keeps_row [OF q r(1)] r(2) show ?thesis by simp
  qed
  have old: "asks h x (pp_pod p) (pp_prog p) \<or> late h x (pp_prog p) \<and> ?bound (ps_table s) p" if "p \<in> set (ps_procs s)" for p
    using assms(1) that unfolding pins_inv_def by blast
  let ?p = "ps_procs s ! i"
  have here: "asks h x (pp_pod ?p) q \<or> late h x q \<and> ?bound t' ?p"
    using old [OF nth_mem [OF i]] pin_stmt_late [OF q, of h x] pin_stmt_asks [OF q, of h x] kept [of ?p] by metis
  moreover have "x \<le> pr_expires_ms r" if "r \<in> set t'" "pr_token r = h" for r
    using pin_stmt_rows [OF q _ that] old [OF nth_mem [OF i]] assms(1) that(2) unfolding pins_inv_def by blast
  moreover have "asks h x (pp_pod p) (pp_prog p) \<or> late h x (pp_prog p) \<and> ?bound t' p"
    if "p \<in> set ((ps_procs s)[i := ?p\<lparr>pp_prog := q\<rparr>])" for p
  proof -
    have "p = ?p\<lparr>pp_prog := q\<rparr> \<or> p \<in> set (ps_procs s)" using that set_update_subset_insert by fastforce
    then show ?thesis
    proof
      assume "p \<in> set (ps_procs s)"
      from old [OF this] kept [of p] show ?thesis by blast
    qed (use here in simp)
  qed
  ultimately show ?thesis unfolding s' pins_inv_def pin_state.simps by blast
qed (use assms in \<open>auto simp: pin_event_step_def pins_inv_def\<close>)

lemma pins_inv_run:
  assumes "pin_run evs s = Some s'" "pins_inv h x s"
    and "\<And>i now ok. Executes i now ok \<in> set evs \<Longrightarrow> now < x"
    and "\<And>e pool session claims. Arrives e pool session claims \<in> set evs \<Longrightarrow> asks h x (pd_Pod claims) (resolve_requester e pool session claims)"
  shows "pins_inv h x s'"
  using assms
proof (induction evs arbitrary: s)
  case (Cons ev evs)
  then obtain u where "pin_event_step ev s = Some u" "pin_run evs u = Some s'" by (auto split: option.splits)
  with Cons show ?case using pins_inv_step [of h x s ev u] by auto
qed simp

text \<open>
  Claim C13. A session token works on one Pod only, however the statements of any number of requests fall between each other
  and whichever of them fail: two requests admitted with the same token hash come from the same Pod. This holds as long as the
  clock of the database has not passed the expiry of a pin for that hash: up to \<open>x\<close>, where the deletions ran earlier and the
  sessions with that hash, and the rows for it at the start, end at \<open>x\<close> or later. The hash is not one of the keys
  \<open>cursor-pod:\<close> under which Pods are pinned to their owners.
\<close>

theorem session_stays_on_its_pod:
  assumes "pin_run evs \<lparr>ps_table = t, ps_procs = []\<rparr> = Some s"
    and "\<forall>i now ok. Executes i now ok \<in> set evs \<longrightarrow> now < x"
    and "\<forall>e pool session claims cursor r. Arrives e pool session claims \<in> set evs \<longrightarrow> session_of e cursor session = Inr r \<longrightarrow>
           rs_TokenSHA256 r = h \<longrightarrow> x \<le> unix_milli (rs_Expires r)"
    and "\<forall>r \<in> set t. pr_token r = h \<longrightarrow> x \<le> pr_expires_ms r" "h \<noteq> []" "\<not> HasPrefix h ''cursor-pod:''"
    and "p \<in> set (ps_procs s)" "pin_answer (pp_prog p) = Some (who, [])" "rq_TokenSHA256 who = h"
    and "q \<in> set (ps_procs s)" "pin_answer (pp_prog q) = Some (who', [])" "rq_TokenSHA256 who' = h"
  shows "pp_pod p = pp_pod q"
proof -
  have "pins_inv h x s"
  proof (rule pins_inv_run [OF assms(1)])
    show "pins_inv h x \<lparr>ps_table = t, ps_procs = []\<rparr>" using assms(4) by (simp add: pins_inv_def)
  qed (use assms(2) resolve_requester_asks [OF assms(5,6)] assms(3) in blast)+
  then have bound: "map_option pr_pod (pin_select h (ps_table s)) = Some (pp_pod p)"
    if "p \<in> set (ps_procs s)" "pin_answer (pp_prog p) = Some (who, [])" "rq_TokenSHA256 who = h" for p who
    using that answer_bound unfolding pins_inv_def by blast
  from bound [OF assms(7-9)] bound [OF assms(10-12)] show ?thesis by simp
qed

text \<open>
  A session presented by two Pods at once: both delete, the second Pod inserts first and wins, whichever of them
  reads first; the first Pod is refused.
\<close>

definition sample_token :: string where
  "sample_token = ''AA.AA.'' @ replicate 86 (CHR ''A'')"

definition sample_jwt :: jwt_env where
  "sample_jwt = \<lparr>je_header = (\<lambda>_. Some \<lparr>jh_Alg = ''ES256'', jh_Kid = ''k'', jh_Crit = []\<rparr>),
     je_claims = (\<lambda>_. Some \<lparr>cl_Issuer = ''i'', cl_Audience = AudOne ''ccpool_1'', cl_Expires = 2000, cl_Issued = 900, cl_NotBefor = 900,
       cl_Role = ''session_worker'', cl_ActSub = ''user:7'', cl_ActEmail = ''Ann@corp.io''\<rparr>),
     je_cursor = (\<lambda>_. None), je_es256 = (\<lambda>_ _ _. True), je_rs256 = (\<lambda>_ _ _. False), je_sha = (\<lambda>s. if HasPrefix s ''sk'' then ''h1'' else ''h2''), je_lower = (\<lambda>s. s)\<rparr>"

definition sample_env :: "int \<Rightarrow> authorize_env" where
  "sample_env sec = \<lparr>ae_jwt = sample_jwt, ae_verifiers = Some \<lparr>vs_Claude = Some \<lparr>rv_Issuer = ''i'', rv_PersonDomains = [''corp.io'']\<rparr>,
       vs_Cursor = None, vs_SandboxDomains = []\<rparr>, ae_binder = True, ae_db_ok = True, ae_now = unix_time sec, ae_db_now = sec * 1000\<rparr>"

definition sample_pool :: hc_pool where
  "sample_pool = \<lparr>hp_Identity = ''claude-session'', hp_Ceiling = ''T1'', hp_CCPoolID = ''ccpool_1'', hp_Entitlements = [], hp_harness = None\<rparr>"

definition sample_pod :: "string \<Rightarrow> pod_claims" where
  "sample_pod p = \<lparr>pd_Pod = p, pd_ClaimedRun = [], pd_AttestedRequester = []\<rparr>"

definition sample_race :: "pin_event list" where
  "sample_race = [Arrives (sample_env 1000) sample_pool sample_token (sample_pod ''pod-a''),
     Arrives (sample_env 1001) sample_pool sample_token (sample_pod ''pod-b''),
     Executes 0 1000000 True, Executes 1 1000000 True, Executes 1 0 True, Executes 0 0 False, Executes 0 0 True, Executes 1 0 True]"

lemma sample_race_runs:
  "case pin_run sample_race \<lparr>ps_table = [], ps_procs = []\<rparr> of None \<Rightarrow> False | Some s \<Rightarrow>
     length (ps_procs s) = 2 \<and> pin_answer (pp_prog (ps_procs s ! 1)) = Some (\<lparr>rq_Kind = WhoPerson, rq_Subject = ''ann@corp.io'', rq_TokenSHA256 = ''h2''\<rparr>, [])
     \<and> pp_pod (ps_procs s ! 0) = ''pod-a'' \<and> pp_pod (ps_procs s ! 1) = ''pod-b''"
  by code_simp

lemma sample_session_life:
  assumes "session_of (sample_env n) cursor sample_token = Inr r"
  shows "unix_milli (rs_Expires r) = 2000000"
  using assms
  by (auto simp: session_of_def verifiers_Verify_def verifiers_VerifyCursor_def sample_env_def sample_jwt_def sum_of_def VerifyClaude_def
      claude_session_def unix_milli_def unix_time_def Let_def split: if_splits option.splits prod.splits)

theorem session_stays_on_its_pod_witness:
  "case pin_run sample_race \<lparr>ps_table = [], ps_procs = []\<rparr> of None \<Rightarrow> False | Some s \<Rightarrow>
     pin_answer (pp_prog (ps_procs s ! 1)) = Some (\<lparr>rq_Kind = WhoPerson, rq_Subject = ''ann@corp.io'', rq_TokenSHA256 = ''h2''\<rparr>, [])
     \<and> (\<forall>who. rq_TokenSHA256 who = ''h2'' \<longrightarrow> pin_answer (pp_prog (ps_procs s ! 0)) \<noteq> Some (who, []))"
proof -
  let ?who = "\<lparr>rq_Kind = WhoPerson, rq_Subject = ''ann@corp.io'', rq_TokenSHA256 = ''h2''\<rparr>"
  obtain s where s: "pin_run sample_race \<lparr>ps_table = [], ps_procs = []\<rparr> = Some s"
    and p: "length (ps_procs s) = 2" "pin_answer (pp_prog (ps_procs s ! 1)) = Some (?who, [])" "pp_pod (ps_procs s ! 0) = ''pod-a''" "pp_pod (ps_procs s ! 1) = ''pod-b''"
    using sample_race_runs by (auto split: option.splits)
  have clock: "\<forall>i now ok. Executes i now ok \<in> set sample_race \<longrightarrow> now < 2000000" by (simp add: sample_race_def)
  have life: "\<forall>e pool session claims cursor r. Arrives e pool session claims \<in> set sample_race \<longrightarrow> session_of e cursor session = Inr r \<longrightarrow>
      rs_TokenSHA256 r = ''h2'' \<longrightarrow> 2000000 \<le> unix_milli (rs_Expires r)"
    using sample_session_life by (auto simp: sample_race_def)
  have "pin_answer (pp_prog (ps_procs s ! 0)) \<noteq> Some (who, [])" if "rq_TokenSHA256 who = ''h2''" for who
  proof
    assume "pin_answer (pp_prog (ps_procs s ! 0)) = Some (who, [])"
    then have "pp_pod (ps_procs s ! 1) = pp_pod (ps_procs s ! 0)"
      using session_stays_on_its_pod [OF s clock life _ _ _ _ p(2) _ _ _ that] p(1) by (simp add: HasPrefix_Cons)
    with p show False by simp
  qed
  with s p show ?thesis by simp
qed

section \<open>Two forms of one token\<close>

lemma shape_prefix: "token_shape t \<Longrightarrow> length t \<le> 16374 \<Longrightarrow> token_shape (tokenPrefix @ t)"
  by (auto simp: token_shape_def tokenPrefix_def ContainsAny_def)

lemma TrimPrefix_append: "TrimPrefix (p @ t) p = t"
  by (simp add: TrimPrefix_def)

lemma no_prefix: "\<not> HasPrefix t ''sk-ant-'' \<Longrightarrow> \<not> HasPrefix t tokenPrefix"
  by (auto simp: HasPrefix_iff tokenPrefix_def)

lemma VerifyClaude_prefix:
  assumes "VerifyClaude env v now t = Some s" "\<not> HasPrefix t ''sk-ant-''" "length t \<le> 16374"
  shows "VerifyClaude env v now (tokenPrefix @ t) = Some (s\<lparr>rs_TokenSHA256 := je_sha env (tokenPrefix @ t)\<rparr>)"
proof -
  have shape: "token_shape t" using assms(1) by (auto simp: VerifyClaude_def split: if_splits)
  have trim: "TrimPrefix t tokenPrefix = t" using no_prefix [OF assms(2)] by (simp add: TrimPrefix_def)
  show ?thesis using assms(1) shape_prefix [OF shape assms(3)]
    by (auto simp: VerifyClaude_def trim TrimPrefix_append split: if_splits)
qed

text \<open>What \<open>BindRunnerSession\<close> answers to a request that has the table to itself.\<close>

definition bind_alone :: "authorize_env \<Rightarrow> string \<Rightarrow> string \<Rightarrow> int \<Rightarrow> pin_row list \<Rightarrow> string option \<times> pin_row list" where
  "bind_alone e token pod expires t =
     (if token = [] \<or> pod = [] \<or> \<not> ae_db_ok e then (None, t)
      else (let t' = pin_insert token pod expires (pin_delete (ae_db_now e) t) in (map_option pr_pod (pin_select token t'), t')))"

lemma pin_alone_bind:
  "pin_alone e (BindRunnerSession token pod expires k) t =
     pin_alone e (k (fst (bind_alone e token pod expires t))) (snd (bind_alone e token pod expires t))"
  by (simp add: BindRunnerSession_def bind_alone_def Let_def)

lemma bind_alone_fresh:
  assumes "token \<noteq> []" "pod \<noteq> []" "ae_db_ok e" "pin_select token t = None"
  shows "bind_alone e token pod expires t = (Some pod, pin_insert token pod expires (pin_delete (ae_db_now e) t))"
proof -
  have "pin_select token (pin_delete (ae_db_now e) t) = None" using assms(4) by (induction t) (auto simp: pin_select_def pin_delete_def split: if_splits)
  with assms(1-3) pin_select_fresh [of token "pin_delete (ae_db_now e) t" pod expires] show ?thesis by (simp add: bind_alone_def Let_def)
qed

lemma Resolve_claude:
  assumes "hp_harness pool = None" "hp_Identity pool = ''claude-session''" "ae_verifiers e = Some vs" "vs_Claude vs = Some v"
    and "VerifyClaude (ae_jwt e) v (ae_now e) token = Some s" "InPool s (hp_CCPoolID pool)" "ae_binder e" "ae_db_ok e" "pod \<noteq> []"
    and "rs_TokenSHA256 s \<noteq> []" "pin_select (rs_TokenSHA256 s) t = None"
  shows "fst (Resolve e pool token (sample_pod pod) t) = (\<lparr>rq_Kind = who_of (rs_Kind s), rq_Subject = rs_Subject s, rq_TokenSHA256 = rs_TokenSHA256 s\<rparr>, [])"
    and "snd (Resolve e pool token (sample_pod pod) t)
      = pin_insert (rs_TokenSHA256 s) pod (unix_milli (rs_Expires s)) (pin_delete (ae_db_now e) t)"
proof -
  have ne: "token \<noteq> []" using assms(5) by (auto simp: VerifyClaude_def token_shape_def split: if_splits)
  have kind: "RequesterKind (profile_identity pool) = ''session-jwt''" using assms(1,2) by (simp add: profile_identity_def RequesterKind_def)
  have ses: "session_of e False token = Inr s" using assms(3-5) by (simp add: session_of_def verifiers_Verify_def sum_of_def)
  note bind = bind_alone_fresh [OF assms(10,9,8,11), of "unix_milli (rs_Expires s)"]
  show "fst (Resolve e pool token (sample_pod pod) t) = (\<lparr>rq_Kind = who_of (rs_Kind s), rq_Subject = rs_Subject s, rq_TokenSHA256 = rs_TokenSHA256 s\<rparr>, [])"
    "snd (Resolve e pool token (sample_pod pod) t) = pin_insert (rs_TokenSHA256 s) pod (unix_milli (rs_Expires s)) (pin_delete (ae_db_now e) t)"
    using assms(6,7,9)
    by (simp_all add: Resolve_def resolve_requester_def Let_def kind ses ne resolve_session_def pin_alone_bind bind sample_pod_def no_requester_def)
qed

text \<open>
  Claim C35. The pin can be evaded: the token hash is taken over the value as presented, and a token is accepted
  with and without its prefix, so that one session is admitted on two different Pods, as the same person.
\<close>

theorem session_pin_evaded:
  assumes "VerifyClaude (ae_jwt e) v (ae_now e) t = Some s" "\<not> HasPrefix t ''sk-ant-''" "length t \<le> 16374"
    and "ae_verifiers e = Some vs" "vs_Claude vs = Some v" "ae_binder e" "ae_db_ok e" "InPool s (hp_CCPoolID pool)"
    and "hp_harness pool = None" "hp_Identity pool = ''claude-session''" "a \<noteq> []" "b \<noteq> []"
    and "je_sha (ae_jwt e) t \<noteq> []" "je_sha (ae_jwt e) (tokenPrefix @ t) \<noteq> []" "je_sha (ae_jwt e) t \<noteq> je_sha (ae_jwt e) (tokenPrefix @ t)"
  shows "let r1 = Resolve e pool (tokenPrefix @ t) (sample_pod a) []; r2 = Resolve e pool t (sample_pod b) (snd r1) in
    snd (fst r1) = [] \<and> snd (fst r2) = [] \<and> rq_Kind (fst (fst r1)) = rq_Kind (fst (fst r2)) \<and> rq_Subject (fst (fst r1)) = rq_Subject (fst (fst r2))"
proof -
  let ?s = "s\<lparr>rs_TokenSHA256 := je_sha (ae_jwt e) (tokenPrefix @ t)\<rparr>"
  have sha: "rs_TokenSHA256 s = je_sha (ae_jwt e) t"
    using assms(1) by (auto simp: VerifyClaude_def split: if_splits)
  note r1 = Resolve_claude [OF assms(9,10,4,5) VerifyClaude_prefix [OF assms(1-3)] _ assms(6,7,11), of "[]"]
  have first: "fst (Resolve e pool (tokenPrefix @ t) (sample_pod a) [])
      = (\<lparr>rq_Kind = who_of (rs_Kind s), rq_Subject = rs_Subject s, rq_TokenSHA256 = je_sha (ae_jwt e) (tokenPrefix @ t)\<rparr>, [])"
    "snd (Resolve e pool (tokenPrefix @ t) (sample_pod a) [])
      = pin_insert (je_sha (ae_jwt e) (tokenPrefix @ t)) a (unix_milli (rs_Expires s)) (pin_delete (ae_db_now e) [])"
    using r1 assms(8,14) by (simp_all add: InPool_def pin_select_def)
  have none: "pin_select (rs_TokenSHA256 s) (snd (Resolve e pool (tokenPrefix @ t) (sample_pod a) [])) = None"
    using assms(15) by (simp add: first sha pin_select_def pin_insert_def pin_delete_def)
  have "fst (Resolve e pool t (sample_pod b) (snd (Resolve e pool (tokenPrefix @ t) (sample_pod a) [])))
      = (\<lparr>rq_Kind = who_of (rs_Kind s), rq_Subject = rs_Subject s, rq_TokenSHA256 = rs_TokenSHA256 s\<rparr>, [])"
    by (rule Resolve_claude(1) [OF assms(9,10,4,5,1,8,6,7,12) _ none]) (use assms(13) sha in simp)
  with first show ?thesis by (simp add: Let_def)
qed

theorem session_pin_evaded_witness:
  "let r1 = Resolve (sample_env 1000) sample_pool (tokenPrefix @ sample_token) (sample_pod ''pod-a'') [];
       r2 = Resolve (sample_env 1000) sample_pool sample_token (sample_pod ''pod-b'') (snd r1) in
   snd (fst r1) = [] \<and> snd (fst r2) = [] \<and> rq_Kind (fst (fst r1)) = rq_Kind (fst (fst r2)) \<and> rq_Subject (fst (fst r1)) = rq_Subject (fst (fst r2))"
proof -
  have "case VerifyClaude (ae_jwt (sample_env 1000)) \<lparr>rv_Issuer = ''i'', rv_PersonDomains = [''corp.io'']\<rparr> (ae_now (sample_env 1000)) sample_token of
      None \<Rightarrow> False | Some s \<Rightarrow> InPool s (hp_CCPoolID sample_pool)" by code_simp
  then obtain s where s: "VerifyClaude (ae_jwt (sample_env 1000)) \<lparr>rv_Issuer = ''i'', rv_PersonDomains = [''corp.io'']\<rparr> (ae_now (sample_env 1000)) sample_token = Some s"
      "InPool s (hp_CCPoolID sample_pool)" by (auto split: option.splits)
  show ?thesis
    by (rule session_pin_evaded [OF s(1), of "the (ae_verifiers (sample_env 1000))", OF _ _ _ _ _ _ s(2)])
      (simp_all add: sample_env_def sample_pool_def sample_jwt_def sample_token_def tokenPrefix_def HasPrefix_Cons)
qed

end
