(* ===== verification/Entitlement.thy ===== *)
theory Entitlement
  imports Authorize "HOL-Library.Char_ord" "HOL-Library.List_Lexorder" "HOL-Library.Multiset"
begin

text \<open>
  Whether a request may use a catalog entry (internal/entitlement/entitlement.go): the tier decision, and the
  cache of directory answers with its shared lookups, its budget per person and its purge. One mutex guards the cache, so
  every stretch of code under it is one operation here; a directory call under way is a flight on a heap, and
  what the directory answers is an argument of the operation that ends it. Times are nanoseconds. The
  purge counter is a natural number, since a uint64 that counts refusals does not wrap.
\<close>

section \<open>State\<close>

record person =
  pe_ObjectID :: string
  pe_Enabled :: bool
  pe_MemberOf :: "string list"

record cached_answer =
  ca_person :: person
  ca_fetched :: int

datatype lookup_error = ErrLookupLimited | ErrLookup

text \<open>
  A flight with what its owner keeps on its stack: whom and which groups it asks the directory about, the
  key, the start and the purge counter at the start.
\<close>

record flight =
  fl_subject :: string
  fl_groups :: "string list"
  fl_key :: string
  fl_start :: int
  fl_generation :: nat
  fl_result :: "(lookup_error + person) option"

record ec_conf =
  ec_TTL :: int
  ec_LookupsPerMinute :: int
  ec_RecentAnswer :: int

record ec_cache =
  ec_entries :: "(string, cached_answer) go_map"
  ec_flights :: "(string, nat) go_map"
  ec_spent :: "(string, int list) go_map"
  ec_purges :: nat
  ec_heap :: "flight list"

definition empty_cache :: ec_cache where
  "empty_cache = \<lparr>ec_entries = [], ec_flights = [], ec_spent = [], ec_purges = 0, ec_heap = []\<rparr>"

abbreviation second_ns :: int where "second_ns \<equiv> 1000000000"
definition maxTrackedPeople :: nat where "maxTrackedPeople = 200000"
definition MaxCacheTTL :: int where "MaxCacheTTL = 300 * second_ns"
definition DefaultLookupsPerMinute :: int where "DefaultLookupsPerMinute = 60"
definition DefaultRecentAnswer :: int where "DefaultRecentAnswer = 5 * second_ns"

section \<open>The cache\<close>

fun str_join :: "string \<Rightarrow> string list \<Rightarrow> string" where
  "str_join sep [] = []"
| "str_join sep [x] = x"
| "str_join sep (x # y # ys) = x @ sep @ str_join sep (y # ys)"

definition subject_prefix :: "string \<Rightarrow> string" where
  "subject_prefix subject = subject @ [CHR 0x00]"

definition cache_key :: "string \<Rightarrow> string list \<Rightarrow> string" where
  "cache_key subject groups = subject_prefix subject @ str_join '','' (sort groups)"

definition cache_ttl :: "ec_conf \<Rightarrow> int" where
  "cache_ttl conf = (if ec_TTL conf \<le> 0 \<or> ec_TTL conf > MaxCacheTTL then MaxCacheTTL else ec_TTL conf)"

definition recent_answer :: "ec_conf \<Rightarrow> int" where
  "recent_answer conf = (if ec_RecentAnswer conf \<le> 0 then DefaultRecentAnswer else ec_RecentAnswer conf)"

definition Purge :: "string \<Rightarrow> ec_cache \<Rightarrow> ec_cache" where
  "Purge subject c = c\<lparr>ec_purges := ec_purges c + 1,
     ec_entries := filter (\<lambda>e. \<not> HasPrefix (fst e) (subject_prefix subject)) (ec_entries c),
     ec_flights := filter (\<lambda>e. \<not> HasPrefix (fst e) (subject_prefix subject)) (ec_flights c)\<rparr>"

definition spend :: "ec_conf \<Rightarrow> string \<Rightarrow> int \<Rightarrow> ec_cache \<Rightarrow> bool \<times> ec_cache" where
  "spend conf subject now c =
     (let limit = (if ec_LookupsPerMinute conf \<le> 0 then DefaultLookupsPerMinute else ec_LookupsPerMinute conf);
          spent = (if length (ec_spent c) > maxTrackedPeople then [] else ec_spent c);
          recent = filter (\<lambda>t. now - t < 60 * second_ns) (case map_of spent subject of None \<Rightarrow> [] | Some ts \<Rightarrow> ts) in
      if int (length recent) \<ge> limit then (False, c\<lparr>ec_spent := map_put subject recent spent\<rparr>)
      else (True, c\<lparr>ec_spent := map_put subject (recent @ [now]) spent\<rparr>))"

text \<open>What the first part of \<open>lookup\<close> ends in: an answer with its age, a flight to wait for, or a flight to make.\<close>

datatype ask_result = Answered person int | Limited | Joined nat | Started nat

definition lookup_begin :: "ec_conf \<Rightarrow> string \<Rightarrow> string list \<Rightarrow> bool \<Rightarrow> int \<Rightarrow> ec_cache \<Rightarrow> ask_result \<times> ec_cache" where
  "lookup_begin conf subject groups fresh now c =
     (let ttl = cache_ttl conf; key = cache_key subject groups;
          stored = (case map_of (ec_entries c) key of
            Some e \<Rightarrow> if \<not> fresh \<and> now - ca_fetched e < ttl then Some e else None | None \<Rightarrow> None) in
      case stored of
        Some e \<Rightarrow> (Answered (ca_person e) (now - ca_fetched e), c)
      | None \<Rightarrow>
          (case map_of (ec_flights c) key of
             Some f \<Rightarrow> (Joined f, c)
           | None \<Rightarrow>
               (case spend conf subject now c of
                  (False, c1) \<Rightarrow>
                    (case map_of (ec_entries c) key of
                       Some e \<Rightarrow> if now - ca_fetched e < min (recent_answer conf) ttl
                                 then (Answered (ca_person e) (now - ca_fetched e), c1) else (Limited, c1)
                     | None \<Rightarrow> (Limited, c1))
                | (True, c1) \<Rightarrow>
                    (let f = length (ec_heap c1) in
                     (Started f, c1\<lparr>ec_flights := map_put key f (ec_flights c1),
                        ec_heap := ec_heap c1 @ [\<lparr>fl_subject = subject, fl_groups = sort groups, fl_key = key, fl_start = now, fl_generation = ec_purges c1, fl_result = None\<rparr>]\<rparr>)))))"

text \<open>The second part, when the directory has answered the owner of a flight.\<close>

definition flight_done :: "nat \<Rightarrow> lookup_error + person \<Rightarrow> ec_cache \<Rightarrow> ec_cache option" where
  "flight_done f res c =
     (if f < length (ec_heap c) \<and> fl_result (ec_heap c ! f) = None
      then (let fl = ec_heap c ! f; key = fl_key fl;
                c1 = c\<lparr>ec_heap := (ec_heap c)[f := fl\<lparr>fl_result := Some res\<rparr>],
                       ec_flights := (if map_of (ec_flights c) key = Some f then map_del key (ec_flights c) else ec_flights c)\<rparr> in
            Some (case res of
                Inl _ \<Rightarrow> c1
              | Inr p \<Rightarrow>
                  if ec_purges c = fl_generation fl
                  then c1\<lparr>ec_entries := map_put key \<lparr>ca_person = p, ca_fetched = fl_start fl\<rparr>
                         (if length (ec_entries c) > maxTrackedPeople then [] else ec_entries c)\<rparr>
                  else c1))
      else None)"

text \<open>What \<open>lookup\<close> returns once a flight has ended.\<close>

definition flight_answer :: "nat \<Rightarrow> ec_cache \<Rightarrow> (lookup_error + person \<times> int) option" where
  "flight_answer f c = map_option (\<lambda>r. case r of Inl e \<Rightarrow> Inl e | Inr p \<Rightarrow> Inr (p, 0)) (fl_result (ec_heap c ! f))"

section \<open>Any operation\<close>

datatype ec_label = EAsk string "string list" bool int | EDone nat "lookup_error + person" | EPurge string

fun ec_exec :: "ec_conf \<Rightarrow> ec_label \<Rightarrow> ec_cache \<Rightarrow> ec_cache option" where
  "ec_exec conf (EAsk subject groups fresh now) c = Some (snd (lookup_begin conf subject groups fresh now c))"
| "ec_exec conf (EDone f res) c = flight_done f res c"
| "ec_exec conf (EPurge subject) c = Some (Purge subject c)"

fun ec_run :: "ec_conf \<Rightarrow> ec_label list \<Rightarrow> ec_cache \<Rightarrow> ec_cache option" where
  "ec_run conf [] c = Some c"
| "ec_run conf (l # ls) c = (case ec_exec conf l c of None \<Rightarrow> None | Some c' \<Rightarrow> ec_run conf ls c')"

interpretation ec: guarded_runs "ec_exec conf" "ec_run conf" for conf
  by unfold_locales simp_all

section \<open>The decision\<close>

definition Tier :: "string \<Rightarrow> nat option" where
  "Tier t = (if t = [] \<or> t = ''T0'' then Some 0 else if t = ''T1'' then Some 1 else if t = ''T2'' then Some 2 else None)"

record catalog_entry =
  en_Tier :: string
  en_Requires :: "string list"

record entitlement_decision =
  de_Allowed :: bool
  de_Outcome :: string
  de_Tier :: string
  de_Groups :: "string list"
  de_ObjectID :: string
  de_CacheAge :: int

definition str_subset :: "string list \<Rightarrow> string list \<Rightarrow> bool" where
  "str_subset want have \<longleftrightarrow> list_all (\<lambda>w. w \<in> set have) want"

text \<open>
  \<open>lookup\<close> is what \<open>Lookup\<close> or, with the flag, \<open>Fresh\<close> returns for a subject and its groups.
  With the decision comes whether the person is purged from the cache.
\<close>

definition Decide ::
  "(bool \<Rightarrow> string \<Rightarrow> string list \<Rightarrow> lookup_error + person \<times> int) \<Rightarrow> bool \<Rightarrow> hc_pool \<Rightarrow> catalog_entry \<Rightarrow> requester \<Rightarrow> entitlement_decision \<times> bool" where
  "Decide lookup recheck pool entry who =
     (let d = \<lparr>de_Allowed = False, de_Outcome = [], de_Tier = (if en_Tier entry = [] then ''T0'' else en_Tier entry), de_Groups = en_Requires entry,
            de_ObjectID = [], de_CacheAge = 0\<rparr> in
      if hp_Ceiling pool = ''external'' then (d\<lparr>de_Outcome := ''pool_external''\<rparr>, False)
      else
        case (Tier (en_Tier entry), Tier (hp_Ceiling pool)) of
          (Some want, Some ceiling) \<Rightarrow>
            if want > ceiling then (d\<lparr>de_Outcome := ''pool_ceiling''\<rparr>, False)
            else if want = 0 then (d\<lparr>de_Allowed := True, de_Outcome := ''t0''\<rparr>, False)
            else if hp_Identity pool = ''workload''
            then (if want \<ge> 2 \<or> \<not> str_subset (en_Requires entry) (hp_Entitlements pool) then (d\<lparr>de_Outcome := ''workload_not_entitled''\<rparr>, False)
                  else (d\<lparr>de_Allowed := True, de_Outcome := ''workload_entitled''\<rparr>, False))
            else if hp_Identity pool \<notin> set [''claude-session'', ''cursor-session'', ''attested-person'']
            then (d\<lparr>de_Outcome := ''no_identity''\<rparr>, False)
            else if rq_Kind who \<noteq> WhoPerson \<or> rq_Subject who = [] then (d\<lparr>de_Outcome := ''no_person''\<rparr>, False)
            else if en_Requires entry = [] then (d\<lparr>de_Outcome := ''entitlement_config''\<rparr>, False)
            else
              (let fresh = (want \<ge> 2 \<and> \<not> recheck) in
               case lookup fresh (rq_Subject who) (en_Requires entry) of
                 Inl ErrLookupLimited \<Rightarrow> (d\<lparr>de_Outcome := ''entitlement_rate_limited''\<rparr>, False)
               | Inl ErrLookup \<Rightarrow> (d\<lparr>de_Outcome := ''entitlement_unavailable''\<rparr>, recheck)
               | Inr (p, age) \<Rightarrow>
                   if \<not> pe_Enabled p
                   then (d\<lparr>de_CacheAge := age, de_ObjectID := pe_ObjectID p, de_Outcome := ''account_disabled''\<rparr>, recheck \<or> fresh)
                   else if \<not> str_subset (en_Requires entry) (pe_MemberOf p)
                   then (d\<lparr>de_CacheAge := age, de_ObjectID := pe_ObjectID p, de_Outcome := ''not_entitled''\<rparr>, recheck \<or> fresh)
                   else (d\<lparr>de_CacheAge := age, de_ObjectID := pe_ObjectID p, de_Allowed := True, de_Outcome := ''entitled''\<rparr>, False))
        | _ \<Rightarrow> (d\<lparr>de_Outcome := ''entitlement_config''\<rparr>, False))"

section \<open>Where answers come from\<close>

definition from_flight :: "nat \<Rightarrow> ec_cache \<Rightarrow> string \<Rightarrow> person \<Rightarrow> int \<Rightarrow> bool" where
  "from_flight n c key p start \<longleftrightarrow> (\<exists>f. n \<le> f \<and> f < length (ec_heap c)
     \<and> fl_key (ec_heap c ! f) = key \<and> fl_result (ec_heap c ! f) = Some (Inr p) \<and> fl_start (ec_heap c ! f) = start)"

text \<open>
  \<open>K\<close> are keys whose answers and flights are all from flight \<open>n\<close> on: all keys from the first
  flight, and those of a person from the purge of that person.
\<close>

definition answers_ok :: "nat \<Rightarrow> (string \<Rightarrow> bool) \<Rightarrow> ec_cache \<Rightarrow> bool" where
  "answers_ok n K c \<longleftrightarrow>
     (\<forall>key e. K key \<longrightarrow> map_of (ec_entries c) key = Some e \<longrightarrow> from_flight n c key (ca_person e) (ca_fetched e))
     \<and> (\<forall>key f. map_of (ec_flights c) key = Some f \<longrightarrow> f < length (ec_heap c) \<and> fl_key (ec_heap c ! f) = key
          \<and> fl_result (ec_heap c ! f) = None \<and> (K key \<longrightarrow> n \<le> f))
     \<and> (\<forall>f < length (ec_heap c). fl_generation (ec_heap c ! f) \<le> ec_purges c
          \<and> (f < n \<and> K (fl_key (ec_heap c ! f)) \<and> fl_result (ec_heap c ! f) = None \<longrightarrow> fl_generation (ec_heap c ! f) < ec_purges c))
     \<and> n \<le> length (ec_heap c)"

lemma answers_empty: "answers_ok 0 K empty_cache"
  by (simp add: answers_ok_def empty_cache_def)

lemma from_flight_snoc: "from_flight n c key p start \<Longrightarrow> ec_heap c' = ec_heap c @ xs \<Longrightarrow> from_flight n c' key p start"
  unfolding from_flight_def by (auto simp: nth_append intro: trans_less_add1)

lemma spend_sel [simp]:
  "ec_entries (snd (spend conf s now c)) = ec_entries c" "ec_flights (snd (spend conf s now c)) = ec_flights c"
  "ec_heap (snd (spend conf s now c)) = ec_heap c" "ec_purges (snd (spend conf s now c)) = ec_purges c"
  by (simp_all add: spend_def Let_def)

lemma answers_cong:
  "ec_entries c' = ec_entries c \<Longrightarrow> ec_flights c' = ec_flights c \<Longrightarrow> ec_heap c' = ec_heap c \<Longrightarrow> ec_purges c' = ec_purges c
     \<Longrightarrow> answers_ok n K c' = answers_ok n K c"
  by (simp add: answers_ok_def from_flight_def)

lemma answers_start:
  assumes "answers_ok n K c" "map_of (ec_flights c) key = None"
  shows "answers_ok n K (c\<lparr>ec_flights := map_put key (length (ec_heap c)) (ec_flights c),
    ec_heap := ec_heap c @ [\<lparr>fl_subject = s, fl_groups = gs, fl_key = key, fl_start = now, fl_generation = ec_purges c, fl_result = None\<rparr>]\<rparr>)" (is "answers_ok n K ?c")
proof -
  have ff: "from_flight n c k p s \<Longrightarrow> from_flight n ?c k p s" for k p s by (rule from_flight_snoc) simp_all
  show ?thesis using assms ff unfolding answers_ok_def by (auto simp: nth_append less_Suc_eq)
qed

lemma lookup_begin_cases:
  "snd (lookup_begin conf s g fresh now c) = c
   \<or> snd (lookup_begin conf s g fresh now c) = snd (spend conf s now c)
   \<or> map_of (ec_flights c) (cache_key s g) = None
     \<and> snd (lookup_begin conf s g fresh now c) = (let c1 = snd (spend conf s now c) in
       c1\<lparr>ec_flights := map_put (cache_key s g) (length (ec_heap c1)) (ec_flights c1),
          ec_heap := ec_heap c1 @ [\<lparr>fl_subject = s, fl_groups = sort g, fl_key = cache_key s g, fl_start = now, fl_generation = ec_purges c1, fl_result = None\<rparr>]\<rparr>)"
  by (cases "spend conf s now c") (auto simp: lookup_begin_def Let_def split: option.splits if_splits bool.splits)

lemma answers_ask: "answers_ok n K c \<Longrightarrow> answers_ok n K (snd (lookup_begin conf s g fresh now c))"
  using lookup_begin_cases [of conf s g fresh now c] answers_cong [of "snd (spend conf s now c)" c n K]
    answers_start [of n K "snd (spend conf s now c)" "cache_key s g" s "sort g" now]
  by (auto simp: Let_def)

lemma answers_done:
  assumes "answers_ok n K c" "flight_done f res c = Some c'"
  shows "answers_ok n K c'"
proof -
  let ?fl = "ec_heap c ! f"
  let ?fl' = "?fl\<lparr>fl_result := Some res\<rparr>"
  from assms(2) have f: "f < length (ec_heap c)" "fl_result ?fl = None" by (auto simp: flight_done_def split: if_splits)
  have heap: "ec_heap c' = (ec_heap c)[f := ?fl']" and purges: "ec_purges c' = ec_purges c"
    and flights: "ec_flights c' = (if map_of (ec_flights c) (fl_key ?fl) = Some f then map_del (fl_key ?fl) (ec_flights c) else ec_flights c)"
    and entries: "ec_entries c' = ec_entries c \<or> (\<exists>p. res = Inr p \<and> ec_purges c = fl_generation ?fl
      \<and> (\<exists>m. (m = [] \<or> m = ec_entries c) \<and> ec_entries c' = map_put (fl_key ?fl) \<lparr>ca_person = p, ca_fetched = fl_start ?fl\<rparr> m))"
    using assms(2) by (auto simp: flight_done_def Let_def split: if_splits sum.splits)
  have nth: "ec_heap c' ! g = (if g = f then ?fl' else ec_heap c ! g)" for g using f(1) by (simp add: heap)
  have len: "length (ec_heap c') = length (ec_heap c)" by (simp add: heap)
  have keep: "from_flight n c' key p st" if "from_flight n c key p st" for key p st
  proof -
    from that obtain g where g: "n \<le> g" "g < length (ec_heap c)" "fl_key (ec_heap c ! g) = key" "fl_result (ec_heap c ! g) = Some (Inr p)"
      "fl_start (ec_heap c ! g) = st" by (auto simp: from_flight_def)
    then have "g \<noteq> f" using f(2) by auto
    with g show ?thesis unfolding from_flight_def by (intro exI [of _ g]) (simp add: nth len)
  qed
  have new: "from_flight n c' (fl_key ?fl) p (fl_start ?fl)" if "res = Inr p" "ec_purges c = fl_generation ?fl" "K (fl_key ?fl)" for p
  proof -
    have "n \<le> f" using assms(1) f that(2,3) unfolding answers_ok_def by (metis less_irrefl not_less)
    then show ?thesis unfolding from_flight_def using f(1) that(1) by (intro exI [of _ f]) (simp add: nth len)
  qed
  have "from_flight n c' key (ca_person e) (ca_fetched e)" if "K key" "map_of (ec_entries c') key = Some e" for key e
    using entries
  proof
    assume "ec_entries c' = ec_entries c"
    with that assms(1) show ?thesis by (intro keep) (simp add: answers_ok_def)
  next
    assume "\<exists>p. res = Inr p \<and> ec_purges c = fl_generation ?fl
      \<and> (\<exists>m. (m = [] \<or> m = ec_entries c) \<and> ec_entries c' = map_put (fl_key ?fl) \<lparr>ca_person = p, ca_fetched = fl_start ?fl\<rparr> m)"
    then obtain p m where p: "res = Inr p" "ec_purges c = fl_generation ?fl" "m = [] \<or> m = ec_entries c"
      "ec_entries c' = map_put (fl_key ?fl) \<lparr>ca_person = p, ca_fetched = fl_start ?fl\<rparr> m" by blast
    show ?thesis
    proof (cases "key = fl_key ?fl")
      case True
      with that p new show ?thesis by auto
    next
      case False
      with that p have "map_of (ec_entries c) key = Some e" by auto
      with that(1) assms(1) show ?thesis by (intro keep) (simp add: answers_ok_def)
    qed
  qed
  moreover have "g < length (ec_heap c') \<and> fl_key (ec_heap c' ! g) = key \<and> fl_result (ec_heap c' ! g) = None \<and> (K key \<longrightarrow> n \<le> g)"
    if "map_of (ec_flights c') key = Some g" for key g
  proof -
    have g: "map_of (ec_flights c) key = Some g" using that by (auto simp: flights split: if_splits)
    with assms(1) have *: "g < length (ec_heap c) \<and> fl_key (ec_heap c ! g) = key \<and> fl_result (ec_heap c ! g) = None \<and> (K key \<longrightarrow> n \<le> g)"
      by (simp add: answers_ok_def)
    have "g \<noteq> f" using that g * by (auto simp: flights split: if_splits)
    with * show ?thesis by (simp add: nth len)
  qed
  moreover have "n \<le> length (ec_heap c')" using assms(1) by (simp add: answers_ok_def len)
  moreover have "fl_generation (ec_heap c' ! g) \<le> ec_purges c' \<and> (g < n \<and> K (fl_key (ec_heap c' ! g)) \<and> fl_result (ec_heap c' ! g) = None
      \<longrightarrow> fl_generation (ec_heap c' ! g) < ec_purges c')" if "g < length (ec_heap c')" for g
    using assms(1) that f by (cases "g = f") (auto simp: answers_ok_def nth len purges)
  ultimately show ?thesis unfolding answers_ok_def by blast
qed

lemma map_of_filter_key: "map_of (filter (\<lambda>e. P (fst e)) m) k = (if P k then map_of m k else None)"
  by (induction m) auto

lemma answers_purge: "answers_ok n K c \<Longrightarrow> answers_ok n K (Purge s c)"
  unfolding answers_ok_def Purge_def from_flight_def
  by (auto simp: map_of_filter_key [of "\<lambda>k. \<not> HasPrefix k (subject_prefix s)"] le_SucI less_SucI split: if_splits)

lemma answers_after_purge: "answers_ok n (\<lambda>_. True) c \<Longrightarrow> answers_ok (length (ec_heap c)) (\<lambda>k. HasPrefix k (subject_prefix s)) (Purge s c)"
  unfolding answers_ok_def Purge_def from_flight_def
  by (auto simp: map_of_filter_key [of "\<lambda>k. \<not> HasPrefix k (subject_prefix s)"] le_SucI less_Suc_eq_le split: if_splits)

lemma answers_exec: "answers_ok n K c \<Longrightarrow> ec_exec conf l c = Some c' \<Longrightarrow> answers_ok n K c'"
  by (cases l) (auto simp: answers_ask answers_purge elim: answers_done)

lemma answers_run: "answers_ok n K c \<Longrightarrow> ec_run conf ls c = Some c' \<Longrightarrow> answers_ok n K c'"
  by (rule ec.run_keeps [of ls "answers_ok n K" conf]) (rule answers_exec)

lemma ask_answer:
  assumes "answers_ok n K c" "lookup_begin conf s g fresh now c = (r, c')" "K (cache_key s g)"
  shows "r = Answered p age \<Longrightarrow> from_flight n c (cache_key s g) p (now - age) \<and> age < cache_ttl conf \<and> (fresh \<longrightarrow> age < recent_answer conf)"
    and "r = Joined f \<Longrightarrow> n \<le> f \<and> f < length (ec_heap c) \<and> fl_key (ec_heap c ! f) = cache_key s g \<and> fl_result (ec_heap c ! f) = None"
proof -
  have ent: "map_of (ec_entries c) (cache_key s g) = Some e \<Longrightarrow> from_flight n c (cache_key s g) (ca_person e) (ca_fetched e)" for e
    using assms(1,3) by (simp add: answers_ok_def)
  show "from_flight n c (cache_key s g) p (now - age) \<and> age < cache_ttl conf \<and> (fresh \<longrightarrow> age < recent_answer conf)" if "r = Answered p age"
    using assms(2) that ent
    by (cases "spend conf s now c") (auto simp: lookup_begin_def Let_def split: option.splits if_splits bool.splits)
  show "n \<le> f \<and> f < length (ec_heap c) \<and> fl_key (ec_heap c ! f) = cache_key s g \<and> fl_result (ec_heap c ! f) = None" if "r = Joined f"
    using assms that
    by (cases "spend conf s now c") (auto simp: lookup_begin_def Let_def answers_ok_def split: option.splits if_splits bool.splits)
qed

lemma key_prefix: "HasPrefix (cache_key s g) (subject_prefix s)"
  by (simp add: cache_key_def)

lemma cache_ttl_bound: "0 < cache_ttl conf" "cache_ttl conf \<le> MaxCacheTTL"
  by (auto simp: cache_ttl_def MaxCacheTTL_def)


section \<open>Composition\<close>

lemma Decide_person:
  assumes "de_Allowed (fst (Decide lookup recheck pool entry who))" "Tier (en_Tier entry) = Some want" "0 < want"
    and "hp_Identity pool \<noteq> ''workload''"
  shows "rq_Kind who = WhoPerson" "\<exists>p age. lookup (2 \<le> want \<and> \<not> recheck) (rq_Subject who) (en_Requires entry) = Inr (p, age)
    \<and> pe_Enabled p \<and> en_Requires entry \<noteq> [] \<and> set (en_Requires entry) \<subseteq> set (pe_MemberOf p)"
  using assms by (auto simp: Decide_def Let_def str_subset_def list_all_iff split: if_splits option.splits sum.splits lookup_error.splits prod.splits)

lemma runner_kind_person: "runner_kind env v c = (KindPerson, s) \<Longrightarrow> personEmail env (cl_ActEmail c) (rv_PersonDomains v) = Some s"
  by (auto simp: runner_kind_def split: if_splits option.splits)

lemma VerifyClaude_person:
  assumes "VerifyClaude env v now session = Some s" "rs_Kind s = KindPerson"
  shows "rs_TokenSHA256 s = je_sha env session"
    and "\<exists>header payload text signature c. jwt_parts env (TrimPrefix session tokenPrefix) = Some (header, payload, text, signature)
      \<and> je_es256 env (jh_Kid header) text signature \<and> je_claims env payload = Some c \<and> cl_Issuer c = rv_Issuer v
      \<and> now < unix_time (cl_Expires c) \<and> rs_Pools s = audience (cl_Audience c)
      \<and> personEmail env (cl_ActEmail c) (rv_PersonDomains v) = Some (rs_Subject s)"
proof -
  from assms obtain s0 where s0: "claude_session env v now (TrimPrefix session tokenPrefix) = Some s0" "s = s0\<lparr>rs_TokenSHA256 := je_sha env session\<rparr>"
    by (auto simp: VerifyClaude_def split: if_splits)
  then show "rs_TokenSHA256 s = je_sha env session" by simp
  have "rs_Kind s0 = KindPerson" using assms(2) s0(2) by simp
  with s0(1) have "\<exists>header payload text signature c. jwt_parts env (TrimPrefix session tokenPrefix) = Some (header, payload, text, signature)
      \<and> je_es256 env (jh_Kid header) text signature \<and> je_claims env payload = Some c \<and> cl_Issuer c = rv_Issuer v
      \<and> now < unix_time (cl_Expires c) \<and> rs_Pools s0 = audience (cl_Audience c)
      \<and> runner_kind env v c = (KindPerson, rs_Subject s0)"
    by (auto simp: claude_session_def token_life_def Let_def split: option.splits prod.splits if_splits)
  then show "\<exists>header payload text signature c. jwt_parts env (TrimPrefix session tokenPrefix) = Some (header, payload, text, signature)
      \<and> je_es256 env (jh_Kid header) text signature \<and> je_claims env payload = Some c \<and> cl_Issuer c = rv_Issuer v
      \<and> now < unix_time (cl_Expires c) \<and> rs_Pools s = audience (cl_Audience c)
      \<and> personEmail env (cl_ActEmail c) (rv_PersonDomains v) = Some (rs_Subject s)"
    using s0(2) runner_kind_person by fastforce
qed

lemma Resolve_claude_person:
  assumes "Resolve e pool session claims t = ((who, []), t')" "RequesterKind (profile_identity pool) = ''session-jwt''" "rq_Kind who = WhoPerson"
  obtains vs v s r where "ae_verifiers e = Some vs" "vs_Claude vs = Some v" "VerifyClaude (ae_jwt e) v (ae_now e) session = Some s"
    "rs_Kind s = KindPerson" "rs_Subject s = rq_Subject who" "InPool s (hp_CCPoolID pool)"
    "pin_select (rs_TokenSHA256 s) t' = Some r" "pr_pod r = pd_Pod claims"
proof -
  have "rq_Kind (fst (fst (pin_alone e (PinAnswer r) t))) = rq_Kind (fst r)" for r by simp
  with assms obtain s where s: "session_of e False session = Inr s" "pin_alone e (resolve_session e False pool claims s) t = ((who, []), t')"
    by (auto simp: Resolve_def resolve_requester_def Let_def no_requester_def split: if_splits sum.splits bool.splits)
  from s(1) obtain vs v where v: "ae_verifiers e = Some vs" "vs_Claude vs = Some v" "VerifyClaude (ae_jwt e) v (ae_now e) session = Some s"
    by (auto simp: session_of_def verifiers_Verify_def sum_of_def split: option.splits)
  let ?b = "bind_alone e (rs_TokenSHA256 s) (pd_Pod claims) (unix_milli (rs_Expires s)) t"
  from s(2) have b: "fst ?b = Some (pd_Pod claims)" "t' = snd ?b"
      "InPool s (hp_CCPoolID pool)" "rq_Kind who = who_of (rs_Kind s)" "rq_Subject who = rs_Subject s"
    by (auto simp: resolve_session_def Let_def no_requester_def pin_alone_bind split: if_splits option.splits)
  have "rs_Kind s = KindPerson" using b(4) assms(3) by (cases "rs_Kind s") (simp_all add: who_of_def)
  moreover obtain r where "pin_select (rs_TokenSHA256 s) t' = Some r" "pr_pod r = pd_Pod claims"
    using b(1,2) by (auto simp: bind_alone_def Let_def split: if_splits)
  ultimately show thesis using that [OF v] b by simp
qed

section \<open>Whom a key stands for\<close>

text \<open>Questions the key can tell apart: no NUL in the person, at least one group, and no comma in a group.\<close>

definition plain_question :: "string \<Rightarrow> string list \<Rightarrow> bool" where
  "plain_question subject groups \<longleftrightarrow> CHR 0x00 \<notin> set subject \<and> groups \<noteq> [] \<and> (\<forall>g \<in> set groups. CHR '','' \<notin> set g)"

lemma sort_Nil_iff: "sort xs = [] \<longleftrightarrow> xs = []"
  by (metis length_0_conv length_sort)

lemma split_on_join: "xs \<noteq> [] \<Longrightarrow> \<forall>x \<in> set xs. b \<notin> set x \<Longrightarrow> split_on b (str_join [b] xs) = xs"
  by (induction "[b]" xs rule: str_join.induct) (simp_all add: split_on_no_sep split_on_append)

lemma subject_prefix_inj:
  "CHR 0x00 \<notin> set s \<Longrightarrow> CHR 0x00 \<notin> set s' \<Longrightarrow> subject_prefix s @ a = subject_prefix s' @ b \<Longrightarrow> s = s' \<and> a = b"
  by (auto simp: subject_prefix_def append_eq_append_conv2 append_eq_Cons_conv Cons_eq_append_conv)

lemma cache_key_inj:
  assumes "plain_question s g" "plain_question s' g'" "cache_key s g = cache_key s' g'"
  shows "s = s' \<and> mset g = mset g'"
proof -
  have "s = s' \<and> str_join '','' (sort g) = str_join '','' (sort g')"
    using subject_prefix_inj [of s s'] assms unfolding cache_key_def plain_question_def by blast
  moreover have "split_on (CHR '','') (str_join '','' (sort x)) = sort x" if "plain_question y x" for x y
    using that by (intro split_on_join) (auto simp: plain_question_def sort_Nil_iff)
  ultimately show ?thesis using assms(1,2) by (metis mset_sort)
qed

text \<open>Every flight asks the directory the question its key stands for.\<close>

definition flight_plain :: "flight \<Rightarrow> bool" where
  "flight_plain fl \<longleftrightarrow> fl_key fl = cache_key (fl_subject fl) (fl_groups fl) \<and> plain_question (fl_subject fl) (fl_groups fl)"

lemma flights_plain_exec:
  assumes "\<forall>fl \<in> set (ec_heap c). flight_plain fl" "ec_exec conf l c = Some c'"
    and "\<And>s g fresh now. l = EAsk s g fresh now \<Longrightarrow> plain_question s g"
  shows "\<forall>fl \<in> set (ec_heap c'). flight_plain fl"
proof (cases l)
  case (EAsk s g fresh now)
  then have c': "c' = snd (lookup_begin conf s g fresh now c)" using assms(2) by simp
  have "flight_plain \<lparr>fl_subject = s, fl_groups = sort g, fl_key = cache_key s g, fl_start = now, fl_generation = n, fl_result = None\<rparr>" for n
    using assms(3) [OF EAsk] by (auto simp: flight_plain_def plain_question_def cache_key_def sort_Nil_iff sorted_sort_id)
  then show ?thesis using assms(1) lookup_begin_cases [of conf s g fresh now c] unfolding c' by (auto simp: Let_def)
next
  case (EDone f res)
  then have "flight_done f res c = Some c'" using assms(2) by simp
  then have f: "f < length (ec_heap c)" and h: "ec_heap c' = (ec_heap c)[f := (ec_heap c ! f)\<lparr>fl_result := Some res\<rparr>]"
    by (auto simp: flight_done_def Let_def split: if_splits sum.splits)
  have "flight_plain ((ec_heap c ! f)\<lparr>fl_result := Some res\<rparr>)" using assms(1) nth_mem [OF f] by (simp add: flight_plain_def)
  with assms(1) show ?thesis unfolding h by (auto dest!: set_update_subset_insert [THEN subsetD])
qed (use assms in \<open>auto simp: Purge_def\<close>)

lemma flights_plain_run:
  "ec_run conf ls c = Some c' \<Longrightarrow> \<forall>fl \<in> set (ec_heap c). flight_plain fl \<Longrightarrow>
     \<forall>s g fresh now. EAsk s g fresh now \<in> set ls \<longrightarrow> plain_question s g \<Longrightarrow> \<forall>fl \<in> set (ec_heap c'). flight_plain fl"
proof (induction ls arbitrary: c)
  case (Cons l ls)
  then obtain u where u: "ec_exec conf l c = Some u" "ec_run conf ls u = Some c'" by (auto split: option.splits)
  have "\<forall>fl \<in> set (ec_heap u). flight_plain fl"
    by (rule flights_plain_exec [OF Cons.prems(2) u(1)]) (use Cons.prems(3) in auto)
  then show ?case by (rule Cons.IH [OF u(2)]) (use Cons.prems(3) in auto)
qed simp

lemma flight_question:
  assumes "flight_plain fl" "fl_key fl = cache_key s g" "plain_question s g"
  shows "fl_subject fl = s \<and> mset (fl_groups fl) = mset g"
  using cache_key_inj [of "fl_subject fl" "fl_groups fl" s g] assms by (simp add: flight_plain_def)

section \<open>Properties\<close>

text \<open>
  Claim C19. Every answer of the cache comes from a directory call for the same person and the same groups:
  one that is stored is younger than the time to live, at most five minutes, and one that answers a fresh
  question is also younger than the allowance for a spent budget; otherwise the asker waits for a call about the same
  person and groups that is still under way. The questions asked so far have no NUL in the person, at
  least one group and no comma in a group, which is what the key of the cache relies on.
\<close>

theorem cache_answers_fresh:
  assumes "ec_run conf ls empty_cache = Some c" "lookup_begin conf subject groups fresh now c = (r, c')"
    and "\<forall>s g fr t. EAsk s g fr t \<in> set ls \<longrightarrow> plain_question s g" "plain_question subject groups"
  shows "case r of
      Answered p age \<Rightarrow> (\<exists>fl \<in> set (ec_heap c). fl_subject fl = subject \<and> mset (fl_groups fl) = mset groups
          \<and> fl_result fl = Some (Inr p) \<and> fl_start fl = now - age)
        \<and> age < cache_ttl conf \<and> cache_ttl conf \<le> 300 * second_ns \<and> (fresh \<longrightarrow> age < recent_answer conf)
    | Joined f \<Rightarrow> f < length (ec_heap c) \<and> fl_subject (ec_heap c ! f) = subject \<and> mset (fl_groups (ec_heap c ! f)) = mset groups
        \<and> fl_result (ec_heap c ! f) = None
    | _ \<Rightarrow> True"
proof -
  have ok: "answers_ok 0 (\<lambda>_. True) c" using answers_empty assms(1) by (rule answers_run)
  have plain: "\<forall>fl \<in> set (ec_heap c). flight_plain fl"
    by (rule flights_plain_run [OF assms(1) _ assms(3)]) (simp add: empty_cache_def)
  have same: "fl_subject (ec_heap c ! f) = subject \<and> mset (fl_groups (ec_heap c ! f)) = mset groups"
    if "f < length (ec_heap c)" "fl_key (ec_heap c ! f) = cache_key subject groups" for f
    using flight_question [OF _ that(2) assms(4)] plain nth_mem [OF that(1)] by blast
  have from_same: "\<exists>fl \<in> set (ec_heap c). fl_subject fl = subject \<and> mset (fl_groups fl) = mset groups \<and> fl_result fl = Some (Inr p) \<and> fl_start fl = st"
    if "from_flight 0 c (cache_key subject groups) p st" for p st
    using that same nth_mem unfolding from_flight_def by blast
  show ?thesis
  proof (cases r)
    case (Answered p age)
    with ask_answer(1) [OF ok assms(2) TrueI] cache_ttl_bound(2) [of conf] from_same show ?thesis by (auto simp: MaxCacheTTL_def)
  next
    case (Joined f)
    with ask_answer(2) [OF ok assms(2) TrueI] same show ?thesis by auto
  qed simp_all
qed

text \<open>A call is made, answered and then used.\<close>

definition sample_conf :: ec_conf where
  "sample_conf = \<lparr>ec_TTL = 0, ec_LookupsPerMinute = 0, ec_RecentAnswer = 0\<rparr>"

definition sample_person :: person where
  "sample_person = \<lparr>pe_ObjectID = ''o'', pe_Enabled = True, pe_MemberOf = [''g'']\<rparr>"

theorem cache_answers_fresh_witness:
  "\<exists>c fl. ec_run sample_conf [EAsk ''ann'' [''h'', ''g''] False 100, EDone 0 (Inr sample_person)] empty_cache = Some c
     \<and> fl \<in> set (ec_heap c) \<and> fl_subject fl = ''ann'' \<and> mset (fl_groups fl) = mset [''g'', ''h''] \<and> fl_start fl = 100"
proof -
  let ?ls = "[EAsk ''ann'' [''h'', ''g''] False 100, EDone 0 (Inr sample_person)]"
  have "case ec_run sample_conf ?ls empty_cache of None \<Rightarrow> False
      | Some c \<Rightarrow> fst (lookup_begin sample_conf ''ann'' [''g'', ''h''] False 107 c) = Answered sample_person 7" by code_simp
  then obtain c where c: "ec_run sample_conf ?ls empty_cache = Some c"
      "fst (lookup_begin sample_conf ''ann'' [''g'', ''h''] False 107 c) = Answered sample_person 7" by (auto split: option.splits)
  then obtain c' where c': "lookup_begin sample_conf ''ann'' [''g'', ''h''] False 107 c = (Answered sample_person 7, c')"
    by (cases "lookup_begin sample_conf ''ann'' [''g'', ''h''] False 107 c") auto
  have plain: "\<forall>s g fr t. EAsk s g fr t \<in> set ?ls \<longrightarrow> plain_question s g" "plain_question ''ann'' [''g'', ''h'']"
    by (simp_all add: plain_question_def)
  from cache_answers_fresh [OF c(1) c' plain] c(1) show ?thesis by auto
qed

text \<open>
  Claim C12. A purge takes effect at once: nobody who asks about a person after the purge is served by a directory call that
  began before it, neither from the cache nor by joining it, even if that call ends afterwards.
\<close>

theorem purge_effective:
  assumes "ec_run conf ls empty_cache = Some c0" "ec_run conf (EPurge subject # ms) c0 = Some c"
    and "lookup_begin conf subject groups fresh now c = (r, c')"
  shows "case r of
      Answered p age \<Rightarrow> from_flight (length (ec_heap c0)) c (cache_key subject groups) p (now - age)
    | Joined f \<Rightarrow> length (ec_heap c0) \<le> f
    | _ \<Rightarrow> True"
proof -
  have "answers_ok 0 (\<lambda>_. True) c0" using answers_empty assms(1) by (rule answers_run)
  then have "answers_ok (length (ec_heap c0)) (\<lambda>k. HasPrefix k (subject_prefix subject)) (Purge subject c0)" by (rule answers_after_purge)
  then have "answers_ok (length (ec_heap c0)) (\<lambda>k. HasPrefix k (subject_prefix subject)) c"
    by (rule answers_run) (use assms(2) in simp)
  from ask_answer [OF this assms(3) key_prefix] show ?thesis by (auto split: ask_result.split)
qed

theorem purge_effective_witness:
  "\<exists>c0 c f c'. ec_run sample_conf [EAsk ''ann'' [''g''] False 100] empty_cache = Some c0
     \<and> ec_run sample_conf [EPurge ''ann'', EAsk ''ann'' [''g''] False 101, EDone 0 (Inr sample_person)] c0 = Some c
     \<and> lookup_begin sample_conf ''ann'' [''g''] False 102 c = (Joined f, c') \<and> 1 \<le> f"
proof -
  let ?l1 = "[EAsk ''ann'' [''g''] False 100]" and ?l2 = "[EPurge ''ann'', EAsk ''ann'' [''g''] False 101, EDone 0 (Inr sample_person)]"
  have "case ec_run sample_conf ?l1 empty_cache of None \<Rightarrow> False
      | Some c0 \<Rightarrow> length (ec_heap c0) = 1 \<and> (case ec_run sample_conf ?l2 c0 of None \<Rightarrow> False
          | Some c \<Rightarrow> fst (lookup_begin sample_conf ''ann'' [''g''] False 102 c) = Joined 1)" by code_simp
  then obtain c0 c where c0: "ec_run sample_conf ?l1 empty_cache = Some c0" "length (ec_heap c0) = 1"
    and c: "ec_run sample_conf ?l2 c0 = Some c" "fst (lookup_begin sample_conf ''ann'' [''g''] False 102 c) = Joined 1"
    by (auto split: option.splits)
  obtain c' where c': "lookup_begin sample_conf ''ann'' [''g''] False 102 c = (Joined 1, c')"
    using c(2) by (cases "lookup_begin sample_conf ''ann'' [''g''] False 102 c") auto
  from purge_effective [OF c0(1) c(1) c'] c0 c c' show ?thesis by auto
qed

text \<open>
  Claim C4. Above the lowest tier nothing is reached without a person: in a pool whose requester comes from runner session tokens
  (by its harness, or a pool of Claude sessions without one) and that is not a workload pool, an entry of tier T1 or T2 is allowed
  only for a token signed by the issuer that has not expired, was issued for this runner pool and is pinned to this Pod,
  whose email names a person in a configured domain, and only if the directory says that this person is enabled and in
  every group the entry requires.
\<close>

theorem above_t0_needs_person:
  assumes "Resolve e pool session claims t = ((who, []), t')" "RequesterKind (profile_identity pool) = ''session-jwt''"
    and "hp_Identity pool \<noteq> ''workload''"
    and "de_Allowed (fst (Decide lookup recheck pool entry who))" "Tier (en_Tier entry) = Some want" "0 < want"
  shows "\<exists>vs v header payload text signature c r p age.
    ae_verifiers e = Some vs \<and> vs_Claude vs = Some v
    \<and> jwt_parts (ae_jwt e) (TrimPrefix session tokenPrefix) = Some (header, payload, text, signature)
    \<and> je_es256 (ae_jwt e) (jh_Kid header) text signature \<and> je_claims (ae_jwt e) payload = Some c
    \<and> cl_Issuer c = rv_Issuer v \<and> ae_now e < unix_time (cl_Expires c) \<and> hp_CCPoolID pool \<in> set (audience (cl_Audience c))
    \<and> personEmail (ae_jwt e) (cl_ActEmail c) (rv_PersonDomains v) = Some (rq_Subject who)
    \<and> pin_select (je_sha (ae_jwt e) session) t' = Some r \<and> pr_pod r = pd_Pod claims
    \<and> lookup (2 \<le> want \<and> \<not> recheck) (rq_Subject who) (en_Requires entry) = Inr (p, age)
    \<and> pe_Enabled p \<and> en_Requires entry \<noteq> [] \<and> set (en_Requires entry) \<subseteq> set (pe_MemberOf p)"
proof -
  note d = Decide_person [OF assms(4-6,3)]
  show ?thesis
  proof (rule Resolve_claude_person [OF assms(1,2) d(1)])
    fix vs v s r
    assume v: "ae_verifiers e = Some vs" "vs_Claude vs = Some v" "VerifyClaude (ae_jwt e) v (ae_now e) session = Some s" "rs_Kind s = KindPerson"
      and w: "rs_Subject s = rq_Subject who" "InPool s (hp_CCPoolID pool)" "pin_select (rs_TokenSHA256 s) t' = Some r" "pr_pod r = pd_Pod claims"
    note f = VerifyClaude_person [OF v(3,4)]
    from f(2) d(2) v(1,2) w show ?thesis unfolding f(1) InPool_def by metis
  qed
qed

text \<open>The sample session reads an entry of tier T1, in a pool whose harness takes the person from the session.\<close>

definition sample_entry :: catalog_entry where
  "sample_entry = \<lparr>en_Tier = ''T1'', en_Requires = [''g'']\<rparr>"

definition sample_harness_pool :: hc_pool where
  "sample_harness_pool = sample_pool\<lparr>hp_harness := Some \<lparr>hi_Kind = ''session-jwt'', hi_Requester = None\<rparr>\<rparr>"

theorem above_t0_needs_person_witness:
  "\<exists>who t'. Resolve (sample_env 1000) sample_harness_pool sample_token (sample_pod ''pod-a'') [] = ((who, []), t')
     \<and> de_Allowed (fst (Decide (\<lambda>_ _ _. Inr (sample_person, 7)) False sample_harness_pool sample_entry who))
     \<and> (\<exists>c :: runner_claims. personEmail (ae_jwt (sample_env 1000)) (cl_ActEmail c) [''corp.io''] = Some (rq_Subject who))"
proof -
  let ?lookup = "\<lambda>_ _ _. Inr (sample_person, 7)"
  have "case Resolve (sample_env 1000) sample_harness_pool sample_token (sample_pod ''pod-a'') [] of ((who, code), t') \<Rightarrow> code = []
      \<and> de_Allowed (fst (Decide ?lookup False sample_harness_pool sample_entry who))" by code_simp
  then obtain who t' where r: "Resolve (sample_env 1000) sample_harness_pool sample_token (sample_pod ''pod-a'') [] = ((who, []), t')"
      "de_Allowed (fst (Decide ?lookup False sample_harness_pool sample_entry who))"
    by (auto split: prod.splits)
  have tier: "Tier (en_Tier sample_entry) = Some 1" by code_simp
  have pool: "RequesterKind (profile_identity sample_harness_pool) = ''session-jwt''" "hp_Identity sample_harness_pool \<noteq> ''workload''" by code_simp+
  obtain vs v and c :: runner_claims where "ae_verifiers (sample_env 1000) = Some vs" "vs_Claude vs = Some v"
      "personEmail (ae_jwt (sample_env 1000)) (cl_ActEmail c) (rv_PersonDomains v) = Some (rq_Subject who)"
    using above_t0_needs_person [OF r(1) pool r(2) tier zero_less_one] by blast
  then have "personEmail (ae_jwt (sample_env 1000)) (cl_ActEmail c) [''corp.io''] = Some (rq_Subject who)" by (auto simp: sample_env_def)
  with r show ?thesis by blast
qed

end
