(* ===== verification/Spec2Isabelle.thy ===== *)
theory Spec2Isabelle
  imports Slugs Base64 Registry AuditProofs AuditBoots Substitutions Scopes Netguard Proposals PgWire PgPoolProps Entitlement
begin

text \<open>
  Agent Vault: a credential broker for agents. An agent sends its outbound HTTP requests
  through a proxy; the proxy authenticates the agent's session, picks the service rule that
  matches the request, injects the credential the rule names and forwards the request.

  Parts, and the theories that model them:

  \<^item> \<open>Prelude\<close>, \<open>GoStrings\<close>, \<open>Base64\<close>, \<open>UrlEscape\<close>, \<open>IPAddr\<close>: what the code uses of Go and its
    standard library (byte strings, UTF-8, strconv, base64, escaping, addresses).
  \<^item> \<open>Services\<close>, \<open>Matching\<close>, \<open>Broker\<close>, \<open>Slugs\<close>: internal/broker, the service rules.
\<close>

end
